(* ===== verification/Prelude.thy ===== *)
theory Prelude
  imports Main "HOL-Library.Word" "HOL-Library.Signed_Division"
begin

text \<open>
  Shared vocabulary of the development: the machine types of the 32-bit target, the
  result type of code that can have undefined behaviour, checked arrays, the characters
  of C string literals, and the generic lemmas on words and lists that the component
  theories use.
\<close>

unbundle bit_operations_syntax

type_synonym u8 = "8 word"
type_synonym u16 = "16 word"
type_synonym u32 = "32 word"

text \<open>Byte-addressed physical memory and pointers of the 32-bit machine.\<close>

type_synonym mem = "u32 \<Rightarrow> u8"

named_theorems word_arith \<open>moving address arithmetic from words to naturals\<close>
named_theorems bytes_simps \<open>reading and writing runs of bytes\<close>
named_theorems cdefs \<open>definitions unfolded when a closed term is evaluated\<close>

subsection \<open>Faults and results\<close>

text \<open>
  A \<^verbatim>\<open>fault\<close> is an outcome the C++ code gives no meaning to: an array access outside its
  object, a signed overflow, a division by zero, a null dereference, a \<^verbatim>\<open>va_arg\<close>
  past the last argument or of the wrong type.
\<close>

datatype fault = OutOfBounds | SignedOverflow | DivideByZero | NullPointer | BadArgument

definition rbind :: "fault + 'a \<Rightarrow> ('a \<Rightarrow> fault + 'b) \<Rightarrow> fault + 'b" where
  "rbind r f = (case r of Inl e \<Rightarrow> Inl e | Inr v \<Rightarrow> f v)"

lemma rbind_simps [simp]:
  "rbind (Inl e) f = Inl e"
  "rbind (Inr v) f = f v"
  by (simp_all add: rbind_def)

lemma rbind_Inr_iff: "rbind r f = Inr v \<longleftrightarrow> (\<exists>u. r = Inr u \<and> f u = Inr v)"
  by (cases r) simp_all

lemma rbind_assoc: "rbind (rbind r f) g = rbind r (\<lambda>v. rbind (f v) g)"
  by (cases r) simp_all

lemma rbind_Inr [simp]: "rbind r Inr = r"
  by (cases r) simp_all

lemma rbind_cong [fundef_cong]:
  "r = r' \<Longrightarrow> (\<And>v. r' = Inr v \<Longrightarrow> f v = f' v) \<Longrightarrow> rbind r f = rbind r' f'"
  by (cases r') simp_all

subsection \<open>Checked arrays\<close>

definition aget :: "'a list \<Rightarrow> nat \<Rightarrow> fault + 'a" where
  "aget xs i = (if i < length xs then Inr (xs ! i) else Inl OutOfBounds)"

definition aset :: "'a list \<Rightarrow> nat \<Rightarrow> 'a \<Rightarrow> fault + 'a list" where
  "aset xs i v = (if i < length xs then Inr (xs[i := v]) else Inl OutOfBounds)"

lemma aget_in [simp]: "i < length xs \<Longrightarrow> aget xs i = Inr (xs ! i)"
  by (simp add: aget_def)

lemma aset_in [simp]: "i < length xs \<Longrightarrow> aset xs i v = Inr (xs[i := v])"
  by (simp add: aset_def)

lemma aset_prefix:
  "aset (xs @ y # ys) (length xs) v = Inr (xs @ v # ys)"
  by (simp add: aset_def)

subsection \<open>Characters and C string literals\<close>

definition chars :: "string \<Rightarrow> u8 list" where
  "chars s = map of_char s"

text \<open>A string literal is the array of its characters with the terminating zero.\<close>

definition lit :: "string \<Rightarrow> u8 list" where
  "lit s = chars s @ [0]"

lemma chars_simps [simp]:
  "chars [] = []"
  "chars (c # s) = of_char c # chars s"
  "chars (s @ t) = chars s @ chars t"
  "length (chars s) = length s"
  by (simp_all add: chars_def)

lemma length_lit [simp]: "length (lit s) = Suc (length s)"
  by (simp add: lit_def)

subsection \<open>Words\<close>

lemma unat_of_nat32 [word_arith]: "i < 2 ^ 32 \<Longrightarrow> unat (of_nat i :: u32) = i"
  by (simp add: unat_of_nat)

lemma unat_offset [word_arith]: "i < 2 ^ 32 \<Longrightarrow> unat (p + of_nat i - p :: u32) = i"
  by (simp add: unat_of_nat)

lemma unat_pred [word_arith]: "(n :: u32) \<noteq> 0 \<Longrightarrow> unat (n - 1) = unat n - 1"
  by (rule unat_minus_one)

lemma unat_Suc_pred: "(n :: u32) \<noteq> 0 \<Longrightarrow> unat n = Suc (unat (n - 1))"
  by (metis Suc_pred' unat_gt_0 unat_minus_one)

lemma unat_lt_32: "unat (x :: u32) < 4294967296"
  using unsigned_less [of x] by simp

lemma unat_minus_of_nat: "k \<le> unat n \<Longrightarrow> unat (n - of_nat k :: u32) = unat n - k"
  using unat_lt_32 [of n] by (simp add: unat_sub_if' unat_of_nat)

lemma unat_minus_swap:
  "(a :: u32) \<noteq> b \<Longrightarrow> unat (a - b) + unat (b - a) = 2 ^ 32"
  using unat_lt_32 [of a] unat_lt_32 [of b]
  by (auto simp add: unat_sub_if' word_unat_eq_iff)

lemma unat_add32: "unat (a + b :: u32) = (unat a + unat b) mod 2 ^ 32"
  by (simp add: unat_word_ariths)

lemma unat_plus_nowrap [word_arith]:
  "unat (a :: u32) + unat b < 2 ^ 32 \<Longrightarrow> unat (a + b) = unat a + unat b"
  by (simp add: unat_word_ariths)

end
