(* ===== verification/Machine.thy ===== *)
theory Machine
  imports Prelude
begin

text \<open>
  The machine under the kernel: flat byte-addressed memory with the little-endian 16 and
  32 bit accesses that the i386 target compiles pointer accesses to, runs of bytes in
  memory, and the port instructions of \<^verbatim>\<open>kernel/io.h\<close>. Every effect on the outside
  (port reads and writes, \<^verbatim>\<open>cli\<close>, \<^verbatim>\<open>sti\<close>, \<^verbatim>\<open>hlt\<close>, \<^verbatim>\<open>lidt\<close>, \<^verbatim>\<open>lgdt\<close>) is appended
  to an event log. What a device answers to a port read is the \<^verbatim>\<open>device\<close> field, an
  arbitrary function of the log so far: it stands for the hardware and no operation
  changes it.
\<close>

subsection \<open>Runs of bytes\<close>

definition bytes_at :: "mem \<Rightarrow> u32 \<Rightarrow> nat \<Rightarrow> u8 list" where
  "bytes_at m p n = map (\<lambda>i. m (p + of_nat i)) [0..<n]"

definition write_bytes :: "mem \<Rightarrow> u32 \<Rightarrow> u8 list \<Rightarrow> mem" where
  "write_bytes m p bs = (\<lambda>a. if unat (a - p) < length bs then bs ! unat (a - p) else m a)"

text \<open>The addresses of the \<^term>\<open>n\<close> bytes from \<^term>\<open>p\<close>, around the end of memory.\<close>

definition in_run :: "u32 \<Rightarrow> u32 \<Rightarrow> nat \<Rightarrow> bool" where
  "in_run a p n \<longleftrightarrow> unat (a - p) < n"

lemma length_bytes_at [simp]: "length (bytes_at m p n) = n"
  by (simp add: bytes_at_def)

lemma nth_bytes_at [simp]: "i < n \<Longrightarrow> bytes_at m p n ! i = m (p + of_nat i)"
  by (simp add: bytes_at_def)

lemma bytes_at_0 [simp]: "bytes_at m p 0 = []"
  by (simp add: bytes_at_def)

lemma bytes_at_Suc: "bytes_at m p (Suc n) = m p # bytes_at m (p + 1) n"
proof -
  have "[0..<Suc n] = 0 # map Suc [0..<n]"
    by (metis map_Suc_upt upt_conv_Cons zero_less_Suc)
  then show ?thesis by (simp add: bytes_at_def o_def add.assoc)
qed

lemma bytes_at_snoc: "bytes_at m p (Suc n) = bytes_at m p n @ [m (p + of_nat n)]"
  by (simp add: bytes_at_def)

lemma bytes_at_append:
  "bytes_at m p (k + n) = bytes_at m p k @ bytes_at m (p + of_nat k) n"
  by (rule nth_equalityI) (auto simp: nth_append algebra_simps)

lemma take_bytes_at: "take k (bytes_at m p n) = bytes_at m p (min k n)"
  by (rule nth_equalityI) auto

lemma bytes_at_cong:
  "(\<And>i. i < n \<Longrightarrow> m (p + of_nat i) = m' (p + of_nat i)) \<Longrightarrow> bytes_at m p n = bytes_at m' p n"
  by (simp add: bytes_at_def)

lemma bytes_at_upd [bytes_simps]:
  assumes "n \<le> 2 ^ 32" and "\<not> in_run a p n"
  shows "bytes_at (m(a := v)) p n = bytes_at m p n"
proof (rule bytes_at_cong)
  fix i assume i: "i < n"
  then have "unat (p + of_nat i - p) = i" using assms(1) by (intro unat_offset) simp
  with i assms(2) have "p + of_nat i \<noteq> a" by (auto simp: in_run_def)
  then show "(m(a := v)) (p + of_nat i) = m (p + of_nat i)" by simp
qed

lemma write_bytes_Nil [simp]: "write_bytes m p [] = m"
  by (simp add: write_bytes_def)

lemma write_bytes_Cons: "write_bytes m p (b # bs) = (write_bytes m (p + 1) bs)(p := b)"
proof
  fix a
  show "write_bytes m p (b # bs) a = ((write_bytes m (p + 1) bs)(p := b)) a"
  proof (cases "a = p")
    case False
    then have "unat (a - p) = Suc (unat (a - p - 1))" by (intro unat_Suc_pred) simp
    with False show ?thesis by (simp add: write_bytes_def diff_diff_eq)
  qed (simp add: write_bytes_def)
qed

lemma write_bytes_single: "write_bytes m p [b] = m(p := b)"
  by (simp only: write_bytes_Cons write_bytes_Nil)

lemma write_bytes_Cons_first:
  assumes "length bs < 2 ^ 32"
  shows "write_bytes (m(p := b)) (p + 1) bs = write_bytes m p (b # bs)"
proof -
  have "unat (p - (p + 1)) = 2 ^ 32 - 1"
    by (simp add: unsigned_minus_1_eq_mask mask_eq_exp_minus_1)
  with assms have "(write_bytes (m(p := b)) (p + 1) bs) p = b" by (simp add: write_bytes_def)
  then show ?thesis
    by (auto simp: write_bytes_Cons fun_eq_iff) (auto simp: write_bytes_def)
qed

lemma write_bytes_snoc_first:
  assumes "length bs < 2 ^ 32"
  shows "write_bytes (m(p + of_nat (length bs) := b)) p bs = write_bytes m p (bs @ [b])"
proof
  fix a
  have "a = p + of_nat (length bs) \<longleftrightarrow> unat (a - p) = length bs"
    using assms by (metis add.commute diff_add_cancel unat_offset of_nat_unat ucast_id)
  then show "write_bytes (m(p + of_nat (length bs) := b)) p bs a = write_bytes m p (bs @ [b]) a"
    by (auto simp: write_bytes_def nth_append)
qed

lemma write_bytes_append:
  assumes "length bs + length cs \<le> 2 ^ 32"
  shows "write_bytes (write_bytes m p bs) (p + of_nat (length bs)) cs = write_bytes m p (bs @ cs)"
proof (cases "cs = []")
  case False
  then have bs: "unat (of_nat (length bs) :: u32) = length bs"
    using assms by (intro unat_of_nat32) (cases cs, auto)
  show ?thesis
  proof
    fix a
    have split: "a - (p + of_nat (length bs)) = a - p - of_nat (length bs)" by simp
    have "unat (a - p - of_nat (length bs)) =
      (if length bs \<le> unat (a - p) then unat (a - p) - length bs
       else unat (a - p) + 2 ^ 32 - length bs)"
      by (simp add: unat_sub_if' bs)
    then show "write_bytes (write_bytes m p bs) (p + of_nat (length bs)) cs a
        = write_bytes m p (bs @ cs) a"
      unfolding write_bytes_def split using assms by (auto simp: nth_append)
  qed
qed simp

lemma write_bytes_outside: "\<not> in_run a p (length bs) \<Longrightarrow> write_bytes m p bs a = m a"
  by (simp add: write_bytes_def in_run_def)

lemma write_bytes_at [simp]:
  "i < length bs \<Longrightarrow> i < 2 ^ 32 \<Longrightarrow> write_bytes m p bs (p + of_nat i) = bs ! i"
  by (simp add: write_bytes_def unat_of_nat)

lemma bytes_at_write_same:
  "length bs \<le> 2 ^ 32 \<Longrightarrow> bytes_at (write_bytes m p bs) p (length bs) = bs"
  by (rule nth_equalityI) auto

lemma bytes_at_write_other:
  assumes "\<And>i. i < n \<Longrightarrow> \<not> in_run (q + of_nat i) p (length bs)"
  shows "bytes_at (write_bytes m p bs) q n = bytes_at m q n"
  by (rule bytes_at_cong) (simp add: write_bytes_outside assms)

lemma write_bytes_id: "n \<le> 2 ^ 32 \<Longrightarrow> write_bytes m p (bytes_at m p n) = m"
  by (rule ext) (auto simp: write_bytes_def)

subsection \<open>Little-endian accesses\<close>

definition load16 :: "mem \<Rightarrow> u32 \<Rightarrow> u16" where
  "load16 m p = ucast (m p) OR push_bit 8 (ucast (m (p + 1)))"

definition store16 :: "mem \<Rightarrow> u32 \<Rightarrow> u16 \<Rightarrow> mem" where
  "store16 m p v = m(p := ucast v, p + 1 := ucast (drop_bit 8 v))"

definition load32 :: "mem \<Rightarrow> u32 \<Rightarrow> u32" where
  "load32 m p = ucast (m p) OR push_bit 8 (ucast (m (p + 1)))
     OR push_bit 16 (ucast (m (p + 2))) OR push_bit 24 (ucast (m (p + 3)))"

definition store32 :: "mem \<Rightarrow> u32 \<Rightarrow> u32 \<Rightarrow> mem" where
  "store32 m p v = m(p := ucast v, p + 1 := ucast (drop_bit 8 v),
     p + 2 := ucast (drop_bit 16 v), p + 3 := ucast (drop_bit 24 v))"

lemma join16: "ucast (ucast v :: u8) OR push_bit 8 (ucast (ucast (drop_bit 8 v) :: u8)) = (v :: u16)"
  by (rule bit_word_eqI) (auto simp: bit_simps)

lemma join32:
  "ucast (ucast v :: u8) OR push_bit 8 (ucast (ucast (drop_bit 8 v) :: u8))
     OR push_bit 16 (ucast (ucast (drop_bit 16 v) :: u8))
     OR push_bit 24 (ucast (ucast (drop_bit 24 v) :: u8)) = (v :: u32)"
  (is "?joined = v")
proof (rule bit_word_eqI)
  fix n assume "n < LENGTH(32)"
  then consider "n < 8" | "8 \<le> n" "n < 16" | "16 \<le> n" "n < 24" | "24 \<le> n" "n < 32"
    by fastforce
  then show "bit ?joined n = bit v n"
    by cases (auto simp: bit_simps)
qed

lemma load16_store16_same [simp]: "load16 (store16 m p v) p = v"
  by (simp add: load16_def store16_def join16)

lemma load32_store32_same [simp]: "load32 (store32 m p v) p = v"
  by (simp add: load32_def store32_def join32)

lemma load16_cong: "m p = m' p \<Longrightarrow> m (p + 1) = m' (p + 1) \<Longrightarrow> load16 m p = load16 m' p"
  by (simp add: load16_def)

lemma load32_cong:
  "bytes_at m p 4 = bytes_at m' p 4 \<Longrightarrow> load32 m p = load32 m' p"
  by (simp add: load32_def bytes_at_def numeral_eq_Suc)

lemma store16_outside: "\<not> in_run a p 2 \<Longrightarrow> store16 m p v a = m a"
  by (auto simp: store16_def in_run_def)

lemma store32_outside: "\<not> in_run a p 4 \<Longrightarrow> store32 m p v a = m a"
  by (auto simp: store32_def in_run_def)

lemma store32_apart:
  assumes "4 \<le> unat (p - q)" and "4 \<le> unat (q - p)"
  shows "load32 (store32 m q v) p = load32 m p"
proof (rule load32_cong, unfold bytes_at_def, rule map_cong)
  fix i assume "i \<in> set [0..<4]"
  then have i: "i < 4" by simp
  have "unat (p + of_nat i - q) \<ge> 4"
  proof -
    have "unat (p - q) + unat (q - p) = 2 ^ 32"
      using assms(1) by (intro unat_minus_swap) auto
    then have "unat (p - q) + i < 2 ^ 32" using assms(2) i by linarith
    moreover have "unat (of_nat i :: u32) = i" using i by (intro unat_of_nat32) simp
    ultimately have "unat (p - q + of_nat i) = unat (p - q) + i"
      by (subst unat_plus_nowrap) simp_all
    then show ?thesis using assms(1) by (simp add: algebra_simps)
  qed
  then show "store32 m q v (p + of_nat i) = m (p + of_nat i)"
    by (intro store32_outside) (simp add: in_run_def)
qed simp

subsection \<open>The machine state and the port instructions\<close>

datatype event = Out u16 u8 | In u16 u8 | Cli | Sti | Hlt | Lidt u16 u32 | Lgdt u16 u32

record machine =
  ram :: mem
  events :: "event list"
  device :: "event list \<Rightarrow> u16 \<Rightarrow> u8"

definition outb :: "u16 \<Rightarrow> u8 \<Rightarrow> 'a machine_scheme \<Rightarrow> 'a machine_scheme" where
  "outb port val s = s\<lparr>events := events s @ [Out port val]\<rparr>"

definition inb :: "u16 \<Rightarrow> 'a machine_scheme \<Rightarrow> u8 \<times> 'a machine_scheme" where
  "inb port s =
     (let ret = device s (events s) port in (ret, s\<lparr>events := events s @ [In port ret]\<rparr>))"

end
