(* ===== verification/CString.thy ===== *)
theory CString
  imports Machine
begin

text \<open>
  The string and memory routines of \<^verbatim>\<open>kernel/string.cpp\<close> and the \<^verbatim>\<open>memcpy\<close> of
  \<^verbatim>\<open>kernel/memory.cpp\<close>, over the flat memory. Pointers are 32-bit words and wrap
  around; a loop with a byte count ends by itself, a loop that looks for a terminator is a
  partial function whose value \<^const>\<open>None\<close> means that it never returns. Routines that
  write memory return the new memory and their C result.
\<close>

subsection \<open>Definitions\<close>

partial_function (option) strlen_loop :: "mem \<Rightarrow> u32 \<Rightarrow> u32 \<Rightarrow> u32 option" where
  "strlen_loop m str len =
     (if m (str + len) \<noteq> 0 then strlen_loop m str (len + 1) else Some len)"

definition strlen :: "mem \<Rightarrow> u32 \<Rightarrow> u32 option" where
  "strlen m str = strlen_loop m str 0"

function memset_loop :: "u32 \<Rightarrow> u8 \<Rightarrow> u32 \<Rightarrow> mem \<Rightarrow> mem" where
  "memset_loop p c n m = (if n = 0 then m else memset_loop (p + 1) c (n - 1) (m(p := c)))"
  by pat_completeness auto
termination by (relation "measure (\<lambda>(p, c, n, m). unat n)") (auto simp: measure_unat)

definition memset :: "u32 \<Rightarrow> int \<Rightarrow> u32 \<Rightarrow> mem \<Rightarrow> mem \<times> u32" where
  "memset s c n m = (memset_loop s (word_of_int c) n m, s)"

function memcpy_loop :: "u32 \<Rightarrow> u32 \<Rightarrow> u32 \<Rightarrow> mem \<Rightarrow> mem" where
  "memcpy_loop d s n m =
     (if n = 0 then m else memcpy_loop (d + 1) (s + 1) (n - 1) (m(d := m s)))"
  by pat_completeness auto
termination by (relation "measure (\<lambda>(d, s, n, m). unat n)") (auto simp: measure_unat)

definition memcpy :: "u32 \<Rightarrow> u32 \<Rightarrow> u32 \<Rightarrow> mem \<Rightarrow> mem \<times> u32" where
  "memcpy dest src n m = (memcpy_loop dest src n m, dest)"

function memmove_backward :: "u32 \<Rightarrow> u32 \<Rightarrow> u32 \<Rightarrow> mem \<Rightarrow> mem" where
  "memmove_backward d s n m =
     (if n = 0 then m
      else let d' = d - 1; s' = s - 1 in memmove_backward d' s' (n - 1) (m(d' := m s')))"
  by pat_completeness auto
termination by (relation "measure (\<lambda>(d, s, n, m). unat n)") (auto simp: measure_unat)

definition memmove :: "u32 \<Rightarrow> u32 \<Rightarrow> u32 \<Rightarrow> mem \<Rightarrow> mem \<times> u32" where
  "memmove dest src n m =
     (if dest < src then (memcpy_loop dest src n m, dest)
      else (memmove_backward (dest + n) (src + n) n m, dest))"

function memcmp :: "mem \<Rightarrow> u32 \<Rightarrow> u32 \<Rightarrow> u32 \<Rightarrow> int" where
  "memcmp m p1 p2 n =
     (if n = 0 then 0
      else if m p1 \<noteq> m p2 then uint (m p1) - uint (m p2)
      else memcmp m (p1 + 1) (p2 + 1) (n - 1))"
  by pat_completeness auto
termination by (relation "measure (\<lambda>(m, p1, p2, n). unat n)") (auto simp: measure_unat)

partial_function (option) strcpy_loop :: "u32 \<Rightarrow> u32 \<Rightarrow> mem \<Rightarrow> mem option" where
  "strcpy_loop d s m =
     (let c = m s; m' = m(d := c) in
      if c \<noteq> 0 then strcpy_loop (d + 1) (s + 1) m' else Some m')"

definition strcpy :: "u32 \<Rightarrow> u32 \<Rightarrow> mem \<Rightarrow> (mem \<times> u32) option" where
  "strcpy dest src m = map_option (\<lambda>m'. (m', dest)) (strcpy_loop dest src m)"

text \<open>
  The first loop of \<^verbatim>\<open>strncpy\<close> leaves \<^verbatim>\<open>n\<close> decremented once more when it stops
  because \<^verbatim>\<open>n\<close> was zero: the post-decrement of the failing test wraps it to
  \<^verbatim>\<open>SIZE_MAX\<close>, and the second loop counts down from there.
\<close>

function strncpy_copy :: "u32 \<Rightarrow> u32 \<Rightarrow> u32 \<Rightarrow> mem \<Rightarrow> u32 \<times> u32 \<times> mem" where
  "strncpy_copy d s n m =
     (if n = 0 then (d, n - 1, m)
      else let c = m s; m' = m(d := c) in
        if c \<noteq> 0 then strncpy_copy (d + 1) (s + 1) (n - 1) m' else (d + 1, n - 1, m'))"
  by pat_completeness auto
termination by (relation "measure (\<lambda>(d, s, n, m). unat n)") (auto simp: measure_unat)

definition strncpy :: "u32 \<Rightarrow> u32 \<Rightarrow> u32 \<Rightarrow> mem \<Rightarrow> mem \<times> u32" where
  "strncpy dest src n m =
     (case strncpy_copy dest src n m of (d, n', m') \<Rightarrow> (memset_loop d 0 n' m', dest))"

partial_function (option) strcmp :: "mem \<Rightarrow> u32 \<Rightarrow> u32 \<Rightarrow> int option" where
  "strcmp m s1 s2 =
     (if m s1 \<noteq> 0 \<and> m s1 = m s2 then strcmp m (s1 + 1) (s2 + 1)
      else Some (uint (m s1) - uint (m s2)))"

partial_function (option) strchr_loop :: "mem \<Rightarrow> u32 \<Rightarrow> u8 \<Rightarrow> u32 option" where
  "strchr_loop m s c = (if m s \<noteq> 0 \<and> m s \<noteq> c then strchr_loop m (s + 1) c else Some s)"

definition strchr :: "mem \<Rightarrow> u32 \<Rightarrow> int \<Rightarrow> u32 option" where
  "strchr m s c =
     map_option (\<lambda>p. if m p = word_of_int c then p else 0) (strchr_loop m s (word_of_int c))"

declare memset_loop.simps [simp del] memcpy_loop.simps [simp del]
  memmove_backward.simps [simp del] memcmp.simps [simp del] strncpy_copy.simps [simp del]

subsection \<open>Counted loops: block fill and block copy\<close>

lemma word_pred_induct [case_names zero step]:
  fixes n :: u32
  assumes "P 0" and "\<And>n. n \<noteq> 0 \<Longrightarrow> P (n - 1) \<Longrightarrow> P n"
  shows "P n"
proof (induction n rule: measure_induct_rule [where f = unat])
  case (less n)
  then show ?case using assms by (cases "n = 0") (auto simp: measure_unat)
qed

lemma memset_loop_eq:
  "memset_loop p c n m = write_bytes m p (replicate (unat n) c)"
proof (induction n arbitrary: p m rule: word_pred_induct)
  case zero
  show ?case by (simp add: memset_loop.simps)
next
  case (step n)
  have "length (replicate (unat (n - 1)) c) < 2 ^ 32" using unat_lt_32 [of "n - 1"] by simp
  then have "write_bytes (m(p := c)) (p + 1) (replicate (unat (n - 1)) c)
      = write_bytes m p (replicate (unat n) c)"
    by (simp only: write_bytes_Cons_first unat_Suc_pred [OF step.hyps] replicate_Suc)
  with step show ?case
    by (simp only: memset_loop.simps [of p c n] if_False)
qed

text \<open>
  A forward copy is right when the destination is the source or does not start inside the
  source run; a backward copy when the source does not start inside the destination run.
\<close>

lemma memcpy_loop_eq:
  assumes "d = s \<or> unat n \<le> unat (d - s)"
  shows "memcpy_loop d s n m = write_bytes m d (bytes_at m s (unat n))"
  using assms
proof (induction n arbitrary: d s m rule: word_pred_induct)
  case zero
  show ?case by (simp add: memcpy_loop.simps)
next
  case (step n)
  let ?k = "unat (n - 1)"
  have n: "unat n = Suc ?k" using step.hyps by (rule unat_Suc_pred)
  have same: "bytes_at (m(d := m s)) (s + 1) ?k = bytes_at m (s + 1) ?k"
  proof (cases "d = s")
    case False
    with step.prems n have "\<not> in_run d (s + 1) ?k"
      using unat_minus_one [of "d - s"] by (auto simp: in_run_def diff_diff_eq)
    then show ?thesis by (intro bytes_at_upd) (use unat_lt_32 [of "n - 1"] in auto)
  qed simp
  have "memcpy_loop d s n m = memcpy_loop (d + 1) (s + 1) (n - 1) (m(d := m s))"
    using step.hyps by (simp add: memcpy_loop.simps [of d s n])
  also have "\<dots> = write_bytes (m(d := m s)) (d + 1) (bytes_at m (s + 1) ?k)"
    using step.prems n by (subst step.IH) (auto simp: same)
  also have "\<dots> = write_bytes m d (m s # bytes_at m (s + 1) ?k)"
    by (intro write_bytes_Cons_first) (use unat_lt_32 [of "n - 1"] in simp)
  finally show ?case by (simp add: n bytes_at_Suc)
qed

lemma memmove_backward_eq:
  assumes "d = s \<or> unat n \<le> unat (s - d)"
  shows "memmove_backward (d + n) (s + n) n m = write_bytes m d (bytes_at m s (unat n))"
  using assms
proof (induction n arbitrary: m rule: word_pred_induct)
  case zero
  show ?case by (simp add: memmove_backward.simps)
next
  case (step n)
  let ?k = "unat (n - 1)"
  let ?m = "m(d + of_nat ?k := m (s + of_nat ?k))"
  have n: "unat n = Suc ?k" using step.hyps by (rule unat_Suc_pred)
  have k: "of_nat ?k = n - 1" by simp
  have same: "bytes_at ?m s ?k = bytes_at m s ?k"
  proof (cases "d = s")
    case True
    then show ?thesis by simp
  next
    case False
    have "\<not> in_run (d + (n - 1)) s ?k"
    proof
      assume "in_run (d + (n - 1)) s ?k"
      then have lt: "unat (d + (n - 1) - s) < ?k" by (simp add: in_run_def)
      have "?k = (unat (d + (n - 1) - s) + unat (s - d)) mod 2 ^ 32"
        using unat_add32 [of "d + (n - 1) - s" "s - d"] by simp
      moreover have "?k < unat (s - d)" using step.prems False n by auto
      ultimately show False using lt unat_lt_32 [of "s - d"] by (auto simp: mod_if split: if_splits)
    qed
    then show ?thesis unfolding k by (intro bytes_at_upd) (use unat_lt_32 [of "n - 1"] in auto)
  qed
  have "memmove_backward (d + n) (s + n) n m = memmove_backward (d + (n - 1)) (s + (n - 1)) (n - 1) ?m"
    using step.hyps by (subst memmove_backward.simps) (simp add: Let_def add_diff_eq)
  also have "\<dots> = write_bytes ?m d (bytes_at ?m s ?k)"
    using step.prems n by (intro step.IH) auto
  also have "\<dots> = write_bytes ?m d (bytes_at m s ?k)" by (simp only: same)
  also have "\<dots> = write_bytes m d (bytes_at m s ?k @ [m (s + of_nat ?k)])"
    using write_bytes_snoc_first [of "bytes_at m s ?k" m d "m (s + of_nat ?k)"] unat_lt_32 [of "n - 1"]
    by simp
  finally show ?case by (simp only: n bytes_at_snoc)
qed

subsection \<open>C strings in memory\<close>

text \<open>\<^verbatim>\<open>cstr_at m p s\<close>: the bytes \<^term>\<open>s\<close>, none of them zero, then a zero.\<close>

fun cstr_at :: "mem \<Rightarrow> u32 \<Rightarrow> u8 list \<Rightarrow> bool" where
  "cstr_at m p [] \<longleftrightarrow> m p = 0"
| "cstr_at m p (c # cs) \<longleftrightarrow> c \<noteq> 0 \<and> m p = c \<and> cstr_at m (p + 1) cs"

lemma cstr_at_bytes: "cstr_at m p s \<longleftrightarrow> bytes_at m p (Suc (length s)) = s @ [0] \<and> 0 \<notin> set s"
  by (induction s arbitrary: p) (auto simp: bytes_at_Suc)

lemma cstr_at_nth: "cstr_at m p s \<Longrightarrow> i < length s \<Longrightarrow> m (p + of_nat i) = s ! i"
proof -
  assume "cstr_at m p s" and i: "i < length s"
  then have "bytes_at m p (Suc (length s)) ! i = (s @ [0]) ! i" by (simp add: cstr_at_bytes)
  with i show ?thesis by (simp add: nth_append)
qed

lemma cstr_at_nonzero: "cstr_at m p s \<Longrightarrow> i < length s \<Longrightarrow> s ! i \<noteq> 0"
  by (metis cstr_at_bytes nth_mem)

lemma cstr_at_end: "cstr_at m p s \<Longrightarrow> m (p + of_nat (length s)) = 0"
  by (induction s arbitrary: p) (auto simp: add.assoc [symmetric])

lemma cstr_at_length:
  assumes "cstr_at m p s"
  shows "length s < 2 ^ 32"
proof (rule ccontr)
  assume "\<not> length s < 2 ^ 32"
  moreover define k where "k = unat (of_nat (length s) :: u32)"
  ultimately have k: "k < length s" using unat_lt_32 [of "of_nat (length s)"] by simp
  have "p + of_nat k = p + of_nat (length s)" by (simp add: k_def)
  with cstr_at_end [OF assms] cstr_at_nth [OF assms k] cstr_at_nonzero [OF assms k]
  show False by simp
qed

lemma cstr_at_unique: "cstr_at m p s \<Longrightarrow> cstr_at m p t \<Longrightarrow> s = t"
proof (induction s arbitrary: p t)
  case Nil then show ?case by (cases t) auto
next
  case (Cons c s) then show ?case by (cases t) auto
qed

lemma cstr_at_exists:
  assumes "m a = 0"
  shows "\<exists>s. cstr_at m p s"
proof -
  have step: "(\<exists>s. cstr_at m p s) \<or> (\<forall>i<n. m (p + of_nat i) \<noteq> 0)" for n
  proof (induction n arbitrary: p)
    case (Suc n)
    show ?case
    proof (cases "m p = 0")
      case True
      then have "cstr_at m p []" by simp
      then show ?thesis by blast
    next
      case False
      from Suc [of "p + 1"] show ?thesis
      proof
        assume "\<exists>s. cstr_at m (p + 1) s"
        then obtain s where "cstr_at m p (m p # s)" using False by auto
        then show ?thesis by blast
      next
        assume "\<forall>i<n. m (p + 1 + of_nat i) \<noteq> 0"
        with False show ?thesis by (auto simp: less_Suc_eq_0_disj add.assoc)
      qed
    qed
  qed simp
  have "p + of_nat (unat (a - p)) = a" by simp
  with assms step [of "Suc (unat (a - p))"] show ?thesis by (metis lessI)
qed

lemma strlen_loop_cstr:
  "cstr_at m (str + len) s \<Longrightarrow> strlen_loop m str len = Some (len + of_nat (length s))"
  by (induction s arbitrary: len) (auto simp: strlen_loop.simps [of m str] add.assoc)

lemma strlen_cstr: "cstr_at m p s \<Longrightarrow> strlen m p = Some (of_nat (length s))"
  using strlen_loop_cstr [of m p 0 s] by (simp add: strlen_def)

lemma strlen_loop_zero:
  assumes "strlen_loop m str len = Some r"
  shows "m (str + r) = 0"
  by (rule strlen_loop.raw_induct [where P = "\<lambda>m str len r. m (str + r) = 0", OF _ assms])
    (auto split: if_splits)

lemma strlen_defined: "strlen m p \<noteq> None \<longleftrightarrow> (\<exists>a. m a = 0)"
proof
  assume "strlen m p \<noteq> None"
  then obtain r where "strlen_loop m p 0 = Some r" by (auto simp: strlen_def)
  then show "\<exists>a. m a = 0" by (blast dest: strlen_loop_zero)
next
  assume "\<exists>a. m a = 0"
  then obtain s where "cstr_at m p s" using cstr_at_exists by blast
  then show "strlen m p \<noteq> None" by (simp add: strlen_cstr)
qed

subsection \<open>Comparison\<close>

text \<open>The difference of the first bytes that differ, a missing byte counting as zero.\<close>

fun first_difference :: "u8 list \<Rightarrow> u8 list \<Rightarrow> int" where
  "first_difference [] [] = 0"
| "first_difference [] (d # ds) = - uint d"
| "first_difference (c # cs) [] = uint c"
| "first_difference (c # cs) (d # ds) =
     (if c = d then first_difference cs ds else uint c - uint d)"

lemma first_difference_0_iff:
  "0 \<notin> set s \<Longrightarrow> 0 \<notin> set t \<Longrightarrow> first_difference s t = 0 \<longleftrightarrow> s = t"
  by (induction s t rule: first_difference.induct) (auto simp: uint_0_iff dest: word_uint_eqI)

lemma first_difference_less_iff:
  "0 \<notin> set s \<Longrightarrow> 0 \<notin> set t \<Longrightarrow> first_difference s t < 0 \<longleftrightarrow> ord_class.lexordp s t"
  by (induction s t rule: first_difference.induct)
    (auto simp: word_less_def uint_0_iff order.strict_iff_order dest: word_uint_eqI)

lemma strcmp_cstr:
  "cstr_at m p s \<Longrightarrow> cstr_at m q t \<Longrightarrow> strcmp m p q = Some (first_difference s t)"
proof (induction s t arbitrary: p q rule: first_difference.induct)
  case (4 c cs d ds)
  then show ?case by (subst strcmp.simps) auto
qed (auto simp: strcmp.simps)

lemma memcmp_bytes:
  "memcmp m p q n = first_difference (bytes_at m p (unat n)) (bytes_at m q (unat n))"
proof (induction n arbitrary: p q rule: word_pred_induct)
  case zero
  show ?case by (simp add: memcmp.simps)
next
  case (step n)
  then show ?case
    by (simp add: memcmp.simps [of m p q n] unat_Suc_pred [OF step.hyps] bytes_at_Suc)
qed

lemma first_difference_same_length:
  "length s = length t \<Longrightarrow> first_difference s t = 0 \<longleftrightarrow> s = t"
  by (induction s t rule: first_difference.induct) (auto dest: word_uint_eqI)

lemma strchr_loop_cstr:
  "cstr_at m p s \<Longrightarrow>
   strchr_loop m p c = Some (p + of_nat (length (takeWhile (\<lambda>x. x \<noteq> c) s)))"
proof (induction s arbitrary: p)
  case Nil
  then show ?case by (simp add: strchr_loop.simps)
next
  case (Cons x s)
  then show ?case by (subst strchr_loop.simps) (auto simp: add.assoc)
qed

subsection \<open>String copies\<close>

text \<open>Storing the first byte of a string ahead of it leaves the rest of the string in place.\<close>

lemma cstr_at_step:
  assumes "cstr_at m s (c # str)" and "d = s \<or> length (c # str) < unat (d - s)"
  shows "cstr_at (m(d := c)) (s + 1) str"
proof (cases "d = s")
  case True
  with assms(1) show ?thesis by (simp add: fun_upd_idem)
next
  case False
  with assms(2) have "\<not> in_run d (s + 1) (Suc (length str))"
    using unat_minus_one [of "d - s"] by (auto simp: in_run_def diff_diff_eq)
  then have "bytes_at (m(d := c)) (s + 1) (Suc (length str)) = bytes_at m (s + 1) (Suc (length str))"
    by (intro bytes_at_upd) (use cstr_at_length [OF assms(1)] in auto)
  with assms(1) show ?thesis by (simp add: cstr_at_bytes bytes_at_Suc [of m s])
qed

lemma strcpy_loop_cstr:
  assumes "cstr_at m s str" and "d = s \<or> length str < unat (d - s)"
  shows "strcpy_loop d s m = Some (write_bytes m d (str @ [0]))"
  using assms
proof (induction str arbitrary: d s m)
  case Nil
  then show ?case by (subst strcpy_loop.simps) (simp add: write_bytes_single)
next
  case (Cons c str)
  let ?m = "m(d := c)"
  have len: "length (str @ [0 :: u8]) < 2 ^ 32" using cstr_at_length [OF Cons.prems(1)] by simp
  have "cstr_at ?m (s + 1) str" using Cons.prems by (rule cstr_at_step)
  then have "strcpy_loop (d + 1) (s + 1) ?m = Some (write_bytes ?m (d + 1) (str @ [0]))"
    by (rule Cons.IH) (use Cons.prems(2) in auto)
  also have "write_bytes ?m (d + 1) (str @ [0]) = write_bytes m d (c # str @ [0])"
    using len by (rule write_bytes_Cons_first)
  finally show ?case
    using Cons.prems(1) by (subst strcpy_loop.simps) (simp add: Let_def fun_upd_def)
qed

text \<open>
  The copying loop of \<^verbatim>\<open>strncpy\<close>: with the terminator among the first \<^term>\<open>n\<close> bytes
  it stops behind it with the bytes left to pad; otherwise it has copied \<^term>\<open>n\<close> bytes and
  leaves the count wrapped around.
\<close>

lemma strncpy_copy_short:
  assumes "cstr_at m s str" and "length str < unat n" and "d = s \<or> length str < unat (d - s)"
  shows "strncpy_copy d s n m =
    (d + of_nat (Suc (length str)), n - of_nat (Suc (length str)), write_bytes m d (str @ [0]))"
  using assms
proof (induction str arbitrary: d s n m)
  case Nil
  then have "n \<noteq> 0" by auto
  with Nil show ?case by (subst strncpy_copy.simps) (simp add: write_bytes_single)
next
  case (Cons c str)
  let ?m = "m(d := c)"
  have n: "n \<noteq> 0" using Cons.prems(2) by auto
  have "cstr_at ?m (s + 1) str" using Cons.prems(1,3) by (rule cstr_at_step)
  moreover have "length str < unat (n - 1)"
    using Cons.prems(2) unat_Suc_pred [OF n] by simp
  moreover have "d + 1 = s + 1 \<or> length str < unat (d + 1 - (s + 1))" using Cons.prems(3) by auto
  ultimately have "strncpy_copy (d + 1) (s + 1) (n - 1) ?m =
      (d + 1 + of_nat (Suc (length str)), n - 1 - of_nat (Suc (length str)),
       write_bytes ?m (d + 1) (str @ [0]))"
    by (rule Cons.IH)
  moreover have "write_bytes ?m (d + 1) (str @ [0]) = write_bytes m d (c # str @ [0])"
    using cstr_at_length [OF Cons.prems(1)] by (intro write_bytes_Cons_first) simp
  ultimately show ?case using Cons.prems(1) n
    by (subst strncpy_copy.simps) (simp add: Let_def diff_diff_eq add.assoc)
qed

lemma strncpy_copy_long:
  assumes "0 \<notin> set (bytes_at m s (unat n))" and "d = s \<or> unat n \<le> unat (d - s)"
  shows "strncpy_copy d s n m = (d + n, - 1, write_bytes m d (bytes_at m s (unat n)))"
  using assms
proof (induction n arbitrary: d s m rule: word_pred_induct)
  case zero
  show ?case by (subst strncpy_copy.simps) simp
next
  case (step n)
  let ?m = "m(d := m s)" and ?k = "unat (n - 1)"
  have n: "unat n = Suc ?k" using step.hyps by (rule unat_Suc_pred)
  have same: "bytes_at ?m (s + 1) ?k = bytes_at m (s + 1) ?k"
  proof (cases "d = s")
    case False
    with step.prems(2) have "\<not> in_run d (s + 1) ?k"
      using n unat_minus_one [of "d - s"] by (auto simp: in_run_def diff_diff_eq)
    then show ?thesis by (intro bytes_at_upd) (use unat_lt_32 [of "n - 1"] in auto)
  qed simp
  have "0 \<notin> set (bytes_at ?m (s + 1) ?k)" and c: "m s \<noteq> 0"
    using step.prems(1) unfolding same by (auto simp: n bytes_at_Suc)
  moreover have "d + 1 = s + 1 \<or> ?k \<le> unat (d + 1 - (s + 1))" using step.prems(2) n by auto
  ultimately have "strncpy_copy (d + 1) (s + 1) (n - 1) ?m =
      (d + 1 + (n - 1), - 1, write_bytes ?m (d + 1) (bytes_at ?m (s + 1) ?k))"
    by (intro step.IH)
  moreover have "write_bytes ?m (d + 1) (bytes_at ?m (s + 1) ?k)
      = write_bytes m d (bytes_at m s (unat n))"
    unfolding same n bytes_at_Suc
    by (intro write_bytes_Cons_first) (use unat_lt_32 [of "n - 1"] in simp)
  ultimately show ?case using step.hyps c by (subst strncpy_copy.simps) (simp add: Let_def)
qed

subsection \<open>Properties\<close>

text \<open>
  C34. \<^verbatim>\<open>memmove\<close> copies any \<^term>\<open>n\<close> bytes correctly, whatever the overlap of the two
  runs, as long as neither wraps around the end of memory: afterwards the destination holds
  what the source held before, and no other byte has changed.
\<close>

theorem memmove_correct:
  assumes "unat dest + unat n \<le> 2 ^ 32" and "unat src + unat n \<le> 2 ^ 32"
  shows "memmove dest src n m = (write_bytes m dest (bytes_at m src (unat n)), dest)"
proof (cases "dest < src")
  case True
  then have "unat n \<le> unat (dest - src)"
    using assms unat_minus_swap [of dest src] by (simp add: unat_sub_if' word_less_nat_alt)
  with True show ?thesis by (simp add: memmove_def memcpy_loop_eq)
next
  case False
  then have "dest = src \<or> unat n \<le> unat (src - dest)"
    using assms by (auto simp: unat_sub_if' word_less_nat_alt word_unat_eq_iff)
  with False show ?thesis by (simp add: memmove_def memmove_backward_eq)
qed

theorem memmove_correct_witness:
  "fst (memmove 11 10 3 (write_bytes (\<lambda>_. 0) 10 [1, 2, 3])) 13 = 3"
proof -
  have "unat (11 :: u32) + unat (3 :: u32) \<le> 2 ^ 32" and "unat (10 :: u32) + unat (3 :: u32) \<le> 2 ^ 32"
    by simp_all
  from memmove_correct [OF this, of "write_bytes (\<lambda>_. 0) 10 [1, 2, 3]"] show ?thesis
    by (simp add: write_bytes_def bytes_at_def)
qed

text \<open>
  \<^verbatim>\<open>strncpy\<close> with a source shorter than \<^term>\<open>n\<close>: the destination receives the
  string and is padded with zeros to exactly \<^term>\<open>n\<close> bytes; nothing else changes.
\<close>

lemma strncpy_short:
  assumes "cstr_at m src str" and "length str < unat n"
    and "dest = src \<or> length str < unat (dest - src)"
  shows "strncpy dest src n m =
    (write_bytes m dest (str @ replicate (unat n - length str) 0), dest)"
proof -
  let ?k = "Suc (length str)"
  have k: "unat (n - of_nat ?k) = unat n - ?k"
    using assms(2) unat_lt_32 [of n] by (intro unat_minus_of_nat) simp
  have "str @ replicate (unat n - length str) 0 = (str @ [0]) @ replicate (unat n - ?k) (0 :: u8)"
    using assms(2) by (simp add: Suc_diff_Suc flip: replicate_Suc)
  moreover have "memset_loop (dest + of_nat ?k) 0 (n - of_nat ?k) (write_bytes m dest (str @ [0]))
      = write_bytes m dest ((str @ [0]) @ replicate (unat n - ?k) 0)"
    using assms(2) unat_lt_32 [of n] write_bytes_append [of "str @ [0]" "replicate (unat n - ?k) 0" m dest]
    unfolding memset_loop_eq k by simp
  ultimately show ?thesis
    using strncpy_copy_short [OF assms] by (simp add: strncpy_def)
qed

lemma strncpy_short_witness:
  "fst (strncpy 32 16 4 (write_bytes (\<lambda>_. 7) 16 [1, 2, 0])) 35 = 0"
proof -
  let ?m = "write_bytes (\<lambda>_. 7) 16 [1, 2, 0 :: u8] :: mem"
  have "cstr_at ?m 16 [1, 2]" by (simp add: write_bytes_def)
  moreover have "length [1, 2 :: u8] < unat (4 :: u32)" by simp
  moreover have "(32 :: u32) = 16 \<or> length [1, 2 :: u8] < unat (32 - 16 :: u32)" by simp
  ultimately show ?thesis
    by (simp only: strncpy_short [of ?m 16 "[1, 2]" 4 32]) (simp add: write_bytes_def)
qed

text \<open>
  C35. \<^verbatim>\<open>strncpy\<close> with no terminator among the first \<^term>\<open>n\<close> source bytes does not stop
  after \<^term>\<open>n\<close> bytes: the count has wrapped around and the padding loop clears the whole
  memory, except for the last byte it copied.
\<close>

theorem strncpy_overrun:
  assumes "n \<noteq> 0" and "0 \<notin> set (bytes_at m src (unat n))"
    and "dest = src \<or> unat n \<le> unat (dest - src)"
  shows "strncpy dest src n m = ((\<lambda>_. 0)(dest + n - 1 := m (src + n - 1)), dest)"
proof -
  let ?m = "write_bytes m dest (bytes_at m src (unat n))"
  have last: "?m (dest + n - 1) = m (src + n - 1)"
    using assms(1) unat_lt_32 [of "n - 1"] write_bytes_at [of "unat (n - 1)" "bytes_at m src (unat n)" m dest]
    by (simp add: unat_Suc_pred add_diff_eq)
  have "memset_loop (dest + n) 0 (- 1) ?m a = ((\<lambda>_. 0)(dest + n - 1 := m (src + n - 1))) a" for a
  proof (cases "a = dest + n - 1")
    case True
    then have "a - (dest + n) = - 1" by simp
    with True last show ?thesis by (simp add: memset_loop_eq write_bytes_def)
  next
    case False
    then have "a - (dest + n) \<noteq> - 1" by (metis add.commute add_diff_cancel diff_add_cancel uminus_add_conv_diff)
    then have "a - (dest + n) < - 1" by (simp add: order.not_eq_order_implies_strict)
    with False show ?thesis by (simp add: memset_loop_eq write_bytes_def word_less_nat_alt)
  qed
  then have "memset_loop (dest + n) 0 (- 1) ?m = (\<lambda>_. 0)(dest + n - 1 := m (src + n - 1))"
    by (rule ext)
  then show ?thesis using strncpy_copy_long [OF assms(2,3)] by (simp add: strncpy_def)
qed

theorem strncpy_overrun_witness:
  "fst (strncpy 4096 8192 4 (\<lambda>_. 65)) 65536 = 0 \<and> fst (strncpy 4096 8192 4 (\<lambda>_. 65)) 4099 = 65"
proof -
  have "(4 :: u32) \<noteq> 0" by simp
  moreover have "0 \<notin> set (bytes_at (\<lambda>_. 65) 8192 (unat (4 :: u32)))" by (auto simp: bytes_at_def)
  moreover have "(4096 :: u32) = 8192 \<or> unat (4 :: u32) \<le> unat (4096 - 8192 :: u32)" by simp
  ultimately have "strncpy 4096 8192 4 (\<lambda>_. 65) = ((\<lambda>_. 0)(4096 + 4 - 1 := 65), 4096)"
    by (rule strncpy_overrun)
  then show ?thesis by simp
qed

text \<open>
  \<^verbatim>\<open>strcmp\<close> on two terminated strings returns, and its sign is their lexicographic
  order on unsigned bytes: zero exactly for equal strings.
\<close>

lemma strcmp_orders:
  assumes "cstr_at m p s" and "cstr_at m q t"
  shows "\<exists>r. strcmp m p q = Some r \<and> (r = 0 \<longleftrightarrow> s = t) \<and> (r < 0 \<longleftrightarrow> ord_class.lexordp s t)"
proof -
  have "0 \<notin> set s" and "0 \<notin> set t" using assms by (simp_all add: cstr_at_bytes)
  then show ?thesis
    using strcmp_cstr [OF assms] by (simp add: first_difference_0_iff first_difference_less_iff)
qed

lemma strcmp_orders_witness:
  "\<exists>r. strcmp (write_bytes (\<lambda>_. 0) 16 [1, 2, 0, 1, 3, 0]) 16 19 = Some r \<and> r < 0"
proof -
  let ?m = "write_bytes (\<lambda>_. 0) 16 [1, 2, 0, 1, 3, 0 :: u8] :: mem"
  have "cstr_at ?m 16 [1, 2]" and "cstr_at ?m 19 [1, 3]" by (simp_all add: write_bytes_def)
  from strcmp_orders [OF this] show ?thesis by auto
qed

text \<open>
  \<^verbatim>\<open>strlen\<close> returns exactly when memory holds a zero byte anywhere (the pointer
  wraps around), and on a terminated string it returns its length.
\<close>

lemma strlen_terminates:
  "(strlen m p = None \<longleftrightarrow> (\<forall>a. m a \<noteq> 0)) \<and>
   (\<forall>n. strlen m p = Some n \<longleftrightarrow> cstr_at m p (bytes_at m p (unat n)))"
proof (intro conjI allI)
  show "strlen m p = None \<longleftrightarrow> (\<forall>a. m a \<noteq> 0)" using strlen_defined by blast
next
  fix n
  have "cstr_at m p (bytes_at m p (unat n))" if "strlen m p = Some n"
  proof -
    from that obtain s where s: "cstr_at m p s" using strlen_defined cstr_at_exists by blast
    then have "n = of_nat (length s)" using that by (simp add: strlen_cstr)
    then have "unat n = length s" using cstr_at_length [OF s] by (simp add: unat_of_nat32)
    moreover have "s = bytes_at m p (length s)"
      using s by (simp add: cstr_at_bytes bytes_at_snoc)
    ultimately show ?thesis using s by simp
  qed
  then show "strlen m p = Some n \<longleftrightarrow> cstr_at m p (bytes_at m p (unat n))"
    by (auto simp: strlen_cstr)
qed

end
