(* ===== verification/Heap.thy ===== *)
theory Heap
  imports CString "HOL-Library.Monad_Syntax"
begin

text \<open>
  The allocator of \<^verbatim>\<open>kernel/memory.cpp\<close>: a singly linked list of blocks, each a
  12-byte header followed by its payload, in the flat memory. Operations whose list walk
  may fail to end on a corrupted list are partial (\<^const>\<open>None\<close>: no return). The second
  half abstracts the headers to a list of sizes and free flags, gives every operation its
  effect on that list and states the allocator contract that the clients of the heap use.
\<close>

subsection \<open>State and block headers\<close>

record heap = machine +
  heap_start :: u32

definition HEAP_START :: u32 where "HEAP_START = 0x100000"
definition HEAP_SIZE :: u32 where "HEAP_SIZE = 0x100000"

text \<open>
  \<^verbatim>\<open>struct block_meta\<close> on i386: \<^verbatim>\<open>size\<close> at offset 0, \<^verbatim>\<open>next\<close> at 4, the
  byte \<^verbatim>\<open>is_free\<close> at 8, padded to 12 bytes.
\<close>

definition sizeof_block_meta :: u32 where "sizeof_block_meta = 12"

definition blk_size :: "mem \<Rightarrow> u32 \<Rightarrow> u32" where "blk_size m b = load32 m b"
definition blk_next :: "mem \<Rightarrow> u32 \<Rightarrow> u32" where "blk_next m b = load32 m (b + 4)"
definition blk_free :: "mem \<Rightarrow> u32 \<Rightarrow> bool" where "blk_free m b \<longleftrightarrow> m (b + 8) \<noteq> 0"

definition set_size :: "u32 \<Rightarrow> u32 \<Rightarrow> mem \<Rightarrow> mem" where "set_size b v m = store32 m b v"
definition set_next :: "u32 \<Rightarrow> u32 \<Rightarrow> mem \<Rightarrow> mem" where "set_next b v m = store32 m (b + 4) v"
definition set_free :: "u32 \<Rightarrow> bool \<Rightarrow> mem \<Rightarrow> mem" where "set_free b v m = m(b + 8 := of_bool v)"

subsection \<open>Operations\<close>

definition memory_init :: "'a heap_scheme \<Rightarrow> 'a heap_scheme" where
  "memory_init s =
     s\<lparr>heap_start := HEAP_START,
       ram := set_free HEAP_START True (set_next HEAP_START 0
         (set_size HEAP_START (HEAP_SIZE - sizeof_block_meta) (ram s)))\<rparr>"

text \<open>The result is the block found (or 0) and the final value of \<^verbatim>\<open>*last\<close>.\<close>

partial_function (option) find_free_loop ::
  "mem \<Rightarrow> u32 \<Rightarrow> u32 \<Rightarrow> u32 \<Rightarrow> (u32 \<times> u32) option" where
  "find_free_loop m current lst sz =
     (if current \<noteq> 0 \<and> \<not> (blk_free m current \<and> sz \<le> blk_size m current)
      then find_free_loop m (blk_next m current) current sz
      else Some (current, lst))"

definition find_free_block :: "u32 \<Rightarrow> u32 \<Rightarrow> 'a heap_scheme \<Rightarrow> (u32 \<times> u32) option" where
  "find_free_block lst sz s = find_free_loop (ram s) (heap_start s) lst sz"

definition request_space :: "u32 \<Rightarrow> u32 \<Rightarrow> 'a heap_scheme \<Rightarrow> u32 \<times> 'a heap_scheme" where
  "request_space lst sz s =
     (let block = lst + sizeof_block_meta + blk_size (ram s) lst;
          m = set_free block False (set_next block 0 (set_size block sz
                (set_next lst block (ram s))))
      in (block, s\<lparr>ram := m\<rparr>))"

definition malloc :: "u32 \<Rightarrow> 'a heap_scheme \<Rightarrow> (u32 \<times> 'a heap_scheme) option" where
  "malloc sz s =
     (if sz = 0 then Some (0, s)
      else
        let s = (if heap_start s = 0 then memory_init s else s) in
        do {
          (block, lst) \<leftarrow> find_free_block (heap_start s) sz s;
          if block = 0 then
            (case request_space lst sz s of (block, s) \<Rightarrow>
               if block = 0 then Some (0, s) else Some (block + sizeof_block_meta, s))
          else Some (block + sizeof_block_meta, s\<lparr>ram := set_free block False (ram s)\<rparr>)
        })"

partial_function (option) coalesce_loop :: "mem \<Rightarrow> u32 \<Rightarrow> mem option" where
  "coalesce_loop m current =
     (if current \<noteq> 0 \<and> blk_next m current \<noteq> 0 then
        (if blk_free m current \<and> blk_free m (blk_next m current) then
           let m1 = set_size current
                 (blk_size m current + (sizeof_block_meta + blk_size m (blk_next m current))) m;
               m2 = set_next current (blk_next m1 (blk_next m1 current)) m1
           in coalesce_loop m2 current
         else coalesce_loop m (blk_next m current))
      else Some m)"

definition free :: "u32 \<Rightarrow> 'a heap_scheme \<Rightarrow> 'a heap_scheme option" where
  "free ptr s =
     (if ptr = 0 then Some s
      else
        let block_ptr = ptr - sizeof_block_meta; m = set_free block_ptr True (ram s) in
        map_option (\<lambda>m'. s\<lparr>ram := m'\<rparr>) (coalesce_loop m (heap_start s)))"

definition realloc :: "u32 \<Rightarrow> u32 \<Rightarrow> 'a heap_scheme \<Rightarrow> (u32 \<times> 'a heap_scheme) option" where
  "realloc ptr sz s =
     (if ptr = 0 then malloc sz s
      else if sz = 0 then do { s \<leftarrow> free ptr s; Some (0, s) }
      else do {
        (new_ptr, s) \<leftarrow> malloc sz s;
        if new_ptr = 0 then Some (0, s)
        else do {
          let block_ptr = ptr - sizeof_block_meta;
          let copy_size = (if blk_size (ram s) block_ptr < sz
                           then blk_size (ram s) block_ptr else sz);
          let s = s\<lparr>ram := fst (memcpy new_ptr ptr copy_size (ram s))\<rparr>;
          s \<leftarrow> free ptr s;
          Some (new_ptr, s)
        }
      })"

definition memory_get_total :: u32 where "memory_get_total = 64 * 1024 * 1024"
definition memory_get_free :: u32 where "memory_get_free = HEAP_SIZE - sizeof_block_meta"

definition memory_allocate :: "u32 \<Rightarrow> 'a heap_scheme \<Rightarrow> (u32 \<times> 'a heap_scheme) option" where
  "memory_allocate sz s = malloc sz s"

definition memory_free :: "u32 \<Rightarrow> 'a heap_scheme \<Rightarrow> 'a heap_scheme option" where
  "memory_free ptr s = free ptr s"

text \<open>\<^verbatim>\<open>strdup\<close> of \<^verbatim>\<open>kernel/string.cpp\<close>, the one string routine that allocates.\<close>

definition strdup :: "u32 \<Rightarrow> 'a heap_scheme \<Rightarrow> (u32 \<times> 'a heap_scheme) option" where
  "strdup str s =
     do {
       n \<leftarrow> strlen (ram s) str;
       let len = n + 1;
       (new_str, s) \<leftarrow> malloc len s;
       if new_str \<noteq> 0
       then Some (new_str, s\<lparr>ram := fst (memcpy new_str str len (ram s))\<rparr>)
       else Some (new_str, s)
     }"

subsection \<open>The block list in memory\<close>

text \<open>
  A block of the abstraction is its payload size and its free flag. Blocks lie one behind
  the other: \<^verbatim>\<open>span\<close> is the number of bytes of a run of blocks, headers included, and
  \<^verbatim>\<open>seg\<close> says that the headers in memory from an address describe the run, the last
  one pointing to \<^term>\<open>e\<close>.
\<close>

type_synonym block = "u32 \<times> bool"

fun span :: "block list \<Rightarrow> nat" where
  "span [] = 0"
| "span ((sz, f) # bs) = 12 + unat sz + span bs"

definition header :: "mem \<Rightarrow> u32 \<Rightarrow> u32 \<Rightarrow> bool \<Rightarrow> u32 \<Rightarrow> bool" where
  "header m a sz f e \<longleftrightarrow> blk_size m a = sz \<and> blk_free m a = f \<and> blk_next m a = e"

fun seg :: "mem \<Rightarrow> u32 \<Rightarrow> block list \<Rightarrow> u32 \<Rightarrow> bool" where
  "seg m a [] e \<longleftrightarrow> True"
| "seg m a ((sz, f) # bs) e \<longleftrightarrow>
     header m a sz f (if bs = [] then e else a + 12 + sz) \<and> seg m (a + 12 + sz) bs e"

definition heap_ok :: "'a heap_scheme \<Rightarrow> block list \<Rightarrow> bool" where
  "heap_ok s bs \<longleftrightarrow> heap_start s = HEAP_START \<and> bs \<noteq> [] \<and> seg (ram s) HEAP_START bs 0
     \<and> unat HEAP_START + span bs < 2 ^ 32"

lemma span_append [simp]: "span (xs @ ys) = span xs + span ys"
  by (induction xs) auto

lemma seg_append:
  "seg m a (xs @ ys) e \<longleftrightarrow>
   seg m a xs (if ys = [] then e else a + of_nat (span xs)) \<and> seg m (a + of_nat (span xs)) ys e"
proof (induction xs arbitrary: a)
  case (Cons b xs)
  then show ?case by (cases b; cases "xs = []") (auto simp: algebra_simps)
qed simp

text \<open>The address of the block after a run of blocks.\<close>

definition at :: "u32 \<Rightarrow> block list \<Rightarrow> u32" where
  "at a bs = a + of_nat (span bs)"

lemma unat_at:
  "unat a + span bs < 2 ^ 32 \<Longrightarrow> unat (at a bs) = unat a + span bs"
  unfolding at_def by (subst unat_plus_nowrap) (simp_all add: unat_of_nat32)

lemma header_agree:
  assumes "\<And>x. in_run x a 12 \<Longrightarrow> m x = m' x"
  shows "header m a sz f e = header m' a sz f e"
proof -
  have eq: "m (a + of_nat i) = m' (a + of_nat i)" if "i < 12" for i
    by (rule assms) (use that in \<open>simp add: in_run_def unat_of_nat\<close>)
  have "load32 m a = load32 m' a" and "load32 m (a + 4) = load32 m' (a + 4)"
    using eq [of 0] eq [of 1] eq [of 2] eq [of 3] eq [of 4] eq [of 5] eq [of 6] eq [of 7]
    by (simp_all add: load32_def add.assoc)
  with eq [of 8] show ?thesis by (simp add: header_def blk_size_def blk_next_def blk_free_def)
qed

text \<open>Memory that agrees on the bytes of a run of blocks describes the same run.\<close>

lemma seg_agree:
  assumes "\<And>x. unat a \<le> unat x \<Longrightarrow> unat x < unat a + span bs \<Longrightarrow> m x = m' x"
    and "unat a + span bs \<le> 2 ^ 32"
  shows "seg m a bs e = seg m' a bs e"
  using assms
proof (induction bs arbitrary: a)
  case Nil
  show ?case by simp
next
  case (Cons b bs)
  obtain sz f where b: "b = (sz, f)" by (cases b)
  have hdr: "header m a sz f k = header m' a sz f k" for k
  proof (rule header_agree)
    fix x assume "in_run x a 12"
    then have "unat (x - a) < 12" by (simp add: in_run_def)
    moreover have "unat x = unat a + unat (x - a)"
      using unat_plus_nowrap [of a "x - a"] calculation Cons.prems(2) b by simp
    ultimately show "m x = m' x" using b by (intro Cons.prems(1)) auto
  qed
  show ?case
  proof (cases "bs = []")
    case True
    with hdr b show ?thesis by simp
  next
    case False
    then have "0 < span bs" by (cases bs) auto
    then have a: "unat (a + 12 + sz) = unat a + 12 + unat sz"
      using Cons.prems(2) b unat_plus_nowrap [of a 12] unat_plus_nowrap [of "a + 12" sz] by simp
    have "seg m (a + 12 + sz) bs e = seg m' (a + 12 + sz) bs e"
      using Cons.prems b a by (intro Cons.IH) auto
    with hdr b show ?thesis by simp
  qed
qed

text \<open>
  What the three header stores do to a header, and that they stay inside it: the bytes of
  \<^verbatim>\<open>is_free\<close> and of the two words do not overlap.
\<close>

lemma header_stores [simp]:
  "blk_size (set_size a v m) a = v"
  "blk_size (set_next a v m) a = blk_size m a"
  "blk_size (set_free a f m) a = blk_size m a"
  "blk_next (set_size a v m) a = blk_next m a"
  "blk_next (set_next a v m) a = v"
  "blk_next (set_free a f m) a = blk_next m a"
  "blk_free (set_size a v m) a = blk_free m a"
  "blk_free (set_next a v m) a = blk_free m a"
  "blk_free (set_free a f m) a = f"
proof -
  have d: "a \<noteq> a + k \<and> a + k \<noteq> a" if "k \<noteq> 0" for k :: u32 using that by simp
  show "blk_size (set_size a v m) a = v" by (simp add: blk_size_def set_size_def)
  show "blk_next (set_next a v m) a = v" by (simp add: blk_next_def set_next_def)
  show "blk_free (set_free a f m) a = f" by (simp add: blk_free_def set_free_def)
  show "blk_size (set_next a v m) a = blk_size m a"
    by (simp add: blk_size_def set_next_def load32_def store32_def add.assoc)
  show "blk_size (set_free a f m) a = blk_size m a"
    by (simp add: blk_size_def set_free_def load32_def)
  show "blk_next (set_size a v m) a = blk_next m a"
    by (simp add: blk_next_def set_size_def load32_def store32_def add.assoc)
  show "blk_next (set_free a f m) a = blk_next m a"
    by (simp add: blk_next_def set_free_def load32_def add.assoc)
  show "blk_free (set_size a v m) a = blk_free m a"
    by (simp add: blk_free_def set_size_def store32_def)
  show "blk_free (set_next a v m) a = blk_free m a"
    by (simp add: blk_free_def set_next_def store32_def add.assoc)
qed

lemma header_stores_outside:
  assumes "\<not> in_run x a 12"
  shows "set_size a v m x = m x" and "set_next a v m x = m x" and "set_free a f m x = m x"
proof -
  have sub: "in_run x (a + of_nat i) n \<Longrightarrow> in_run x a 12" if "i + n \<le> 12" for i n
  proof -
    assume x: "in_run x (a + of_nat i) n"
    have "unat (x - a) = (unat (x - (a + of_nat i)) + unat (of_nat i :: u32)) mod 2 ^ 32"
      using unat_add32 [of "x - (a + of_nat i)" "of_nat i"] by simp
    with x that show ?thesis by (simp add: in_run_def unat_of_nat32)
  qed
  from assms sub [of 0 4] show "set_size a v m x = m x"
    unfolding set_size_def by (intro store32_outside) auto
  from assms sub [of 4 4] show "set_next a v m x = m x"
    unfolding set_next_def by (intro store32_outside) auto
  from assms sub [of 8 1] have "x \<noteq> a + 8" by (auto simp: in_run_def)
  then show "set_free a f m x = m x" by (simp add: set_free_def)
qed

lemma run_bounds:
  assumes "in_run x a n" and "unat a + n \<le> 2 ^ 32"
  shows "unat a \<le> unat x" and "unat x < unat a + n"
proof -
  have "unat (x - a) < n" using assms(1) by (simp add: in_run_def)
  moreover have "unat x = unat a + unat (x - a)"
    using unat_plus_nowrap [of a "x - a"] calculation assms(2) by simp
  ultimately show "unat a \<le> unat x" and "unat x < unat a + n" by simp_all
qed

lemma span_pos: "bs \<noteq> [] \<Longrightarrow> 12 \<le> span bs"
  by (cases bs) auto

lemma unat_next:
  assumes "unat a + span ((z, f) # bs) \<le> 2 ^ 32" and "bs \<noteq> []"
  shows "unat (a + 12 + z) = unat a + 12 + unat z"
  using assms span_pos [of bs] unat_plus_nowrap [of a 12] unat_plus_nowrap [of "a + 12" z] by simp

lemma at_simps [simp]:
  "at a [] = a"
  "at a ((z, f) # bs) = at (a + 12 + z) bs"
  by (simp_all add: at_def add.assoc)

lemma at_append: "at a (xs @ ys) = at (at a xs) ys"
  by (simp add: at_def add.assoc)

text \<open>
  Changing one header of a run, and nothing else, changes that block only. For the last
  block the link out of the run may change as well.
\<close>

lemma seg_change:
  assumes seg: "seg m a (pre @ (z, f) # post) e"
    and bound: "unat a + span (pre @ (z, f) # post) \<le> 2 ^ 32"
    and same: "\<And>x. \<not> in_run x (at a pre) 12 \<Longrightarrow> m' x = m x"
    and hdr: "header m' (at a pre) z f' (if post = [] then e' else at a pre + 12 + z)"
    and out: "post \<noteq> [] \<longrightarrow> e' = e"
  shows "seg m' a (pre @ (z, f') # post) e'"
proof -
  have at: "unat (at a pre) = unat a + span pre"
    using bound by (intro unat_at) simp
  have "seg m a pre (at a pre) = seg m' a pre (at a pre)"
  proof (rule seg_agree)
    fix x :: u32 assume x: "unat a \<le> unat x" "unat x < unat a + span pre"
    have "\<not> in_run x (at a pre) 12"
      using run_bounds(1) [of x "at a pre" 12] at bound x(2) by auto
    then show "m x = m' x" by (simp add: same)
  qed (use bound in simp)
  moreover have "seg m (at a pre + 12 + z) post e = seg m' (at a pre + 12 + z) post e'"
  proof (cases "post = []")
    case False
    have nxt: "unat (at a pre + 12 + z) = unat (at a pre) + 12 + unat z"
      using bound at by (intro unat_next [OF _ False]) simp
    have "seg m (at a pre + 12 + z) post e = seg m' (at a pre + 12 + z) post e"
    proof (rule seg_agree)
      fix x :: u32 assume x: "unat (at a pre + 12 + z) \<le> unat x"
      have "\<not> in_run x (at a pre) 12"
        using run_bounds(2) [of x "at a pre" 12] at bound nxt x by auto
      then show "m x = m' x" by (simp add: same)
    qed (use nxt at bound in simp)
    with False out show ?thesis by simp
  qed simp
  ultimately show ?thesis
    using seg hdr out by (auto simp: seg_append at_def [symmetric])
qed

subsection \<open>First fit\<close>

definition fits :: "u32 \<Rightarrow> block \<Rightarrow> bool" where
  "fits n b \<longleftrightarrow> snd b \<and> n \<le> fst b"

lemma find_free_loop_first_fit:
  assumes "seg m a bs 0" and "unat a + span bs \<le> 2 ^ 32" and "a \<noteq> 0"
    and "pre = takeWhile (\<lambda>b. \<not> fits n b) bs"
  shows "find_free_loop m (if bs = [] then 0 else a) lst n =
    Some (if pre = bs then 0 else at a pre, if pre = [] then lst else at a (butlast pre))"
  using assms
proof (induction bs arbitrary: a lst pre)
  case Nil
  then show ?case by (simp add: find_free_loop.simps)
next
  case (Cons b bs)
  obtain z f where b: "b = (z, f)" by (cases b)
  show ?case
  proof (cases "fits n b")
    case True
    with Cons.prems b show ?thesis
      by (subst find_free_loop.simps) (auto simp: fits_def header_def)
  next
    case False
    let ?a = "a + 12 + z" and ?pre = "takeWhile (\<lambda>b. \<not> fits n b) bs"
    have "?a \<noteq> 0" if "bs \<noteq> []"
      using unat_next [of a z f bs] that Cons.prems(2) b by auto
    moreover have "unat ?a + span bs \<le> 2 ^ 32" if "bs \<noteq> []"
      using unat_next [of a z f bs] that Cons.prems(2) b by auto
    ultimately have "find_free_loop m (if bs = [] then 0 else ?a) a n =
      Some (if ?pre = bs then 0 else at ?a ?pre, if ?pre = [] then a else at ?a (butlast ?pre))"
      using Cons.IH [of ?a ?pre a] Cons.prems(1) b
      by (cases "bs = []") (auto simp: find_free_loop.simps)
    with Cons.prems b False show ?thesis
      by (subst find_free_loop.simps) (auto simp: fits_def header_def)
  qed
qed

subsection \<open>Header bytes and payloads\<close>

fun header_bytes :: "u32 \<Rightarrow> block list \<Rightarrow> u32 set" where
  "header_bytes a [] = {}"
| "header_bytes a ((z, f) # bs) = {x. in_run x a 12} \<union> header_bytes (a + 12 + z) bs"

text \<open>The blocks in use, as pairs of the payload address and the payload size.\<close>

fun used :: "u32 \<Rightarrow> block list \<Rightarrow> (u32 \<times> u32) set" where
  "used a [] = {}"
| "used a ((z, f) # bs) = (if f then {} else {(a + 12, z)}) \<union> used (a + 12 + z) bs"

lemma header_bytes_append:
  "header_bytes a (xs @ ys) = header_bytes a xs \<union> header_bytes (at a xs) ys"
  by (induction a xs rule: header_bytes.induct) auto

lemma used_append: "used a (xs @ ys) = used a xs \<union> used (at a xs) ys"
  by (induction a xs rule: used.induct) auto

lemma header_bytes_bounds:
  assumes "x \<in> header_bytes a bs" and "unat a + span bs \<le> 2 ^ 32"
  shows "unat a \<le> unat x \<and> unat x < unat a + span bs"
  using assms
proof (induction a bs rule: header_bytes.induct)
  case (2 a z f bs)
  then show ?case
    using run_bounds [of x a 12] unat_next [of a z f bs] by (cases "bs = []") auto
qed simp

lemma used_bounds:
  assumes "(p, k) \<in> used a bs" and "unat a + span bs \<le> 2 ^ 32" and "in_run x p (unat k)"
  shows "unat a + 12 \<le> unat x \<and> unat x < unat a + span bs"
  using assms
proof (induction a bs rule: used.induct)
  case (2 a z f bs)
  consider "p = a + 12" "k = z" | "(p, k) \<in> used (a + 12 + z) bs" "bs \<noteq> []"
    using 2 by (cases "bs = []") (auto split: if_splits)
  then show ?case
  proof cases
    case 1
    have "0 < unat k" using 2 by (simp add: in_run_def)
    then have "unat p = unat a + 12"
      using 1 2 unat_plus_nowrap [of a 12] by simp
    with 1 2 run_bounds [of x p "unat k"] show ?thesis by auto
  next
    case other: 2
    with 2 unat_next [of a z f bs] show ?thesis by auto
  qed
qed simp

text \<open>No header lies in the payload of a block in use, and two such payloads are disjoint.\<close>

lemma used_not_header:
  assumes "(p, k) \<in> used a bs" and "unat a + span bs \<le> 2 ^ 32" and "in_run x p (unat k)"
  shows "x \<notin> header_bytes a bs"
  using assms
proof (induction a bs rule: used.induct)
  case (2 a z f bs)
  have x: "unat a + 12 \<le> unat x" using used_bounds [OF 2(2,3,4)] by simp
  then have hd: "\<not> in_run x a 12" using run_bounds(2) [of x a 12] 2(3) by auto
  consider "p = a + 12" "k = z" | "(p, k) \<in> used (a + 12 + z) bs" "bs \<noteq> []"
    using 2 by (cases "bs = []") (auto split: if_splits)
  then show ?case
  proof cases
    case 1
    have "0 < unat k" using 2 by (simp add: in_run_def)
    then have "unat p = unat a + 12" using 1 2 unat_plus_nowrap [of a 12] by simp
    then have "unat x < unat a + 12 + unat z"
      using 1 2 run_bounds [of x p "unat k"] by auto
    with hd show ?thesis
      using header_bytes_bounds [of x "a + 12 + z" bs] unat_next [of a z f bs] 2(3)
      by (cases "bs = []") auto
  next
    case other: 2
    then show ?thesis using 2 hd unat_next [of a z f bs] by auto
  qed
qed simp

lemma used_disjoint:
  assumes "(p, k) \<in> used a bs" and "(q, j) \<in> used a bs" and "(p, k) \<noteq> (q, j)"
    and "unat a + span bs \<le> 2 ^ 32" and "in_run x p (unat k)"
  shows "\<not> in_run x q (unat j)"
  using assms
proof (induction a bs rule: used.induct)
  case (2 a z f bs)
  show ?case
  proof (cases "bs = []")
    case True
    with 2 show ?thesis by (auto split: if_splits)
  next
    case False
    then have nxt: "unat (a + 12 + z) = unat a + 12 + unat z"
      and bound: "unat (a + 12 + z) + span bs \<le> 2 ^ 32"
      using 2(5) unat_next [of a z f bs] by auto
    have tail: "unat a + 12 + unat z \<le> unat x" if "(r, i) \<in> used (a + 12 + z) bs" "in_run x r (unat i)" for r i
      using used_bounds [OF that(1) bound that(2)] nxt by simp
    have first: "unat x < unat a + 12 + unat z" if "in_run x (a + 12) (unat z)"
    proof -
      have "unat (a + 12) = unat a + 12" using 2(5) False span_pos [of bs] unat_plus_nowrap [of a 12] by simp
      with that 2(5) show ?thesis using run_bounds(2) [of x "a + 12" "unat z"] by auto
    qed
    show ?thesis
      using 2 tail first bound by (fastforce split: if_splits)
  qed
qed simp

lemma seg_header_agree:
  "(\<And>x. x \<in> header_bytes a bs \<Longrightarrow> m' x = m x) \<Longrightarrow> seg m a bs e \<Longrightarrow> seg m' a bs e"
proof (induction a bs rule: header_bytes.induct)
  case (2 a z f bs)
  have "header m' a z f k = header m a z f k" for k
    using 2(2) by (intro header_agree) auto
  with 2 show ?case by simp
qed simp

subsection \<open>What malloc does to the block list\<close>

text \<open>
  The abstract effect: the blocks before the chosen one, and the new list. First fit
  without splitting; when nothing fits a block of exactly the requested size is added at
  the end.
\<close>

definition alloc_blocks :: "u32 \<Rightarrow> block list \<Rightarrow> block list \<times> block list" where
  "alloc_blocks n bs =
     (let pre = takeWhile (\<lambda>b. \<not> fits n b) bs in
      case dropWhile (\<lambda>b. \<not> fits n b) bs of
        [] \<Rightarrow> (bs, bs @ [(n, False)])
      | (z, f) # post \<Rightarrow> (pre, pre @ (z, False) # post))"

lemma alloc_blocks_cases:
  obtains (fit) pre z post where "bs = pre @ (z, True) # post" "n \<le> z"
      "pre = takeWhile (\<lambda>b. \<not> fits n b) bs" "alloc_blocks n bs = (pre, pre @ (z, False) # post)"
    | (grow) "takeWhile (\<lambda>b. \<not> fits n b) bs = bs" "alloc_blocks n bs = (bs, bs @ [(n, False)])"
proof (cases "dropWhile (\<lambda>b. \<not> fits n b) bs")
  case Nil
  then have "takeWhile (\<lambda>b. \<not> fits n b) bs = bs" by (auto simp: takeWhile_eq_all_conv)
  then show ?thesis by (rule grow) (simp only: alloc_blocks_def Nil Let_def list.case)
next
  case (Cons b post)
  obtain z f where b: "b = (z, f)" by (cases b)
  have "fits n b" using Cons by (metis (mono_tags) dropWhile_eq_Cons_conv)
  moreover have "bs = takeWhile (\<lambda>b. \<not> fits n b) bs @ b # post"
    using Cons by (metis takeWhile_dropWhile_id)
  ultimately show ?thesis
    using Cons b fit by (auto simp: alloc_blocks_def fits_def Let_def)
qed

lemma HEAP_START_nonzero: "HEAP_START \<noteq> 0"
  by (simp add: HEAP_START_def)

lemma memory_init_ok: "heap_ok (memory_init s) [(HEAP_SIZE - sizeof_block_meta, True)]"
  by (simp add: heap_ok_def memory_init_def header_def HEAP_SIZE_def HEAP_START_def
      sizeof_block_meta_def)

lemma malloc_blocks:
  assumes ok: "heap_ok s bs" and n: "n \<noteq> 0" and alloc: "alloc_blocks n bs = (pre, bs')"
    and bound: "unat HEAP_START + span bs' < 2 ^ 32"
  shows "\<exists>m. malloc n s = Some (at HEAP_START pre + 12, s\<lparr>ram := m\<rparr>) \<and>
    heap_ok (s\<lparr>ram := m\<rparr>) bs' \<and> (\<forall>x. x \<notin> header_bytes HEAP_START bs' \<longrightarrow> m x = ram s x)"
proof -
  have hs: "heap_start s = HEAP_START" "HEAP_START \<noteq> 0" and bs: "bs \<noteq> []"
    and seg: "seg (ram s) HEAP_START bs 0" and bnd: "unat HEAP_START + span bs \<le> 2 ^ 32"
    using ok HEAP_START_nonzero less_imp_le unfolding heap_ok_def by blast+
  note find = find_free_loop_first_fit [OF seg bnd hs(2), of _ n HEAP_START]
  show ?thesis
  proof (cases rule: alloc_blocks_cases [of bs n])
    case (fit pre' z post)
    have bs': "pre' = pre" "bs' = pre @ (z, False) # post" using alloc fit(4) by auto
    let ?b = "at HEAP_START pre" and ?m = "set_free (at HEAP_START pre) False (ram s)"
    have "unat ?b = unat HEAP_START + span pre"
      using bnd fit(1) bs' by (intro unat_at) simp
    then have nz: "?b \<noteq> 0" using hs(2) unat_gt_0 [of HEAP_START] by auto
    have "malloc n s = Some (?b + 12, s\<lparr>ram := ?m\<rparr>)"
      using find [OF fit(3)] fit(1) n hs bs bs'(1) nz
      by (simp add: malloc_def find_free_block_def sizeof_block_meta_def)
    moreover have "header (ram s) ?b z True (if post = [] then 0 else ?b + 12 + z)"
      using seg fit(1) bs'(1) by (auto simp: seg_append at_def)
    then have "seg ?m HEAP_START bs' 0"
      using seg_change [of "ram s" HEAP_START pre z True post 0 ?m False 0] seg bnd fit(1) bs'
      by (auto simp: header_stores_outside header_def)
    moreover have "?m x = ram s x" if "x \<notin> header_bytes HEAP_START bs'" for x
      using that bs'(2) by (intro header_stores_outside) (auto simp: header_bytes_append)
    ultimately show ?thesis using bs'(2) hs bound by (auto simp: heap_ok_def)
  next
    case grow
    have bs': "pre = bs" "bs' = bs @ [(n, False)]" using alloc grow(2) by auto
    obtain front z f where front: "bs = front @ [(z, f)]" using bs by (metis rev_exhaust surj_pair)
    let ?l = "at HEAP_START front" and ?b = "at HEAP_START bs"
    let ?m1 = "set_next ?l ?b (ram s)"
    let ?m = "set_free ?b False (set_next ?b 0 (set_size ?b n ?m1))"
    have l: "unat ?l = unat HEAP_START + span front" using bnd front by (intro unat_at) simp
    have b: "unat ?b = unat HEAP_START + span bs" using bound bs'(2) by (intro unat_at) simp
    have blk: "?b = ?l + 12 + z" using front by (simp add: at_append)
    have hdr: "header (ram s) ?l z f 0" using seg front by (simp add: seg_append at_def)
    have nz: "?b \<noteq> 0" using b hs(2) unat_gt_0 [of HEAP_START] by auto
    have "malloc n s = Some (?b + 12, s\<lparr>ram := ?m\<rparr>)"
      using find [OF grow(1) [symmetric]] grow(1) n hs bs nz hdr front blk
      by (simp add: malloc_def find_free_block_def request_space_def sizeof_block_meta_def
          header_def Let_def add.assoc)
    moreover have "seg ?m1 HEAP_START bs ?b"
      using seg_change [of "ram s" HEAP_START front z f "[]" 0 ?m1 f ?b] seg bnd front hdr
      by (simp add: header_stores_outside header_def)
    then have "seg ?m HEAP_START bs ?b"
    proof (subst (asm) seg_agree)
      fix x :: u32 assume "unat x < unat HEAP_START + span bs"
      then have "\<not> in_run x ?b 12" using run_bounds(1) [of x ?b 12] b bound bs'(2) by auto
      then show "?m1 x = ?m x" by (simp add: header_stores_outside)
    qed (use bnd in simp_all)
    then have "seg ?m HEAP_START bs' 0"
      unfolding bs'(2) seg_append by (simp add: at_def [symmetric] header_def)
    moreover have "?m x = ram s x" if "x \<notin> header_bytes HEAP_START bs'" for x
      using that bs'(2) front by (auto simp: header_bytes_append header_stores_outside at_append)
    ultimately show ?thesis using bs' hs bound by (auto simp: heap_ok_def)
  qed
qed

subsection \<open>What free does to the block list\<close>

fun coalesce :: "block list \<Rightarrow> block list" where
  "coalesce [] = []"
| "coalesce [b] = [b]"
| "coalesce ((z1, f1) # (z2, f2) # bs) =
     (if f1 \<and> f2 then coalesce ((z1 + (12 + z2), True) # bs)
      else (z1, f1) # coalesce ((z2, f2) # bs))"

fun no_free_neighbours :: "block list \<Rightarrow> bool" where
  "no_free_neighbours (b1 # b2 # bs) \<longleftrightarrow>
     \<not> (snd b1 \<and> snd b2) \<and> no_free_neighbours (b2 # bs)"
| "no_free_neighbours _ \<longleftrightarrow> True"

lemma coalesce_Nil_iff [simp]: "coalesce bs = [] \<longleftrightarrow> bs = []"
  by (induction bs rule: coalesce.induct) auto

lemma merged_size:
  assumes "span ((z1, f1) # (z2, f2) # bs) \<le> 2 ^ 32"
  shows "unat (z1 + (12 + z2)) = unat z1 + 12 + unat z2"
  using assms unat_plus_nowrap [of 12 z2] unat_plus_nowrap [of z1 "12 + z2"] by simp

lemma span_coalesce: "span bs \<le> 2 ^ 32 \<Longrightarrow> span (coalesce bs) = span bs"
proof (induction bs rule: coalesce.induct)
  case (3 z1 f1 z2 f2 bs)
  then show ?case using merged_size [OF 3(3)] by auto
qed auto

lemma used_coalesce: "used a (coalesce bs) = used a bs"
  by (induction bs arbitrary: a rule: coalesce.induct) (auto simp: add.assoc)

lemma coalesce_hd_used: "bs \<noteq> [] \<Longrightarrow> \<not> snd (hd bs) \<Longrightarrow> \<not> snd (hd (coalesce bs))"
  by (induction bs rule: coalesce.induct) auto

lemma no_free_neighbours_Cons:
  "no_free_neighbours (b # bs) \<longleftrightarrow> bs = [] \<or> \<not> (snd b \<and> snd (hd bs)) \<and> no_free_neighbours bs"
  by (cases bs) auto

lemma coalesce_no_free_neighbours: "no_free_neighbours (coalesce bs)"
proof (induction bs rule: coalesce.induct)
  case (3 z1 f1 z2 f2 bs)
  then show ?case
    using coalesce_hd_used [of "(z2, f2) # bs"] by (auto simp: no_free_neighbours_Cons)
qed auto

lemma coalesce_loop_blocks:
  assumes "seg m a bs 0" and "unat a + span bs \<le> 2 ^ 32" and "a \<noteq> 0" and "bs \<noteq> []"
  shows "\<exists>m'. coalesce_loop m a = Some m' \<and> seg m' a (coalesce bs) 0 \<and>
    (\<forall>x. x \<notin> header_bytes a bs \<longrightarrow> m' x = m x)"
  using assms
proof (induction bs arbitrary: m a rule: coalesce.induct)
  case (2 b)
  then show ?case by (cases b) (simp add: coalesce_loop.simps header_def)
next
  case (3 z1 f1 z2 f2 bs)
  let ?b = "a + 12 + z1"
  have b: "unat ?b = unat a + 12 + unat z1" using 3(4) by (intro unat_next [of a z1 f1 "(z2, f2) # bs"]) auto
  have nz: "?b \<noteq> 0" using b by auto
  have h1: "header m a z1 f1 ?b" and h2: "header m ?b z2 f2 (if bs = [] then 0 else ?b + 12 + z2)"
    and tail: "seg m (?b + 12 + z2) bs 0" and seg2: "seg m ?b ((z2, f2) # bs) 0"
    using 3(3) by auto
  have apart: "\<not> in_run x a 12" if "unat ?b \<le> unat x" for x :: u32
    using run_bounds(2) [of x a 12] that b 3(4) by auto
  show ?case
  proof (cases "f1 \<and> f2")
    case True
    let ?z = "z1 + (12 + z2)"
    let ?m1 = "set_size a ?z m"
    let ?m2 = "set_next a (if bs = [] then 0 else ?b + 12 + z2) ?m1"
    have n1: "blk_next ?m1 ?b = blk_next m ?b"
      using header_agree [of ?b m ?m1 z2 f2 "blk_next m ?b"] h2 apart run_bounds(1) [of _ ?b 12] b 3(4)
      by (auto simp: header_stores_outside header_def)
    have step: "coalesce_loop m a = coalesce_loop ?m2 a"
      using True h1 h2 n1 nz 3(5)
      by (subst coalesce_loop.simps) (auto simp: header_def sizeof_block_meta_def Let_def)
    have "seg ?m2 (?b + 12 + z2) bs 0"
    proof (cases "bs = []")
      case False
      have b2: "unat (?b + 12 + z2) = unat ?b + 12 + unat z2"
        using 3(4) b by (intro unat_next [OF _ False]) auto
      from tail show ?thesis
      proof (subst (asm) seg_agree)
        fix x :: u32 assume "unat (?b + 12 + z2) \<le> unat x"
        then have "\<not> in_run x a 12" using b2 by (intro apart) simp
        then show "m x = ?m2 x" by (simp add: header_stores_outside)
      qed (use 3(4) b b2 in auto)
    qed simp
    then have "seg ?m2 a ((?z, True) # bs) 0"
      using h1 True by (simp add: header_def add.assoc)
    moreover have "unat a + span ((?z, True) # bs) \<le> 2 ^ 32"
      using 3(4) merged_size [of z1 f1 z2 f2 bs] by simp
    ultimately obtain m' where m': "coalesce_loop ?m2 a = Some m'"
        "seg m' a (coalesce ((?z, True) # bs)) 0"
        "\<forall>x. x \<notin> header_bytes a ((?z, True) # bs) \<longrightarrow> m' x = ?m2 x"
      using 3(1) [OF True, of ?m2 a] 3(5) by blast
    have "m' x = m x" if "x \<notin> header_bytes a ((z1, f1) # (z2, f2) # bs)" for x
      using m'(3) that by (simp add: header_stores_outside add.assoc)
    with step m' True show ?thesis by auto
  next
    case False
    have bnd: "unat ?b + span ((z2, f2) # bs) \<le> 2 ^ 32" using b 3(4) by simp
    have step: "coalesce_loop m a = coalesce_loop m ?b"
      using False h1 h2 nz 3(5) by (subst coalesce_loop.simps) (auto simp: header_def)
    obtain m' where m': "coalesce_loop m ?b = Some m'" "seg m' ?b (coalesce ((z2, f2) # bs)) 0"
        "\<forall>x. x \<notin> header_bytes ?b ((z2, f2) # bs) \<longrightarrow> m' x = m x"
      using 3(2) [OF False seg2 bnd nz] by blast
    have "header m' a z1 f1 ?b"
    proof (subst header_agree)
      fix x assume "in_run x a 12"
      then have "unat x < unat ?b" using run_bounds(2) [of x a 12] b 3(4) by auto
      then show "m' x = m x" using m'(3) header_bytes_bounds [OF _ bnd] by fastforce
    qed (rule h1)
    with step m' False show ?thesis by auto
  qed
qed simp

lemma free_blocks:
  assumes ok: "heap_ok s (pre @ (z, f) # post)"
  shows "\<exists>m. free (at HEAP_START pre + 12) s = Some (s\<lparr>ram := m\<rparr>) \<and>
    heap_ok (s\<lparr>ram := m\<rparr>) (coalesce (pre @ (z, True) # post)) \<and>
    (\<forall>x. x \<notin> header_bytes HEAP_START (pre @ (z, f) # post) \<longrightarrow> m x = ram s x)"
proof -
  let ?b = "at HEAP_START pre" and ?bs = "pre @ (z, True) # post"
  let ?m = "set_free ?b True (ram s)"
  have hs: "heap_start s = HEAP_START" and seg: "seg (ram s) HEAP_START (pre @ (z, f) # post) 0"
    and bnd': "unat HEAP_START + span (pre @ (z, f) # post) < 2 ^ 32"
    using ok unfolding heap_ok_def by blast+
  note bnd = less_imp_le [OF bnd']
  have b: "unat ?b = unat HEAP_START + span pre" using bnd by (intro unat_at) simp
  have "unat (?b + 12) = unat ?b + 12" using b bnd' unat_plus_nowrap [of ?b 12] by simp
  then have nz: "?b + 12 \<noteq> 0" by auto
  have "header (ram s) ?b z f (if post = [] then 0 else ?b + 12 + z)"
    using seg by (auto simp: seg_append at_def)
  then have "seg ?m HEAP_START ?bs 0"
    using seg_change [OF seg bnd, of ?m True 0] by (auto simp: header_stores_outside header_def)
  then obtain m' where m': "coalesce_loop ?m HEAP_START = Some m'" "seg m' HEAP_START (coalesce ?bs) 0"
      "\<forall>x. x \<notin> header_bytes HEAP_START ?bs \<longrightarrow> m' x = ?m x"
    using coalesce_loop_blocks [of ?m HEAP_START ?bs] bnd HEAP_START_nonzero by auto
  have "free (?b + 12) s = Some (s\<lparr>ram := m'\<rparr>)"
    using m'(1) nz hs by (simp add: free_def sizeof_block_meta_def)
  moreover have "heap_ok (s\<lparr>ram := m'\<rparr>) (coalesce ?bs)"
    using m'(2) hs bnd' span_coalesce [of ?bs] by (simp add: heap_ok_def)
  moreover have "m' x = ram s x" if "x \<notin> header_bytes HEAP_START (pre @ (z, f) # post)" for x
    using m'(3) that by (simp add: header_bytes_append header_stores_outside)
  ultimately show ?thesis by blast
qed

subsection \<open>The allocator contract\<close>

text \<open>
  What a client of an allocator may rely on, in terms of the live allocations
  (pointer and size): a new one is disjoint from all others, no operation touches the
  contents of the others, and a client may write inside its own.
\<close>

locale allocator =
  fixes alloc :: "u32 \<Rightarrow> 's \<Rightarrow> (u32 \<times> 's) option"
    and release :: "u32 \<Rightarrow> 's \<Rightarrow> 's option"
    and memory :: "'s \<Rightarrow> mem"
    and put :: "mem \<Rightarrow> 's \<Rightarrow> 's"
    and live :: "'s \<Rightarrow> (u32 \<times> u32) set \<Rightarrow> bool"
    and room :: "u32 \<Rightarrow> 's \<Rightarrow> bool"
  assumes alloc_ok: "live s L \<Longrightarrow> n \<noteq> 0 \<Longrightarrow> room n s \<Longrightarrow>
      \<exists>p k s'. alloc n s = Some (p, s') \<and> n \<le> k \<and> (p, k) \<notin> L \<and> live s' (insert (p, k) L) \<and>
        (\<forall>q j x. (q, j) \<in> L \<longrightarrow> in_run x q (unat j) \<longrightarrow> memory s' x = memory s x)"
    and release_ok: "live s L \<Longrightarrow> (p, k) \<in> L \<Longrightarrow>
      \<exists>s'. release p s = Some s' \<and> live s' (L - {(p, k)}) \<and>
        (\<forall>q j x. (q, j) \<in> L \<longrightarrow> in_run x q (unat j) \<longrightarrow> memory s' x = memory s x)"
    and put_live: "live s L \<Longrightarrow> (p, k) \<in> L \<Longrightarrow>
      (\<And>x. \<not> in_run x p (unat k) \<Longrightarrow> m x = memory s x) \<Longrightarrow> live (put m s) L"
    and memory_put: "memory (put m s) = m"
    and live_disjoint: "live s L \<Longrightarrow> (p, k) \<in> L \<Longrightarrow> (q, j) \<in> L \<Longrightarrow> (p, k) \<noteq> (q, j) \<Longrightarrow>
      in_run x p (unat k) \<Longrightarrow> \<not> in_run x q (unat j)"
    and live_bounds: "live s L \<Longrightarrow> (p, k) \<in> L \<Longrightarrow> p \<noteq> 0 \<and> unat p + unat k < 2 ^ 32"
begin

lemma in_own_run:
  assumes "live s L" and "(p, k) \<in> L" and "i < unat k"
  shows "in_run (p + of_nat i) p (unat k)"
  using assms live_bounds [OF assms(1,2)] by (simp add: in_run_def unat_of_nat32)

text \<open>Contents of a live block, as a list, over an operation that respects live blocks.\<close>

lemma contents_kept:
  assumes "live s L" and "(q, j) \<in> L" and "n \<le> unat j"
    and "\<forall>q j x. (q, j) \<in> L \<longrightarrow> in_run x q (unat j) \<longrightarrow> memory s' x = memory s x"
  shows "bytes_at (memory s') q n = bytes_at (memory s) q n"
  using assms in_own_run [OF assms(1,2)] by (intro bytes_at_cong) auto

lemma write_keeps_others:
  assumes "live s L" and "(p, k) \<in> L" and "(q, j) \<in> L" and "(p, k) \<noteq> (q, j)"
    and "length bs \<le> unat k" and "n \<le> unat j"
  shows "bytes_at (write_bytes (memory s) p bs) q n = bytes_at (memory s) q n"
proof (rule bytes_at_write_other)
  fix i assume "i < n"
  then have "in_run (q + of_nat i) q (unat j)" using assms(6) by (intro in_own_run [OF assms(1,3)]) simp
  then have "\<not> in_run (q + of_nat i) p (unat k)"
    using live_disjoint [OF assms(1,3,2)] assms(4) by auto
  then show "\<not> in_run (q + of_nat i) p (length bs)" using assms(5) by (simp add: in_run_def)
qed

lemma write_live:
  assumes "live s L" and "(p, k) \<in> L" and "length bs \<le> unat k"
  shows "live (put (write_bytes (memory s) p bs) s) L"
  using assms(1,2)
proof (rule put_live)
  fix x assume "\<not> in_run x p (unat k)"
  then show "write_bytes (memory s) p bs x = memory s x"
    using assms(3) by (intro write_bytes_outside) (simp add: in_run_def)
qed

text \<open>
  The pattern of every client: allocate, fill the new block from data computed in the old
  memory, give the old block back. The new block holds the data.
\<close>

lemma move_to_new_block:
  assumes "live s L" and old: "(q, j) \<in> L" and "n \<noteq> 0" and "room n s" and "length bs \<le> unat n"
  shows "\<exists>p k s1 s2. alloc n s = Some (p, s1) \<and> p \<noteq> 0 \<and> n \<le> k \<and> (p, k) \<notin> L \<and>
    release q (put (write_bytes (memory s1) p bs) s1) = Some s2 \<and>
    live s1 (insert (p, k) L) \<and> live s2 (insert (p, k) (L - {(q, j)})) \<and>
    bytes_at (memory s1) q (unat j) = bytes_at (memory s) q (unat j) \<and>
    bytes_at (memory s2) p (length bs) = bs"
proof -
  from alloc_ok [OF assms(1,3,4)] obtain p k s1 where
    al: "alloc n s = Some (p, s1)" "n \<le> k" "(p, k) \<notin> L" "live s1 (insert (p, k) L)"
    and kept: "\<forall>q j x. (q, j) \<in> L \<longrightarrow> in_run x q (unat j) \<longrightarrow> memory s1 x = memory s x"
    by blast
  let ?s = "put (write_bytes (memory s1) p bs) s1"
  have len: "length bs \<le> unat k" using assms(5) al(2) by (simp add: word_le_nat_alt)
  have live: "live ?s (insert (p, k) L)" using al(4) len by (intro write_live) auto
  from release_ok [OF live, of q j] old obtain s2 where
    rel: "release q ?s = Some s2" "live s2 (insert (p, k) L - {(q, j)})"
    and kept2: "\<forall>q j x. (q, j) \<in> insert (p, k) L \<longrightarrow> in_run x q (unat j) \<longrightarrow> memory s2 x = memory ?s x"
    by blast
  have "bytes_at (memory s2) p (length bs) = bytes_at (memory ?s) p (length bs)"
    using kept2 len by (intro contents_kept [OF live]) auto
  also have "\<dots> = bs"
    using len unat_lt_32 [of k] by (simp add: memory_put bytes_at_write_same)
  moreover have "insert (p, k) L - {(q, j)} = insert (p, k) (L - {(q, j)})" using al(3) old by auto
  moreover have "bytes_at (memory s1) q (unat j) = bytes_at (memory s) q (unat j)"
    using kept by (intro contents_kept [OF assms(1) old]) auto
  ultimately show ?thesis using al rel live_bounds [OF al(4)] by auto
qed

end

subsection \<open>The heap satisfies the contract\<close>

definition heap_live :: "'a heap_scheme \<Rightarrow> (u32 \<times> u32) set \<Rightarrow> bool" where
  "heap_live s L \<longleftrightarrow> (\<exists>bs. heap_ok s bs \<and> L = used HEAP_START bs)"

text \<open>Room: a new block of \<^term>\<open>n\<close> bytes at the end of the list still ends in the address space.\<close>

definition heap_room :: "u32 \<Rightarrow> 'a heap_scheme \<Rightarrow> bool" where
  "heap_room n s \<longleftrightarrow>
     (\<forall>bs. heap_ok s bs \<longrightarrow> unat HEAP_START + span bs + 12 + unat n < 2 ^ 32)"

lemma used_split:
  "(p, k) \<in> used a bs \<Longrightarrow> \<exists>pre post. bs = pre @ (k, False) # post \<and> p = at a pre + 12"
proof (induction a bs rule: used.induct)
  case (2 a z f bs)
  consider "p = a + 12" "k = z" "\<not> f" | "(p, k) \<in> used (a + 12 + z) bs"
    using 2(2) by (auto split: if_splits)
  then show ?case
  proof cases
    case 1
    then have "(z, f) # bs = [] @ (k, False) # bs \<and> p = at a [] + 12" by simp
    then show ?thesis by blast
  next
    case other: 2
    from 2(1) [OF other] obtain pre post where
      "bs = pre @ (k, False) # post" "p = at (a + 12 + z) pre + 12" by blast
    then have "(z, f) # bs = ((z, f) # pre) @ (k, False) # post \<and> p = at a ((z, f) # pre) + 12"
      by simp
    then show ?thesis by blast
  qed
qed simp

lemma used_pointer_bounds:
  "(p, k) \<in> used a bs \<Longrightarrow> unat a + span bs < 2 ^ 32 \<Longrightarrow>
   unat a + 12 \<le> unat p \<and> unat p + unat k \<le> unat a + span bs"
proof (induction a bs rule: used.induct)
  case (2 a z f bs)
  have a12: "unat (a + 12) = unat a + 12" using 2(3) unat_plus_nowrap [of a 12] by simp
  consider "p = a + 12" "k = z" | "(p, k) \<in> used (a + 12 + z) bs" "bs \<noteq> []"
    using 2(2) by (cases "bs = []") (auto split: if_splits)
  then show ?case
  proof cases
    case other: 2
    then have "unat (a + 12 + z) = unat a + 12 + unat z"
      using 2(3) by (intro unat_next [OF _ other(2)]) simp
    with 2 other show ?thesis by auto
  qed (use a12 in simp)
qed simp

lemma used_remove:
  assumes "unat a + span (pre @ (k, False) # post) < 2 ^ 32"
  shows "used a (pre @ (k, True) # post) = used a (pre @ (k, False) # post) - {(at a pre + 12, k)}"
proof -
  have at: "unat (at a pre) = unat a + span pre" using assms by (intro unat_at) simp
  have p: "unat (at a pre + 12) = unat (at a pre) + 12"
    using at assms unat_plus_nowrap [of "at a pre" 12] by simp
  have "(at a pre + 12, k) \<notin> used a pre"
    using used_pointer_bounds [of "at a pre + 12" k a pre] at p assms by auto
  moreover have "(at a pre + 12, k) \<notin> used (at a pre + 12 + k) post"
  proof (cases "post = []")
    case False
    then have "unat (at a pre + 12 + k) = unat (at a pre) + 12 + unat k"
      using assms at by (intro unat_next [OF _ False]) simp
    then show ?thesis
      using used_pointer_bounds [of "at a pre + 12" k "at a pre + 12 + k" post] at p assms by auto
  qed simp
  ultimately show ?thesis by (auto simp: used_append)
qed

lemma heap_ok_bound: "heap_ok s bs \<Longrightarrow> unat HEAP_START + span bs < 2 ^ 32"
  unfolding heap_ok_def by blast

lemma heap_live_alloc:
  assumes "heap_live s L" and n: "n \<noteq> 0" and "heap_room n s"
  shows "\<exists>p k s'. malloc n s = Some (p, s') \<and> n \<le> k \<and> (p, k) \<notin> L \<and> heap_live s' (insert (p, k) L) \<and>
    (\<forall>q j x. (q, j) \<in> L \<longrightarrow> in_run x q (unat j) \<longrightarrow> ram s' x = ram s x)"
proof -
  from assms(1) obtain bs where ok: "heap_ok s bs" and L: "L = used HEAP_START bs"
    unfolding heap_live_def by blast
  have room: "unat HEAP_START + span bs + 12 + unat n < 2 ^ 32"
    using assms(3) ok unfolding heap_room_def by blast
  obtain pre z f post bs' where alloc: "alloc_blocks n bs = (pre, bs')"
    and bs': "bs' = pre @ (z, False) # post" "n \<le> z" "(at HEAP_START pre + 12, z) \<notin> L"
      "used HEAP_START bs' = insert (at HEAP_START pre + 12, z) L"
      "unat HEAP_START + span bs' < 2 ^ 32"
  proof (cases rule: alloc_blocks_cases [of bs n])
    case (fit pre z post)
    have bnd: "unat HEAP_START + span (pre @ (z, False) # post) < 2 ^ 32"
      using heap_ok_bound [OF ok] fit(1) by simp
    show ?thesis
    proof (rule that [OF fit(4) refl fit(2)])
      show "(at HEAP_START pre + 12, z) \<notin> L" "used HEAP_START (pre @ (z, False) # post)
          = insert (at HEAP_START pre + 12, z) L"
        using used_remove [OF bnd] unfolding L fit(1) by (auto simp: used_append)
    qed (fact bnd)
  next
    case grow
    show ?thesis
    proof (rule that [OF grow(2) refl order_refl])
      have "unat (at HEAP_START bs + 12) = unat HEAP_START + span bs + 12"
        using room unat_at [of HEAP_START bs] unat_plus_nowrap [of "at HEAP_START bs" 12] by simp
      then show "(at HEAP_START bs + 12, n) \<notin> L"
        using used_pointer_bounds [of "at HEAP_START bs + 12" n HEAP_START bs] room
        unfolding L by auto
    qed (use L room in \<open>auto simp: used_append\<close>)
  qed
  from malloc_blocks [OF ok n alloc bs'(5)] obtain m where
    m: "malloc n s = Some (at HEAP_START pre + 12, s\<lparr>ram := m\<rparr>)" "heap_ok (s\<lparr>ram := m\<rparr>) bs'"
      "\<forall>x. x \<notin> header_bytes HEAP_START bs' \<longrightarrow> m x = ram s x" by blast
  have "ram (s\<lparr>ram := m\<rparr>) x = ram s x" if "(q, j) \<in> L" "in_run x q (unat j)" for q j x
    using used_not_header [of q j HEAP_START bs' x] that bs'(4,5) m(3) by simp
  with m bs' show ?thesis unfolding heap_live_def by blast
qed

lemma heap_live_free:
  assumes "heap_live s L" and "(p, k) \<in> L"
  shows "\<exists>s'. free p s = Some s' \<and> heap_live s' (L - {(p, k)}) \<and>
    (\<forall>q j x. (q, j) \<in> L \<longrightarrow> in_run x q (unat j) \<longrightarrow> ram s' x = ram s x)"
proof -
  from assms(1) obtain bs where ok: "heap_ok s bs" and L: "L = used HEAP_START bs"
    unfolding heap_live_def by blast
  from assms(2) obtain pre post where bs: "bs = pre @ (k, False) # post"
    and p: "p = at HEAP_START pre + 12"
    using used_split unfolding L by blast
  note bnd = heap_ok_bound [OF ok]
  from free_blocks [OF ok [unfolded bs]] p obtain m where
    m: "free p s = Some (s\<lparr>ram := m\<rparr>)" "heap_ok (s\<lparr>ram := m\<rparr>) (coalesce (pre @ (k, True) # post))"
      "\<forall>x. x \<notin> header_bytes HEAP_START bs \<longrightarrow> m x = ram s x"
    unfolding bs by blast
  have "L - {(p, k)} = used HEAP_START (coalesce (pre @ (k, True) # post))"
    using used_remove [of HEAP_START pre k post] bnd unfolding L bs p used_coalesce by simp
  moreover have "ram (s\<lparr>ram := m\<rparr>) x = ram s x" if "(q, j) \<in> L" "in_run x q (unat j)" for q j x
    using used_not_header [of q j HEAP_START bs x] that bnd m(3) unfolding L by simp
  ultimately show ?thesis using m unfolding heap_live_def by blast
qed

lemma heap_ok_put:
  assumes ok: "heap_ok s bs" and p: "(p, k) \<in> used HEAP_START bs"
    and same: "\<And>x. \<not> in_run x p (unat k) \<Longrightarrow> m x = ram s x"
  shows "heap_ok (s\<lparr>ram := m\<rparr>) bs"
proof -
  have seg: "seg (ram s) HEAP_START bs 0" using ok unfolding heap_ok_def by blast
  have "m x = ram s x" if "x \<in> header_bytes HEAP_START bs" for x
    using used_not_header [OF p less_imp_le [OF heap_ok_bound [OF ok]]] that same by blast
  then have "seg m HEAP_START bs 0" using seg by (rule seg_header_agree)
  with ok show ?thesis unfolding heap_ok_def by simp
qed

lemma heap_live_put:
  assumes "heap_live s L" and "(p, k) \<in> L"
    and "\<And>x. \<not> in_run x p (unat k) \<Longrightarrow> m x = ram s x"
  shows "heap_live (s\<lparr>ram := m\<rparr>) L"
  using assms heap_ok_put unfolding heap_live_def by blast

interpretation heap: allocator malloc free ram "\<lambda>m s. s\<lparr>ram := m\<rparr>" heap_live heap_room
proof unfold_locales
  fix s :: "'a heap_scheme" and L p k q j x
  assume "heap_live s L"
  then obtain bs where ok: "heap_ok s bs" and L: "L = used HEAP_START bs"
    unfolding heap_live_def by blast
  note bnd = heap_ok_bound [OF ok]
  show "\<not> in_run x q (unat j)"
    if "(p, k) \<in> L" "(q, j) \<in> L" "(p, k) \<noteq> (q, j)" "in_run x p (unat k)"
    using used_disjoint [of p k HEAP_START bs q j x] that bnd unfolding L by simp
  show "p \<noteq> 0 \<and> unat p + unat k < 2 ^ 32" if "(p, k) \<in> L"
    using used_pointer_bounds [of p k HEAP_START bs] that bnd unfolding L by auto
qed (assumption | rule heap_live_alloc heap_live_free heap_live_put | simp)+

subsection \<open>Uniqueness of the block list\<close>

lemma seg_unique:
  "seg m a bs 0 \<Longrightarrow> seg m a bs' 0 \<Longrightarrow> unat a + span bs < 2 ^ 32 \<Longrightarrow> unat a + span bs' < 2 ^ 32 \<Longrightarrow>
   bs \<noteq> [] \<Longrightarrow> bs' \<noteq> [] \<Longrightarrow> bs = bs'"
proof (induction bs arbitrary: a bs')
  case (Cons b bs)
  obtain z f z' f' cs where b: "b = (z, f)" and bs': "bs' = (z', f') # cs"
    using Cons.prems(6) by (cases b; cases bs') auto
  have eq: "z' = z" "f' = f" using Cons.prems(1,2) b bs' by (auto simp: header_def)
  have "unat (a + 12 + z) = unat a + 12 + unat z" if "bs \<noteq> [] \<or> cs \<noteq> []"
    using that Cons.prems(3,4) b bs' eq unat_next [of a z f bs] unat_next [of a z f cs] by auto
  then have nz: "a + 12 + z \<noteq> 0" if "bs \<noteq> [] \<or> cs \<noteq> []" using that by auto
  have "bs = [] \<longleftrightarrow> cs = []"
    using Cons.prems(1,2) b bs' eq nz by (auto simp: header_def split: if_splits)
  moreover have "bs = cs" if "bs \<noteq> []" "cs \<noteq> []"
    using that Cons.prems b bs' eq unat_next [of a z f bs]
    by (intro Cons.IH [of "a + 12 + z" cs]) auto
  ultimately show ?case using b bs' eq by auto
qed simp

lemma heap_ok_unique: "heap_ok s bs \<Longrightarrow> heap_ok s bs' \<Longrightarrow> bs = bs'"
  unfolding heap_ok_def by (elim conjE, rule seg_unique) assumption+

lemma heap_roomI:
  "heap_ok s bs \<Longrightarrow> unat HEAP_START + span bs + 12 + unat n < 2 ^ 32 \<Longrightarrow> heap_room n s"
  unfolding heap_room_def using heap_ok_unique by blast

lemma heap_liveI: "heap_ok s bs \<Longrightarrow> heap_live s (used HEAP_START bs)"
  unfolding heap_live_def by blast

lemma live_header_size:
  assumes "heap_live s L" and "(p, k) \<in> L"
  shows "blk_size (ram s) (p - 12) = k"
proof -
  from assms(1) obtain bs where ok: "heap_ok s bs" and L: "L = used HEAP_START bs"
    unfolding heap_live_def by blast
  from assms(2) obtain pre post where "bs = pre @ (k, False) # post" "p = at HEAP_START pre + 12"
    using used_split unfolding L by blast
  moreover have "seg (ram s) HEAP_START bs 0" using ok unfolding heap_ok_def by blast
  ultimately show ?thesis by (simp add: seg_append header_def at_def)
qed

lemma memory_init_live: "heap_live (memory_init s) {}"
  using heap_liveI [OF memory_init_ok [of s]] by simp

lemma memory_init_room: "n \<le> 0xF0000000 \<Longrightarrow> heap_room n (memory_init s)"
  by (rule heap_roomI [OF memory_init_ok])
    (simp add: HEAP_START_def HEAP_SIZE_def sizeof_block_meta_def word_le_nat_alt)

subsection \<open>Room for several allocations\<close>

definition heap_slack :: "nat \<Rightarrow> 'a heap_scheme \<Rightarrow> bool" where
  "heap_slack k s \<longleftrightarrow> (\<forall>bs. heap_ok s bs \<longrightarrow> unat HEAP_START + span bs + k < 2 ^ 32)"

lemma heap_slack_room: "heap_slack k s \<Longrightarrow> 12 + unat n \<le> k \<Longrightarrow> heap_room n s"
  unfolding heap_slack_def heap_room_def by fastforce

lemma heap_slackI: "heap_ok s bs \<Longrightarrow> unat HEAP_START + span bs + k < 2 ^ 32 \<Longrightarrow> heap_slack k s"
  unfolding heap_slack_def using heap_ok_unique by blast

lemma heap_slack_mono: "heap_slack k s \<Longrightarrow> j \<le> k \<Longrightarrow> heap_slack j s"
  unfolding heap_slack_def by fastforce

lemma memory_init_slack: "k \<le> 0xF0000000 \<Longrightarrow> heap_slack k (memory_init s)"
  by (rule heap_slackI [OF memory_init_ok])
    (simp add: HEAP_START_def HEAP_SIZE_def sizeof_block_meta_def)

text \<open>The memory below the heap, which no operation of the heap changes.\<close>

definition same_below :: "mem \<Rightarrow> mem \<Rightarrow> bool" where
  "same_below m m' \<longleftrightarrow> (\<forall>x. unat x < unat HEAP_START \<longrightarrow> m' x = m x)"

lemma same_below_trans: "same_below m m' \<Longrightarrow> same_below m' m'' \<Longrightarrow> same_below m m''"
  by (simp add: same_below_def)

lemma same_below_headers:
  assumes "heap_ok s bs" and "\<forall>x. x \<notin> header_bytes HEAP_START bs \<longrightarrow> m' x = m x"
  shows "same_below m m'"
  using assms(2) header_bytes_bounds [of _ HEAP_START bs] heap_ok_bound [OF assms(1)]
  by (fastforce simp: same_below_def)

lemma same_below_write:
  assumes "heap_live s L" and "(p, j) \<in> L" and "length ys \<le> unat j"
  shows "same_below m (write_bytes m p ys)"
proof -
  from assms(1) obtain bs where ok: "heap_ok s bs" and L: "L = used HEAP_START bs"
    unfolding heap_live_def by blast
  have "\<not> in_run x p (length ys)" if "unat x < unat HEAP_START" for x
    using used_bounds [of p j HEAP_START bs x] assms(2,3) heap_ok_bound [OF ok] that
    by (auto simp: L in_run_def)
  then show ?thesis by (simp add: same_below_def write_bytes_outside)
qed

lemma heap_slack_malloc:
  assumes "heap_live s L" and n: "n \<noteq> 0" and slack: "heap_slack (12 + unat n + k) s"
    and m: "malloc n s = Some (p, s')"
  shows "heap_slack k s'" and "same_below (ram s) (ram s')"
proof -
  from assms(1) obtain bs where ok: "heap_ok s bs" unfolding heap_live_def by blast
  have room: "unat HEAP_START + span bs + (12 + unat n + k) < 2 ^ 32"
    using slack ok unfolding heap_slack_def by blast
  obtain pre bs' where alloc: "alloc_blocks n bs = (pre, bs')" and sp: "span bs' \<le> span bs + 12 + unat n"
  proof (cases rule: alloc_blocks_cases [of bs n])
    case (fit pre z post)
    have "span bs = span (pre @ (z, True) # post)" using fit(1) by (rule arg_cong)
    then show ?thesis by (intro that [OF fit(4)]) simp
  next
    case grow
    show ?thesis by (rule that [OF grow(2)]) simp
  qed
  have bnd: "unat HEAP_START + span bs' < 2 ^ 32" using sp room by simp
  from malloc_blocks [OF ok n alloc bnd] m have ok': "heap_ok s' bs'"
    and same: "\<forall>x. x \<notin> header_bytes HEAP_START bs' \<longrightarrow> ram s' x = ram s x" by auto
  show "heap_slack k s'" by (rule heap_slackI [OF ok']) (use sp room in linarith)
  show "same_below (ram s) (ram s')" by (rule same_below_headers [OF ok' same])
qed

lemma heap_slack_free:
  assumes "heap_live s L" and "(p, k) \<in> L" and slack: "heap_slack j s" and f: "free p s = Some s'"
  shows "heap_slack j s'"
proof -
  from assms(1) obtain bs where ok: "heap_ok s bs" and L: "L = used HEAP_START bs"
    unfolding heap_live_def by blast
  from assms(2) obtain pre post where bs: "bs = pre @ (k, False) # post" and p: "p = at HEAP_START pre + 12"
    using used_split unfolding L by blast
  note bnd = heap_ok_bound [OF ok]
  have "span (coalesce (pre @ (k, True) # post)) = span bs"
    using span_coalesce [of "pre @ (k, True) # post"] bnd bs by simp
  moreover have "heap_ok s' (coalesce (pre @ (k, True) # post))"
    using free_blocks [OF ok [unfolded bs]] f p by auto
  moreover have "unat HEAP_START + span bs + j < 2 ^ 32"
    using slack ok unfolding heap_slack_def by blast
  ultimately show ?thesis by (intro heap_slackI [of s' "coalesce (pre @ (k, True) # post)"]) simp_all
qed

lemma free_same_below:
  assumes "heap_live s L" and "(p, k) \<in> L" and f: "free p s = Some s'"
  shows "same_below (ram s) (ram s')"
proof -
  from assms(1) obtain bs where ok: "heap_ok s bs" and L: "L = used HEAP_START bs"
    unfolding heap_live_def by blast
  from assms(2) obtain pre post where bs: "bs = pre @ (k, False) # post" and p: "p = at HEAP_START pre + 12"
    using used_split unfolding L by blast
  show ?thesis
    by (rule same_below_headers [OF ok]) (use free_blocks [OF ok [unfolded bs]] f p bs in auto)
qed

lemma heap_slack_put:
  assumes "heap_live s L" and "(p, k) \<in> L"
    and "\<And>x. \<not> in_run x p (unat k) \<Longrightarrow> m x = ram s x" and "heap_slack j s"
  shows "heap_slack j (s\<lparr>ram := m\<rparr>)"
proof -
  from assms(1) obtain bs where ok: "heap_ok s bs" and L: "L = used HEAP_START bs"
    unfolding heap_live_def by blast
  have "heap_ok (s\<lparr>ram := m\<rparr>) bs" using heap_ok_put [OF ok _ assms(3)] assms(2) L by blast
  moreover have "unat HEAP_START + span bs + j < 2 ^ 32"
    using assms(4) ok unfolding heap_slack_def by blast
  ultimately show ?thesis by (rule heap_slackI)
qed

subsection \<open>Clients of the heap\<close>

text \<open>
  The live blocks after an operation, and that the old ones and the memory below the heap kept
  their contents.
\<close>

definition heap_keeps ::
  "'a heap_scheme \<Rightarrow> 'a heap_scheme \<Rightarrow> (u32 \<times> u32) set \<Rightarrow> (u32 \<times> u32) set \<Rightarrow> bool" where
  "heap_keeps s s' L L' \<longleftrightarrow> heap_live s' L' \<and> same_below (ram s) (ram s') \<and>
     (\<forall>(q, j) \<in> L. bytes_at (ram s') q (unat j) = bytes_at (ram s) q (unat j))"

text \<open>Filling a block that was just allocated.\<close>

lemma fresh_write:
  assumes live: "heap_live s1 (insert (p, j) L)" and new: "(p, j) \<notin> L" and ys: "length ys \<le> unat j"
  defines "s2 \<equiv> s1\<lparr>ram := write_bytes (ram s1) p ys\<rparr>"
  shows "heap_live s2 (insert (p, j) L)"
    and "heap_slack k s1 \<Longrightarrow> heap_slack k s2"
    and "(q, i) \<in> L \<Longrightarrow> bytes_at (ram s2) q (unat i) = bytes_at (ram s1) q (unat i)"
    and "bytes_at (ram s2) p (length ys) = ys"
proof -
  show "heap_live s2 (insert (p, j) L)"
    using heap.write_live [OF live insertI1 ys] by (simp add: s2_def)
  show "heap_slack k s2" if "heap_slack k s1"
    unfolding s2_def
    by (rule heap_slack_put [OF live insertI1 _ that])
      (use ys in \<open>auto intro!: write_bytes_outside simp: in_run_def\<close>)
  show "bytes_at (ram s2) q (unat i) = bytes_at (ram s1) q (unat i)" if "(q, i) \<in> L"
    using heap.write_keeps_others [OF live insertI1 _ _ ys order_refl, of q i] that new
    by (auto simp: s2_def)
  show "bytes_at (ram s2) p (length ys) = ys"
    using ys unat_lt_32 [of j] by (simp add: s2_def bytes_at_write_same)
qed

lemma fresh_disjoint:
  assumes "heap_live s L" and "(p, j) \<in> L" and "(q, i) \<in> L" and "(p, j) \<noteq> (q, i)"
    and "n \<le> unat i" and "k \<le> unat j" and "l < n"
  shows "\<not> in_run (q + of_nat l) p k"
proof
  assume r: "in_run (q + of_nat l) p k"
  have "in_run (q + of_nat l) q (unat i)"
    using assms(5,7) by (intro heap.in_own_run [OF assms(1,3)]) simp
  moreover have "in_run (q + of_nat l) p (unat j)" using r assms(6) by (simp add: in_run_def)
  ultimately show False using heap.live_disjoint [OF assms(1,2,3,4)] by blast
qed

text \<open>Allocation and release, with the contents of the live blocks as lists.\<close>

lemma malloc_keeps:
  assumes "heap_live s L" and "n \<noteq> 0" and "heap_slack (12 + unat n + k) s"
  obtains p j s' where "malloc n s = Some (p, s')" "p \<noteq> 0" "n \<le> j" "(p, j) \<notin> L"
    "heap_keeps s s' L (insert (p, j) L)" "heap_slack k s'"
proof -
  have "heap_room n s" using heap_slack_room [OF assms(3)] by simp
  from heap.alloc_ok [OF assms(1,2) this] obtain p j s' where
    m: "malloc n s = Some (p, s')" "n \<le> j" "(p, j) \<notin> L" "heap_live s' (insert (p, j) L)"
      "\<forall>q j x. (q, j) \<in> L \<longrightarrow> in_run x q (unat j) \<longrightarrow> ram s' x = ram s x" by blast
  have "p \<noteq> 0" using heap.live_bounds [OF m(4)] by blast
  moreover have "heap_slack k s'" using heap_slack_malloc(1) [OF assms m(1)] .
  moreover have "heap_keeps s s' L (insert (p, j) L)"
    unfolding heap_keeps_def
    using m(4) heap.contents_kept [OF assms(1) _ order_refl m(5)] heap_slack_malloc(2) [OF assms m(1)] by blast
  ultimately show ?thesis using m that by blast
qed

lemma free_keeps:
  assumes "heap_live s L" and "(p, k) \<in> L"
  obtains s' where "free p s = Some s'" "heap_keeps s s' L (L - {(p, k)})"
proof -
  from heap_live_free [OF assms] obtain s' where
    f: "free p s = Some s'" "heap_live s' (L - {(p, k)})"
      "\<forall>q j x. (q, j) \<in> L \<longrightarrow> in_run x q (unat j) \<longrightarrow> ram s' x = ram s x" by blast
  note low = free_same_below [OF assms f(1)]
  have "heap_keeps s s' L (L - {(p, k)})"
    unfolding heap_keeps_def
    using f(2) low heap.contents_kept [OF assms(1) _ order_refl f(3)] by blast
  with f(1) show ?thesis by (rule that)
qed

lemma keeps_bytes:
  assumes "heap_keeps s s' L L'" and "(q, j) \<in> L" and "n \<le> unat j"
  shows "bytes_at (ram s') q n = bytes_at (ram s) q n"
proof -
  have "bytes_at (ram s') q (unat j) = bytes_at (ram s) q (unat j)"
    using assms(1,2) unfolding heap_keeps_def by blast
  from arg_cong [OF this, of "take n"] assms(3) show ?thesis by (simp add: take_bytes_at min_absorb1)
qed

lemma keeps_write:
  assumes "heap_live s1 (insert (p, j) L)" and "(p, j) \<notin> L" and "length ys \<le> unat j"
  shows "heap_keeps s1 (s1\<lparr>ram := write_bytes (ram s1) p ys\<rparr>) L (insert (p, j) L)"
  unfolding heap_keeps_def
  using fresh_write(1) [OF assms] fresh_write(3) [OF assms] same_below_write [OF assms(1) insertI1 assms(3)]
  by auto

lemma keeps_chain:
  "heap_keeps s s1 L L1 \<Longrightarrow> heap_keeps s1 s2 L' L2 \<Longrightarrow> L \<subseteq> L' \<Longrightarrow> heap_keeps s s2 L L2"
  unfolding heap_keeps_def using same_below_trans by fastforce

text \<open>Allocation and release change the memory only.\<close>

lemma malloc_changes_ram:
  assumes "heap_start s \<noteq> 0" and "malloc n s = Some (p, s')"
  shows "\<exists>m. s' = s\<lparr>ram := m\<rparr>"
proof (cases "n = 0")
  case True
  then have "s' = s\<lparr>ram := ram s\<rparr>" using assms(2) by (simp add: malloc_def)
  then show ?thesis by blast
next
  case False
  then show ?thesis
    using assms by (auto simp: malloc_def request_space_def Let_def bind_eq_Some_conv split: if_splits)
qed

lemma heap_live_start: "heap_live s L \<Longrightarrow> heap_start s \<noteq> 0"
  using HEAP_START_nonzero by (auto simp: heap_live_def heap_ok_def)

lemma malloc_ram:
  assumes "heap_live s L" and "malloc n s = Some (p, s')"
  obtains m where "s' = s\<lparr>ram := m\<rparr>"
  using malloc_changes_ram [OF heap_live_start [OF assms(1)] assms(2)] by blast

lemma free_ram: "free p s = Some s' \<Longrightarrow> p \<noteq> 0 \<Longrightarrow> \<exists>m. s' = s\<lparr>ram := m\<rparr>"
  by (auto simp: free_def Let_def)

text \<open>An operation that only writes below the heap keeps the heap and all live contents.\<close>

lemma heap_ok_above:
  assumes ok: "heap_ok s bs" and start: "heap_start s' = heap_start s"
    and same: "\<And>x. unat HEAP_START \<le> unat x \<Longrightarrow> ram s' x = ram s x"
  shows "heap_ok s' bs"
proof -
  have seg: "seg (ram s) HEAP_START bs 0" using ok unfolding heap_ok_def by blast
  have "ram s' x = ram s x" if "x \<in> header_bytes HEAP_START bs" for x
    using header_bytes_bounds [OF that] heap_ok_bound [OF ok] by (intro same) simp
  then have "seg (ram s') HEAP_START bs 0" using seg by (rule seg_header_agree)
  with ok start show ?thesis unfolding heap_ok_def by simp
qed

lemma heap_slack_above:
  assumes "heap_live s L" and "heap_start s' = heap_start s"
    and "\<And>x. unat HEAP_START \<le> unat x \<Longrightarrow> ram s' x = ram s x" and "heap_slack k s"
  shows "heap_slack k s'"
proof -
  from assms(1) obtain bs where ok: "heap_ok s bs" unfolding heap_live_def by blast
  have "unat HEAP_START + span bs + k < 2 ^ 32" using assms(4) ok unfolding heap_slack_def by blast
  with heap_ok_above [OF ok assms(2,3)] show ?thesis by (rule heap_slackI)
qed

lemma heap_live_above:
  assumes "heap_live s L" and start: "heap_start s' = heap_start s"
    and same: "\<And>x. unat HEAP_START \<le> unat x \<Longrightarrow> ram s' x = ram s x"
  shows "heap_live s' L"
    and "(q, j) \<in> L \<Longrightarrow> bytes_at (ram s') q (unat j) = bytes_at (ram s) q (unat j)"
proof -
  from assms(1) obtain bs where ok: "heap_ok s bs" and L: "L = used HEAP_START bs"
    unfolding heap_live_def by blast
  then show "heap_live s' L" using heap_ok_above [OF ok start same] unfolding heap_live_def by blast
  assume q: "(q, j) \<in> L"
  show "bytes_at (ram s') q (unat j) = bytes_at (ram s) q (unat j)"
  proof (rule bytes_at_cong)
    fix i assume "i < unat j"
    then have "in_run (q + of_nat i) q (unat j)" by (rule heap.in_own_run [OF assms(1) q])
    then have "unat HEAP_START \<le> unat (q + of_nat i)"
      using used_bounds [of q j HEAP_START bs] q L heap_ok_bound [OF ok] by fastforce
    then show "ram s' (q + of_nat i) = ram s (q + of_nat i)" by (rule same)
  qed
qed

subsection \<open>Properties\<close>

definition blank_heap :: heap where
  "blank_heap = \<lparr>ram = (\<lambda>_. 0), events = [], device = (\<lambda>_ _. 0), heap_start = 0\<rparr>"

text \<open>The state after a first small allocation on a fresh heap.\<close>

lemma first_allocation:
  "\<exists>s. malloc 4 (memory_init blank_heap) = Some (HEAP_START + 12, s) \<and>
    heap_ok s [(HEAP_SIZE - sizeof_block_meta, False)]"
proof -
  let ?k = "HEAP_SIZE - sizeof_block_meta"
  have blocks: "alloc_blocks 4 [(?k, True)] = ([], [(?k, False)])"
    by (simp add: alloc_blocks_def fits_def HEAP_SIZE_def sizeof_block_meta_def)
  have "unat HEAP_START + span [(?k, False)] < 2 ^ 32"
    by (simp add: HEAP_START_def HEAP_SIZE_def sizeof_block_meta_def)
  from malloc_blocks [OF memory_init_ok _ blocks this, of blank_heap] show ?thesis by auto
qed

text \<open>A heap whose one live block holds the given bytes.\<close>

lemma heap_with_bytes:
  assumes "length bs = n" and "n \<le> 1000"
  obtains s :: heap and p k where "heap_live s {(p, k)}" "1000 \<le> k" "heap_slack 100000 s"
    "bytes_at (ram s) p n = bs"
proof -
  let ?q = "HEAP_START + 12" and ?k = "HEAP_SIZE - sizeof_block_meta"
  obtain s1 :: heap where ok1: "heap_ok s1 [(?k, False)]" using first_allocation by blast
  let ?s = "s1\<lparr>ram := write_bytes (ram s1) ?q bs\<rparr>"
  have k: "unat ?k = 1048564" by (simp add: HEAP_SIZE_def sizeof_block_meta_def)
  have ok: "heap_ok ?s [(?k, False)]"
    using ok1 by (rule heap_ok_put [where p = ?q and k = ?k])
      (use assms in \<open>auto simp: k in_run_def intro!: write_bytes_outside\<close>)
  have "heap_live ?s {(?q, ?k)}" using heap_liveI [OF ok] by simp
  moreover have "heap_slack 100000 ?s"
    by (rule heap_slackI [OF ok]) (simp add: HEAP_START_def HEAP_SIZE_def sizeof_block_meta_def)
  moreover have "bytes_at (ram ?s) ?q n = bs"
    using assms bytes_at_write_same [of bs "ram s1" ?q] by simp
  moreover have "1000 \<le> ?k" by (simp add: HEAP_SIZE_def sizeof_block_meta_def)
  ultimately show ?thesis using that by blast
qed

text \<open>
  C5. Contract of \<^verbatim>\<open>malloc\<close>: on a well-formed heap with room, a request of a positive
  size returns a non-null pointer to a block of at least that size that overlaps no live
  block; the heap stays well-formed and the contents of every live block are unchanged.
\<close>

theorem malloc_contract:
  assumes "heap_live s L" and "n \<noteq> 0" and "heap_room n s"
  shows "\<exists>p k s'. malloc n s = Some (p, s') \<and> p \<noteq> 0 \<and> n \<le> k \<and> heap_live s' (insert (p, k) L) \<and>
    (\<forall>q j. (q, j) \<in> L \<longrightarrow> bytes_at (ram s') q (unat j) = bytes_at (ram s) q (unat j) \<and>
       (\<forall>x. in_run x p (unat k) \<longrightarrow> \<not> in_run x q (unat j)))"
proof -
  from heap.alloc_ok [OF assms] obtain p k s' where
    al: "malloc n s = Some (p, s')" "n \<le> k" "(p, k) \<notin> L" "heap_live s' (insert (p, k) L)"
    and kept: "\<forall>q j x. (q, j) \<in> L \<longrightarrow> in_run x q (unat j) \<longrightarrow> ram s' x = ram s x" by blast
  have "bytes_at (ram s') q (unat j) = bytes_at (ram s) q (unat j)" if "(q, j) \<in> L" for q j
    using assms(1) that _ kept by (rule heap.contents_kept) simp
  moreover have "\<not> in_run x q (unat j)" if "(q, j) \<in> L" "in_run x p (unat k)" for q j x
    using heap.live_disjoint [OF al(4), of p k q j x] that al(3) by auto
  moreover have "p \<noteq> 0" using heap.live_bounds [OF al(4)] by blast
  ultimately show ?thesis using al by blast
qed

theorem malloc_contract_witness:
  "\<exists>p s'. malloc 16 (memory_init blank_heap) = Some (p, s') \<and> p \<noteq> 0"
proof -
  have "heap_room 16 (memory_init blank_heap)" by (rule memory_init_room) simp
  from malloc_contract [OF memory_init_live _ this] show ?thesis by auto
qed

text \<open>
  C6. \<^verbatim>\<open>free\<close> of a live block returns, removes exactly that block from the live ones
  and leaves the contents of the others alone; afterwards no two neighbouring blocks are
  free and the list spans the same bytes.
\<close>

theorem free_contract:
  assumes "heap_ok s bs" and "(p, k) \<in> used HEAP_START bs"
  shows "\<exists>s' bs'. free p s = Some s' \<and> heap_ok s' bs' \<and> no_free_neighbours bs' \<and> span bs' = span bs \<and>
    used HEAP_START bs' = used HEAP_START bs - {(p, k)} \<and>
    (\<forall>q j. (q, j) \<in> used HEAP_START bs \<longrightarrow>
       bytes_at (ram s') q (unat j) = bytes_at (ram s) q (unat j))"
proof -
  from assms(2) obtain pre post where bs: "bs = pre @ (k, False) # post"
    and p: "p = at HEAP_START pre + 12"
    using used_split by blast
  let ?bs' = "coalesce (pre @ (k, True) # post)"
  note bnd = heap_ok_bound [OF assms(1)]
  from free_blocks [OF assms(1) [unfolded bs]] p obtain m where
    m: "free p s = Some (s\<lparr>ram := m\<rparr>)" "heap_ok (s\<lparr>ram := m\<rparr>) ?bs'"
      "\<forall>x. x \<notin> header_bytes HEAP_START bs \<longrightarrow> m x = ram s x"
    unfolding bs by blast
  have "span ?bs' = span bs" using span_coalesce [of "pre @ (k, True) # post"] bnd bs by simp
  moreover have "used HEAP_START ?bs' = used HEAP_START bs - {(p, k)}"
    using used_remove [of HEAP_START pre k post] bnd unfolding bs p used_coalesce by simp
  moreover have "bytes_at m q (unat j) = bytes_at (ram s) q (unat j)"
    if "(q, j) \<in> used HEAP_START bs" for q j
    using heap.contents_kept [OF heap_liveI [OF assms(1)] that order_refl, of "s\<lparr>ram := m\<rparr>"]
      used_not_header [of _ _ HEAP_START bs] m(3) bnd by simp
  ultimately show ?thesis using m coalesce_no_free_neighbours by fastforce
qed

theorem free_contract_witness:
  "\<exists>p s1 s2. malloc 16 (memory_init blank_heap) = Some (p, s1) \<and> free p s1 = Some s2 \<and>
     heap_live s2 {}"
proof -
  have "heap_room 16 (memory_init blank_heap)" by (rule memory_init_room) simp
  from heap.alloc_ok [OF memory_init_live _ this] obtain p k s1 where
    s1: "malloc 16 (memory_init blank_heap) = Some (p, s1)" "heap_live s1 {(p, k)}" by auto
  from s1(2) obtain bs where bs: "heap_ok s1 bs" "used HEAP_START bs = {(p, k)}"
    unfolding heap_live_def by auto
  from free_contract [OF bs(1), of p k] bs(2) obtain s2 bs' where
    "free p s1 = Some s2" "heap_ok s2 bs'" "used HEAP_START bs' = {}" by auto
  with s1 show ?thesis using heap_liveI [of s2 bs'] by auto
qed

text \<open>
  C21. \<^verbatim>\<open>realloc\<close> of a live block to a positive size, on a heap with room for that size
  behind its last block, returns a new live block of at least
  that size in its place, and the new block starts with the old contents, cut to the smaller
  of the two sizes.
\<close>

theorem realloc_preserves:
  assumes live: "heap_live s L" and old: "(q, j) \<in> L" and n: "n \<noteq> 0" and room: "heap_room n s"
  shows "\<exists>p k s'. realloc q n s = Some (p, s') \<and> n \<le> k \<and>
    heap_live s' (insert (p, k) (L - {(q, j)})) \<and>
    bytes_at (ram s') p (min (unat j) (unat n)) = bytes_at (ram s) q (min (unat j) (unat n))"
proof -
  let ?c = "if j < n then j else n" and ?len = "min (unat j) (unat n)"
  have c: "unat ?c = ?len" by (simp add: word_less_nat_alt)
  let ?bs = "bytes_at (ram s) q ?len"
  from heap.move_to_new_block [OF live old n room, of ?bs] obtain p k s1 s2 where
    al: "malloc n s = Some (p, s1)" "p \<noteq> 0" "n \<le> k" "(p, k) \<notin> L"
    and rel: "free q (s1\<lparr>ram := write_bytes (ram s1) p ?bs\<rparr>) = Some s2"
    and lv: "heap_live s1 (insert (p, k) L)" "heap_live s2 (insert (p, k) (L - {(q, j)}))"
    and kept: "bytes_at (ram s1) q (unat j) = bytes_at (ram s) q (unat j)"
    and new: "bytes_at (ram s2) p (length ?bs) = ?bs"
    by auto
  have q: "q \<noteq> 0" using heap.live_bounds [OF live old] by blast
  have size: "blk_size (ram s1) (q - 12) = j" using live_header_size [OF lv(1)] old by blast
  have "take ?len (bytes_at (ram s1) q (unat j)) = take ?len (bytes_at (ram s) q (unat j))"
    using kept by simp
  then have src: "bytes_at (ram s1) q ?len = ?bs" by (simp add: take_bytes_at)
  have "?len \<le> unat (p - q)"
  proof (rule ccontr)
    assume "\<not> ?len \<le> unat (p - q)"
    then have "in_run p q (unat j)" by (simp add: in_run_def)
    moreover have "0 < unat n" using n by (simp add: unat_gt_0)
    then have "0 < unat k" using al(3) unfolding word_le_nat_alt by linarith
    then have "in_run p p (unat k)" by (simp add: in_run_def)
    ultimately show False
      using heap.live_disjoint [OF lv(1), of p k q j p] old al(4) by auto
  qed
  then have "memcpy_loop p q ?c (ram s1) = write_bytes (ram s1) p ?bs"
    using c src memcpy_loop_eq [of p q ?c "ram s1"] by simp
  then have "realloc q n s = Some (p, s2)"
    using q n al(1,2) size rel
    by (cases "j < n") (simp_all add: realloc_def memcpy_def sizeof_block_meta_def Let_def)
  with al(3) lv(2) new show ?thesis by auto
qed

theorem realloc_preserves_witness:
  "\<exists>q s1 p s2. malloc 4 (memory_init blank_heap) = Some (q, s1) \<and> realloc q 8 s1 = Some (p, s2) \<and>
     bytes_at (ram s2) p 8 = bytes_at (ram s1) q 8"
proof -
  let ?k = "HEAP_SIZE - sizeof_block_meta"
  obtain s1 where s1: "malloc 4 (memory_init blank_heap) = Some (HEAP_START + 12, s1)"
      "heap_ok s1 [(?k, False)]"
    using first_allocation by blast
  have live: "heap_live s1 {(HEAP_START + 12, ?k)}" using heap_liveI [OF s1(2)] by simp
  have room: "heap_room 8 s1"
    by (rule heap_roomI [OF s1(2)]) (simp add: HEAP_START_def HEAP_SIZE_def sizeof_block_meta_def)
  have "min (unat ?k) (unat (8 :: u32)) = 8" by (simp add: HEAP_SIZE_def sizeof_block_meta_def)
  with realloc_preserves [OF live _ _ room, of "HEAP_START + 12" ?k] s1(1) show ?thesis by auto
qed

text \<open>
  C22. The allocator does not stay inside its heap region. The first allocation, however small,
  takes all of the 1 MiB that \<^verbatim>\<open>HEAP_START\<close> and \<^verbatim>\<open>HEAP_SIZE\<close> describe. The next
  request, which the region has no room for, is not refused: up to 0xF0000000 bytes it gets a live
  block of that size behind the end of the region.
\<close>

theorem malloc_leaves_heap_region:
  assumes fresh: "heap_start s = 0"
    and n: "0 < n" "n \<le> HEAP_SIZE - sizeof_block_meta" and k: "0 < k" "k \<le> 0xF0000000"
  shows "\<exists>s1 s2. malloc n s = Some (HEAP_START + 12, s1) \<and>
    heap_live s1 {(HEAP_START + 12, HEAP_SIZE - sizeof_block_meta)} \<and>
    malloc k s1 = Some (HEAP_START + HEAP_SIZE + 12, s2) \<and>
    heap_live s2 {(HEAP_START + 12, HEAP_SIZE - sizeof_block_meta), (HEAP_START + HEAP_SIZE + 12, k)}"
proof -
  let ?z = "HEAP_SIZE - sizeof_block_meta"
  have first: "malloc n s = malloc n (memory_init s)"
    using fresh n(1) HEAP_START_nonzero by (simp add: malloc_def memory_init_def)
  have b1: "alloc_blocks n [(?z, True)] = ([], [(?z, False)])"
    using n(2) by (simp add: alloc_blocks_def fits_def)
  have b2: "alloc_blocks k [(?z, False)] = ([(?z, False)], [(?z, False), (k, False)])"
    by (simp add: alloc_blocks_def fits_def)
  have "unat HEAP_START + span [(?z, False)] < 2 ^ 32"
    by (simp add: HEAP_START_def HEAP_SIZE_def sizeof_block_meta_def)
  from malloc_blocks [OF memory_init_ok _ b1 this, of s] n(1) first obtain s1 where
    s1: "malloc n s = Some (HEAP_START + 12, s1)" "heap_ok s1 [(?z, False)]" by auto
  have "unat HEAP_START + span [(?z, False), (k, False)] < 2 ^ 32"
    using k(2) by (simp add: HEAP_START_def HEAP_SIZE_def sizeof_block_meta_def word_le_nat_alt)
  from malloc_blocks [OF s1(2) _ b2 this] k(1) obtain s2 where
    "malloc k s1 = Some (at HEAP_START [(?z, False)] + 12, s2)" "heap_ok s2 [(?z, False), (k, False)]" by auto
  moreover have behind: "at HEAP_START [(?z, False)] + 12 = HEAP_START + HEAP_SIZE + 12"
    by (simp add: sizeof_block_meta_def)
  moreover have "heap_live s1 {(HEAP_START + 12, ?z)}"
    using heap_liveI [OF s1(2)] by (simp add: sizeof_block_meta_def)
  moreover have "heap_live s2 {(HEAP_START + 12, ?z), (HEAP_START + HEAP_SIZE + 12, k)}"
    using heap_liveI [OF calculation(2)] behind by (simp add: insert_commute sizeof_block_meta_def)
  ultimately show ?thesis using s1(1) by metis
qed

theorem malloc_leaves_heap_region_witness:
  "\<exists>s1 s2. malloc 1 blank_heap = Some (HEAP_START + 12, s1) \<and> malloc 1 s1 = Some (0x20000C, s2) \<and>
     heap_live s2 {(0x10000C, 0xFFFF4), (0x20000C, 1)}"
proof -
  have "heap_start blank_heap = 0" "(0 :: u32) < 1" "1 \<le> HEAP_SIZE - sizeof_block_meta"
    "(1 :: u32) \<le> 0xF0000000"
    by (simp_all add: blank_heap_def HEAP_SIZE_def sizeof_block_meta_def)
  from malloc_leaves_heap_region [OF this(1,2,3,2,4)] show ?thesis
    by (auto simp: HEAP_START_def HEAP_SIZE_def sizeof_block_meta_def)
qed

text \<open>
  \<^verbatim>\<open>strdup\<close> of a terminated string that lies in a live block returns a new live block
  holding an equal string, and keeps the original.
\<close>

lemma strdup_copies:
  assumes live: "heap_live s L" and src: "(q, j) \<in> L" and str: "cstr_at (ram s) q str"
    and fits: "length str < unat j" and room: "heap_room (of_nat (Suc (length str))) s"
  shows "\<exists>p k s'. strdup q s = Some (p, s') \<and> p \<noteq> 0 \<and> heap_live s' (insert (p, k) L) \<and> (p, k) \<notin> L \<and>
    cstr_at (ram s') p str \<and> cstr_at (ram s') q str"
proof -
  let ?n = "of_nat (length str) + 1 :: u32" and ?bs = "str @ [0]"
  have n: "?n = of_nat (Suc (length str))" by simp
  have un: "unat ?n = Suc (length str)"
    unfolding n using fits unat_lt_32 [of j] by (intro unat_of_nat32) simp
  then have nz: "?n \<noteq> 0" by auto
  from heap.alloc_ok [OF live nz] room n obtain p k s1 where
    al: "malloc ?n s = Some (p, s1)" "?n \<le> k" "(p, k) \<notin> L" "heap_live s1 (insert (p, k) L)"
    and kept: "\<forall>q j x. (q, j) \<in> L \<longrightarrow> in_run x q (unat j) \<longrightarrow> ram s1 x = ram s x"
    by auto
  have len: "length ?bs \<le> unat k" using al(2) un by (simp add: word_le_nat_alt)
  have src1: "bytes_at (ram s1) q (Suc (length str)) = ?bs"
    using heap.contents_kept [OF live src _ kept] fits str by (simp add: cstr_at_bytes)
  have "Suc (length str) \<le> unat (p - q)"
  proof (rule ccontr)
    assume "\<not> Suc (length str) \<le> unat (p - q)"
    then have "in_run p q (unat j)" using fits by (simp add: in_run_def)
    moreover have "in_run p p (unat k)" using len by (simp add: in_run_def)
    ultimately show False using heap.live_disjoint [OF al(4), of p k q j p] src al(3) by auto
  qed
  then have cpy: "memcpy_loop p q ?n (ram s1) = write_bytes (ram s1) p ?bs"
    using memcpy_loop_eq [of p q ?n "ram s1"] un src1 by simp
  let ?s = "s1\<lparr>ram := write_bytes (ram s1) p ?bs\<rparr>"
  have p: "p \<noteq> 0" using heap.live_bounds [OF al(4)] by blast
  have "strdup q s = Some (p, ?s)"
    using strlen_cstr [OF str] al(1) p cpy by (simp add: strdup_def memcpy_def Let_def)
  moreover have "heap_live ?s (insert (p, k) L)" using al(4) len by (intro heap.write_live) auto
  moreover have "cstr_at (ram ?s) p str"
    using bytes_at_write_same [of ?bs "ram s1" p] un unat_lt_32 [of ?n] str by (simp add: cstr_at_bytes)
  moreover have "bytes_at (ram ?s) q (Suc (length str)) = bytes_at (ram s1) q (Suc (length str))"
    using heap.write_keeps_others [OF al(4), of p k q j ?bs "Suc (length str)"] src al(3) len fits by auto
  then have "cstr_at (ram ?s) q str" using src1 str by (simp add: cstr_at_bytes)
  ultimately show ?thesis using p al(3) by blast
qed

lemma strdup_copies_witness:
  "\<exists>(s :: heap) p s'. strdup (HEAP_START + 12) s = Some (p, s') \<and> cstr_at (ram s') p [72, 105]"
proof -
  let ?q = "HEAP_START + 12" and ?k = "HEAP_SIZE - sizeof_block_meta"
  obtain s1 :: heap where ok1: "heap_ok s1 [(?k, False)]" using first_allocation by blast
  let ?s = "s1\<lparr>ram := write_bytes (ram s1) ?q [72, 105, 0]\<rparr>"
  have k: "unat ?k = 1048564" by (simp add: HEAP_SIZE_def sizeof_block_meta_def)
  have ok: "heap_ok ?s [(?k, False)]"
    using ok1 by (rule heap_ok_put [where p = ?q and k = ?k])
      (auto simp: k in_run_def intro!: write_bytes_outside)
  have live: "heap_live ?s {(?q, ?k)}" using heap_liveI [OF ok] by simp
  have room: "heap_room (of_nat (Suc (length [72, 105 :: u8]))) ?s"
    by (rule heap_roomI [OF ok]) (simp add: HEAP_START_def HEAP_SIZE_def sizeof_block_meta_def)
  have "cstr_at (ram ?s) ?q [72, 105]"
    using bytes_at_write_same [of "[72, 105, 0]" "ram s1" ?q] by (simp add: cstr_at_bytes)
  from strdup_copies [OF live _ this _ room, of ?k] k obtain p s' where
    "strdup ?q ?s = Some (p, s')" "cstr_at (ram s') p [72, 105]" by auto
  then show ?thesis by blast
qed

end
