(* ===== verification/Terminal.thy ===== *)
theory Terminal
  imports Heap
begin

text \<open>
  The text terminal of \<^verbatim>\<open>kernel/kernel.cpp\<close>: the fields of \<^verbatim>\<open>KernelState\<close>, the
  VGA cells in the flat memory behind \<^verbatim>\<open>terminal_buffer\<close>, and the hardware cursor that
  is set through the CRT controller ports. The second half views the buffer as a list of
  2000 cells and shows that writing, line feeds and scrolling implement a plain screen.
\<close>

subsection \<open>State and colours\<close>

datatype vga_color =
    VGA_COLOR_BLACK | VGA_COLOR_BLUE | VGA_COLOR_GREEN | VGA_COLOR_CYAN | VGA_COLOR_RED
  | VGA_COLOR_MAGENTA | VGA_COLOR_BROWN | VGA_COLOR_LIGHT_GREY | VGA_COLOR_DARK_GREY
  | VGA_COLOR_LIGHT_BLUE | VGA_COLOR_LIGHT_GREEN | VGA_COLOR_LIGHT_CYAN
  | VGA_COLOR_LIGHT_RED | VGA_COLOR_LIGHT_MAGENTA | VGA_COLOR_LIGHT_BROWN | VGA_COLOR_WHITE

fun color_code :: "vga_color \<Rightarrow> u8" where
  "color_code VGA_COLOR_BLACK = 0"
| "color_code VGA_COLOR_BLUE = 1"
| "color_code VGA_COLOR_GREEN = 2"
| "color_code VGA_COLOR_CYAN = 3"
| "color_code VGA_COLOR_RED = 4"
| "color_code VGA_COLOR_MAGENTA = 5"
| "color_code VGA_COLOR_BROWN = 6"
| "color_code VGA_COLOR_LIGHT_GREY = 7"
| "color_code VGA_COLOR_DARK_GREY = 8"
| "color_code VGA_COLOR_LIGHT_BLUE = 9"
| "color_code VGA_COLOR_LIGHT_GREEN = 10"
| "color_code VGA_COLOR_LIGHT_CYAN = 11"
| "color_code VGA_COLOR_LIGHT_RED = 12"
| "color_code VGA_COLOR_LIGHT_MAGENTA = 13"
| "color_code VGA_COLOR_LIGHT_BROWN = 14"
| "color_code VGA_COLOR_WHITE = 15"

definition VGA_WIDTH :: nat where "VGA_WIDTH = 80"
definition VGA_HEIGHT :: nat where "VGA_HEIGHT = 25"
definition VGA_MEMORY :: u32 where "VGA_MEMORY = 0xB8000"

record terminal = heap +
  terminal_row :: u32
  terminal_column :: u32
  terminal_color :: u8
  terminal_buffer :: u32
  is_initialized :: bool
  total_memory :: u32
  free_memory :: u32

subsection \<open>Operations\<close>

definition make_color :: "vga_color \<Rightarrow> vga_color \<Rightarrow> u8" where
  "make_color fg bg = color_code fg OR push_bit 4 (color_code bg)"

text \<open>\<^verbatim>\<open>char\<close> is signed on i386: the conversion to 16 bits extends the sign.\<close>

definition make_vgaentry :: "u8 \<Rightarrow> u8 \<Rightarrow> u16" where
  "make_vgaentry c color = scast c OR push_bit 8 (ucast color)"

text \<open>\<^verbatim>\<open>kernel_state.terminal_buffer[index] = v\<close> and the read of a cell.\<close>

definition put_cell :: "u32 \<Rightarrow> u16 \<Rightarrow> 'a terminal_scheme \<Rightarrow> 'a terminal_scheme" where
  "put_cell index v s = s\<lparr>ram := store16 (ram s) (terminal_buffer s + 2 * index) v\<rparr>"

definition get_cell :: "u32 \<Rightarrow> 'a terminal_scheme \<Rightarrow> u16" where
  "get_cell index s = load16 (ram s) (terminal_buffer s + 2 * index)"

definition terminal_clear :: "'a terminal_scheme \<Rightarrow> 'a terminal_scheme" where
  "terminal_clear s =
     fold (\<lambda>y. fold (\<lambda>x s.
       put_cell (of_nat (y * VGA_WIDTH + x)) (make_vgaentry (of_char CHR '' '') (terminal_color s)) s)
       [0..<VGA_WIDTH]) [0..<VGA_HEIGHT] s"

definition terminal_init :: "'a terminal_scheme \<Rightarrow> 'a terminal_scheme" where
  "terminal_init s =
     terminal_clear (s\<lparr>terminal_row := 0, terminal_column := 0,
       terminal_color := make_color VGA_COLOR_LIGHT_GREY VGA_COLOR_BLACK,
       terminal_buffer := VGA_MEMORY, is_initialized := True\<rparr>)"

definition terminal_movecursor :: "u32 \<Rightarrow> u32 \<Rightarrow> 'a terminal_scheme \<Rightarrow> 'a terminal_scheme" where
  "terminal_movecursor x y s =
     (let pos = ucast (y * of_nat VGA_WIDTH + x) :: u16 in
      outb 0x3D5 (ucast (pos AND 0xFF)) (outb 0x3D4 15
        (outb 0x3D5 (ucast (drop_bit 8 pos)) (outb 0x3D4 14 s))))"

definition terminal_set_color :: "vga_color \<Rightarrow> vga_color \<Rightarrow> 'a terminal_scheme \<Rightarrow> 'a terminal_scheme" where
  "terminal_set_color fg bg s = s\<lparr>terminal_color := make_color fg bg\<rparr>"

definition scroll_up :: "'a terminal_scheme \<Rightarrow> 'a terminal_scheme" where
  "scroll_up s =
     fold (\<lambda>y. fold (\<lambda>x s.
       put_cell (of_nat ((y - 1) * VGA_WIDTH + x)) (get_cell (of_nat (y * VGA_WIDTH + x)) s) s)
       [0..<VGA_WIDTH]) [1..<VGA_HEIGHT] s"

definition clear_current_line :: "'a terminal_scheme \<Rightarrow> 'a terminal_scheme" where
  "clear_current_line s =
     fold (\<lambda>x s. put_cell (terminal_row s * of_nat VGA_WIDTH + of_nat x)
       (make_vgaentry (of_char CHR '' '') (terminal_color s)) s) [0..<VGA_WIDTH] s"

definition terminal_new_line :: "'a terminal_scheme \<Rightarrow> 'a terminal_scheme" where
  "terminal_new_line s =
     (let s = s\<lparr>terminal_column := 0\<rparr>;
          s = s\<lparr>terminal_row := terminal_row s + 1\<rparr>;
          s = (if terminal_row s = of_nat VGA_HEIGHT
               then let s = scroll_up s;
                        s = s\<lparr>terminal_row := terminal_row s - 1\<rparr>
                    in clear_current_line s
               else s)
      in terminal_movecursor (terminal_column s) (terminal_row s) s)"

definition terminal_write_char :: "u8 \<Rightarrow> 'a terminal_scheme \<Rightarrow> 'a terminal_scheme" where
  "terminal_write_char c s =
     (if c = 10 then terminal_new_line s
      else
        let index = terminal_row s * of_nat VGA_WIDTH + terminal_column s;
            s = put_cell index (make_vgaentry c (terminal_color s)) s;
            s = s\<lparr>terminal_column := terminal_column s + 1\<rparr>;
            s = (if terminal_column s = of_nat VGA_WIDTH then terminal_new_line s else s)
        in terminal_movecursor (terminal_column s) (terminal_row s) s)"

text \<open>\<^verbatim>\<open>terminal_write\<close> reads its \<^term>\<open>n\<close> bytes from memory as it goes.\<close>

definition terminal_write :: "u32 \<Rightarrow> u32 \<Rightarrow> 'a terminal_scheme \<Rightarrow> 'a terminal_scheme" where
  "terminal_write data n s =
     fold (\<lambda>i s. terminal_write_char (ram s (data + of_nat i)) s) [0..<unat n] s"

text \<open>
  The strings given to \<^verbatim>\<open>terminal_write_string\<close> are literals and local or static
  arrays; they are passed as their bytes, the terminator included.
\<close>

fun terminal_write_string :: "u8 list \<Rightarrow> 'a terminal_scheme \<Rightarrow> 'a terminal_scheme" where
  "terminal_write_string [] s = s"
| "terminal_write_string (c # data) s =
     (if c \<noteq> 0 then terminal_write_string data (terminal_write_char c s) else s)"

definition terminal_backspace :: "'a terminal_scheme \<Rightarrow> 'a terminal_scheme" where
  "terminal_backspace s =
     (if 0 < terminal_column s
      then
        let s = s\<lparr>terminal_column := terminal_column s - 1\<rparr>;
            index = terminal_row s * of_nat VGA_WIDTH + terminal_column s;
            s = put_cell index (make_vgaentry (of_char CHR '' '') (terminal_color s)) s
        in terminal_movecursor (terminal_column s) (terminal_row s) s
      else s)"

text \<open>\<^verbatim>\<open>terminal_get_size\<close>: the two values stored through its pointers.\<close>

definition terminal_get_size :: "u32 \<times> u32" where
  "terminal_get_size = (of_nat VGA_HEIGHT, of_nat VGA_WIDTH)"

subsection \<open>The buffer as a list of cells\<close>

definition cell_count :: nat where "cell_count = VGA_HEIGHT * VGA_WIDTH"

lemmas vga_size = VGA_WIDTH_def VGA_HEIGHT_def cell_count_def

definition cells :: "'a terminal_scheme \<Rightarrow> u16 list" where
  "cells s = map (\<lambda>i. get_cell (of_nat i) s) [0..<cell_count]"

lemma length_cells [simp]: "length (cells s) = cell_count"
  by (simp add: cells_def)

lemma cell_address:
  assumes "i < cell_count" and "j < cell_count"
  shows "b + 2 * of_nat i = b + 2 * of_nat j \<longleftrightarrow> i = (j :: nat)"
    and "b + 2 * of_nat i + 1 \<noteq> b + (2 * of_nat j :: u32)"
    and "in_run (b + 2 * of_nat i) b 4000" and "in_run (b + 2 * of_nat i + 1) b 4000"
proof -
  have i: "unat (2 * of_nat i :: u32) = 2 * i" and j: "unat (2 * of_nat j :: u32) = 2 * j"
    using assms unat_of_nat32 [of "2 * i"] unat_of_nat32 [of "2 * j"] by (simp_all add: vga_size)
  have i1: "unat (2 * of_nat i + 1 :: u32) = 2 * i + 1"
    using assms unat_of_nat32 [of "2 * i + 1"] by (simp add: vga_size add.commute)
  show "b + 2 * of_nat i = b + 2 * of_nat j \<longleftrightarrow> i = j"
    using i j by (metis add_left_cancel mult_left_cancel zero_neq_numeral)
  show "b + 2 * of_nat i + 1 \<noteq> b + (2 * of_nat j :: u32)"
  proof
    assume "b + 2 * of_nat i + 1 = b + (2 * of_nat j :: u32)"
    then have "2 * of_nat i + 1 = (2 * of_nat j :: u32)" by (simp add: add.assoc)
    with i1 j show False by (metis double_not_eq_Suc_double Suc_eq_plus1)
  qed
  show "in_run (b + 2 * of_nat i) b 4000" using i assms(1) by (simp add: in_run_def vga_size)
  have "b + 2 * of_nat i + 1 - b = 2 * of_nat i + (1 :: u32)" by simp
  then show "in_run (b + 2 * of_nat i + 1) b 4000"
    using i1 assms(1) by (simp only: in_run_def) (simp add: vga_size)
qed

lemma load16_store16_other:
  assumes "p \<noteq> q" and "p + 1 \<noteq> q" and "q + 1 \<noteq> p"
  shows "load16 (store16 m q v) p = load16 m p"
  using assms by (auto simp: load16_def store16_def)

lemma get_put_cell:
  assumes "i < cell_count" and "j < cell_count"
  shows "get_cell (of_nat j) (put_cell (of_nat i) v s)
    = (if i = j then v else get_cell (of_nat j) s)"
proof (cases "i = j")
  case True
  then show ?thesis by (simp add: get_cell_def put_cell_def)
next
  case False
  then show ?thesis
    using cell_address(1,2) [OF assms] cell_address(2) [OF assms(2,1)]
    by (simp add: get_cell_def put_cell_def load16_store16_other)
qed

lemma cells_put_cell:
  "i < cell_count \<Longrightarrow> cells (put_cell (of_nat i) v s) = (cells s)[i := v]"
  by (rule nth_equalityI) (auto simp: cells_def get_put_cell nth_list_update)

lemma get_cell_nth: "i < cell_count \<Longrightarrow> get_cell (of_nat i) s = cells s ! i"
  by (simp add: cells_def)

text \<open>
  An operation touches the screen only: everything but the bytes of the VGA window is
  as before.
\<close>

definition screen_only :: "'a terminal_scheme \<Rightarrow> 'a terminal_scheme \<Rightarrow> bool" where
  "screen_only s s' \<longleftrightarrow> (\<exists>m. s' = s\<lparr>ram := m\<rparr> \<and>
     (\<forall>a. \<not> in_run a (terminal_buffer s) 4000 \<longrightarrow> m a = ram s a))"

lemma screen_only_refl [simp]: "screen_only s s"
  unfolding screen_only_def by (rule exI [of _ "ram s"]) simp

lemma screen_only_trans: "screen_only s t \<Longrightarrow> screen_only t u \<Longrightarrow> screen_only s u"
  by (auto simp: screen_only_def)

lemma screen_only_fields:
  assumes "screen_only s s'"
  shows "terminal_row s' = terminal_row s" and "terminal_column s' = terminal_column s"
    and "terminal_color s' = terminal_color s" and "terminal_buffer s' = terminal_buffer s"
    and "events s' = events s"
  using assms by (auto simp: screen_only_def)

lemma screen_only_put_cell: "i < cell_count \<Longrightarrow> screen_only s (put_cell (of_nat i) v s)"
  unfolding screen_only_def put_cell_def
  by (intro exI [of _ "store16 (ram s) (terminal_buffer s + 2 * of_nat i) v"])
    (use cell_address(3,4) [of i i] in \<open>auto simp: store16_def\<close>)

text \<open>A fold of cell writes over an index range, and two nested loops over rows and columns.\<close>

lemma screen_only_fold:
  "(\<And>i s. i \<in> set is \<Longrightarrow> screen_only s (f i s)) \<Longrightarrow> screen_only s (fold f is s)"
  by (induction "is" arbitrary: s) (auto intro: screen_only_trans)

lemma fold_rows:
  "fold (\<lambda>y. fold (\<lambda>x. f (y * w + x)) [0..<w]) [0..<h] = fold f [0..<h * w]"
proof (induction h)
  case (Suc h)
  have "[0..<Suc h * w] = [0..<h * w] @ map (\<lambda>x. h * w + x) [0..<w]"
    using map_add_upt [of "h * w" w] upt_add_eq_append [of 0 "h * w" w] by (simp add: add.commute)
  with Suc show ?case by (simp add: fold_map o_def)
qed simp

lemma fold_rows_from_1:
  "fold (\<lambda>y. fold (\<lambda>x. f ((y - 1) * w + x) (y * w + x)) [0..<w]) [1..<Suc h]
    = fold (\<lambda>i. f i (i + w)) [0..<h * w]"
proof -
  have "fold (\<lambda>y. fold (\<lambda>x. f ((y - 1) * w + x) (y * w + x)) [0..<w]) (map Suc [0..<h])
      = fold (\<lambda>y. fold (\<lambda>x. f (y * w + x) (y * w + x + w)) [0..<w]) [0..<h]"
    by (simp only: fold_map o_def diff_Suc_1 mult_Suc) (simp add: ac_simps)
  then show ?thesis using fold_rows [of "\<lambda>i. f i (i + w)"] by (simp add: map_Suc_upt)
qed

subsection \<open>Clearing and scrolling\<close>

abbreviation blank :: "'a terminal_scheme \<Rightarrow> u16" where
  "blank s \<equiv> make_vgaentry (of_char CHR '' '') (terminal_color s)"

lemma cells_fill:
  assumes "k + n \<le> cell_count"
  shows "cells (fold (\<lambda>i s. put_cell (of_nat i) (blank s) s) [k..<k + n] s)
      = take k (cells s) @ replicate n (blank s) @ drop (k + n) (cells s)"
  using assms
proof (induction n)
  case (Suc n)
  let ?s = "fold (\<lambda>i s. put_cell (of_nat i) (blank s) s) [k..<k + n] s"
  have "screen_only s ?s"
    by (rule screen_only_fold, rule screen_only_put_cell) (use Suc.prems in auto)
  then have "blank ?s = blank s" by (simp add: screen_only_fields)
  moreover have kn: "k + n < cell_count" using Suc.prems by simp
  ultimately have "cells (put_cell (of_nat (k + n)) (blank ?s) ?s)
      = (take k (cells s) @ replicate n (blank s) @ drop (k + n) (cells s))[k + n := blank s]"
    using Suc.IH by (simp only: cells_put_cell)
  also have "\<dots> = take k (cells s) @ replicate (Suc n) (blank s) @ drop (Suc (k + n)) (cells s)"
    using kn Cons_nth_drop_Suc [of "k + n" "cells s", symmetric]
    by (simp add: list_update_append replicate_app_Cons_same)
  finally show ?case by simp
qed simp

lemma cells_copy_up:
  assumes "n + VGA_WIDTH \<le> cell_count"
  shows "cells (fold (\<lambda>i s. put_cell (of_nat i) (get_cell (of_nat (i + VGA_WIDTH)) s) s) [0..<n] s)
      = take n (drop VGA_WIDTH (cells s)) @ drop n (cells s)"
  using assms
proof (induction n)
  case (Suc n)
  let ?s = "fold (\<lambda>i s. put_cell (of_nat i) (get_cell (of_nat (i + VGA_WIDTH)) s) s) [0..<n] s"
  let ?cs = "take n (drop VGA_WIDTH (cells s)) @ drop n (cells s)"
  have n: "n < cell_count" "n + VGA_WIDTH < cell_count" using Suc.prems by (auto simp: VGA_WIDTH_def)
  have IH: "cells ?s = ?cs" using Suc by simp
  have "cells ?s ! (n + VGA_WIDTH) = cells s ! (n + VGA_WIDTH)"
    using n unfolding IH by (simp add: nth_append add.commute)
  then have "cells (put_cell (of_nat n) (get_cell (of_nat (n + VGA_WIDTH)) ?s) ?s)
      = ?cs[n := cells s ! (n + VGA_WIDTH)]"
    using n IH by (simp only: cells_put_cell get_cell_nth)
  also have "\<dots> = take (Suc n) (drop VGA_WIDTH (cells s)) @ drop (Suc n) (cells s)"
    using n Cons_nth_drop_Suc [of n "cells s", symmetric]
      take_Suc_conv_app_nth [of n "drop VGA_WIDTH (cells s)"]
    by (simp add: list_update_append add.commute)
  finally show ?case by simp
qed simp

lemma terminal_clear_eq:
  "terminal_clear s = fold (\<lambda>i s. put_cell (of_nat i) (blank s) s) [0..<cell_count] s"
  unfolding terminal_clear_def cell_count_def
  by (rule fun_cong [OF fold_rows])

lemma scroll_up_eq:
  "scroll_up s = fold (\<lambda>i s. put_cell (of_nat i) (get_cell (of_nat (i + VGA_WIDTH)) s) s)
     [0..<cell_count - VGA_WIDTH] s"
proof -
  have "VGA_HEIGHT = Suc 24" and "cell_count - VGA_WIDTH = 24 * VGA_WIDTH"
    by (simp_all add: vga_size)
  then show ?thesis
    unfolding scroll_up_def
    using fun_cong [OF fold_rows_from_1 [of "\<lambda>i j s. put_cell (of_nat i) (get_cell (of_nat j) s) s"
        VGA_WIDTH 24], of s]
    by (simp only:)
qed

lemma terminal_clear_screen_only: "screen_only s (terminal_clear s)"
  unfolding terminal_clear_eq by (rule screen_only_fold, rule screen_only_put_cell) simp

lemma scroll_up_screen_only: "screen_only s (scroll_up s)"
  unfolding scroll_up_eq by (rule screen_only_fold, rule screen_only_put_cell) simp

lemma cells_terminal_clear: "cells (terminal_clear s) = replicate cell_count (blank s)"
  using cells_fill [of 0 cell_count s] by (simp add: terminal_clear_eq)

lemma cells_scroll_up:
  "cells (scroll_up s) = drop VGA_WIDTH (cells s) @ drop (cell_count - VGA_WIDTH) (cells s)"
  using cells_copy_up [of "cell_count - VGA_WIDTH" s] by (simp add: scroll_up_eq vga_size)

lemma clear_current_line_cells:
  assumes "unat (terminal_row s) < VGA_HEIGHT"
  defines "k \<equiv> unat (terminal_row s) * VGA_WIDTH"
  shows "cells (clear_current_line s) =
      take k (cells s) @ replicate VGA_WIDTH (blank s) @ drop (k + VGA_WIDTH) (cells s)"
    and "screen_only s (clear_current_line s)"
proof -
  have k: "k + VGA_WIDTH \<le> cell_count" using assms by (simp add: vga_size)
  have row: "terminal_row s * of_nat VGA_WIDTH = of_nat k" by (simp add: k_def)
  define f :: "nat \<Rightarrow> 'a terminal_scheme \<Rightarrow> 'a terminal_scheme" where
    "f = (\<lambda>x s. put_cell (terminal_row s * of_nat VGA_WIDTH + of_nat x) (blank s) s)"
  define g :: "nat \<Rightarrow> 'a terminal_scheme \<Rightarrow> 'a terminal_scheme" where
    "g = (\<lambda>i s. put_cell (of_nat i) (blank s) s)"
  have only: "screen_only s (fold g [k..<k + n] s)" if "n \<le> VGA_WIDTH" for n
    unfolding g_def by (rule screen_only_fold, rule screen_only_put_cell) (use k that in auto)
  have "fold f [0..<n] s = fold g [k..<k + n] s" if "n \<le> VGA_WIDTH" for n
    using that
  proof (induction n)
    case (Suc n)
    then have "terminal_row (fold g [k..<k + n] s) = terminal_row s"
      using only [of n] by (simp add: screen_only_fields)
    with Suc show ?case by (simp add: f_def g_def row)
  qed simp
  then have "clear_current_line s = fold g [k..<k + VGA_WIDTH] s"
    by (simp add: clear_current_line_def f_def)
  then show "cells (clear_current_line s) =
      take k (cells s) @ replicate VGA_WIDTH (blank s) @ drop (k + VGA_WIDTH) (cells s)"
    and "screen_only s (clear_current_line s)"
    using cells_fill [OF k, of s] only [of VGA_WIDTH] by (simp_all add: g_def)
qed

subsection \<open>The abstract screen\<close>

text \<open>Row, column and cells; a line feed at the bottom drops the first row.\<close>

type_synonym screen = "nat \<times> nat \<times> u16 list"

fun scr_new_line :: "u16 \<Rightarrow> screen \<Rightarrow> screen" where
  "scr_new_line b (r, c, cs) =
     (if Suc r = VGA_HEIGHT then (r, 0, drop VGA_WIDTH cs @ replicate VGA_WIDTH b)
      else (Suc r, 0, cs))"

fun scr_write :: "u8 \<Rightarrow> u8 \<Rightarrow> screen \<Rightarrow> screen" where
  "scr_write color ch (r, c, cs) =
     (if ch = 10 then scr_new_line (make_vgaentry 32 color) (r, c, cs)
      else let cs' = cs[r * VGA_WIDTH + c := make_vgaentry ch color] in
        if Suc c = VGA_WIDTH then scr_new_line (make_vgaentry 32 color) (r, Suc c, cs')
        else (r, Suc c, cs'))"

definition view :: "'a terminal_scheme \<Rightarrow> screen" where
  "view s = (unat (terminal_row s), unat (terminal_column s), cells s)"

definition term_ok :: "'a terminal_scheme \<Rightarrow> bool" where
  "term_ok s \<longleftrightarrow> unat (terminal_row s) < VGA_HEIGHT \<and> unat (terminal_column s) < VGA_WIDTH"

text \<open>
  What a terminal operation may change: the two cursor fields, the bytes of the VGA
  window, and the event log by port writes appended to it.
\<close>

definition term_only :: "'a terminal_scheme \<Rightarrow> 'a terminal_scheme \<Rightarrow> bool" where
  "term_only s s' \<longleftrightarrow> (\<exists>m r c es.
     s' = s\<lparr>ram := m, terminal_row := r, terminal_column := c, events := events s @ es\<rparr> \<and>
     (\<forall>a. \<not> in_run a (terminal_buffer s) 4000 \<longrightarrow> m a = ram s a))"

lemma term_only_refl [simp]: "term_only s s"
  unfolding term_only_def
  by (rule exI [of _ "ram s"], rule exI [of _ "terminal_row s"],
      rule exI [of _ "terminal_column s"], rule exI [of _ "[]"]) simp

lemma term_only_trans: "term_only s t \<Longrightarrow> term_only t u \<Longrightarrow> term_only s u"
  unfolding term_only_def by fastforce

lemma screen_only_term_only: "screen_only s s' \<Longrightarrow> term_only s s'"
  unfolding screen_only_def term_only_def
  by (elim exE, rule_tac x = m in exI, rule exI [of _ "terminal_row s"],
      rule exI [of _ "terminal_column s"], rule exI [of _ "[]"]) simp

lemma term_only_fields:
  assumes "term_only s s'"
  shows "terminal_color s' = terminal_color s" and "terminal_buffer s' = terminal_buffer s"
    and "heap_start s' = heap_start s"
    and "\<not> in_run a (terminal_buffer s) 4000 \<Longrightarrow> ram s' a = ram s a"
  using assms by (auto simp: term_only_def)

lemma term_only_cursor [simp]:
  "term_only s (s\<lparr>terminal_row := r\<rparr>)" "term_only s (s\<lparr>terminal_column := c\<rparr>)"
proof -
  show "term_only s (s\<lparr>terminal_row := r\<rparr>)"
    unfolding term_only_def
    by (rule exI [of _ "ram s"], rule exI [of _ r], rule exI [of _ "terminal_column s"],
        rule exI [of _ "[]"]) simp
  show "term_only s (s\<lparr>terminal_column := c\<rparr>)"
    unfolding term_only_def
    by (rule exI [of _ "ram s"], rule exI [of _ "terminal_row s"], rule exI [of _ c],
        rule exI [of _ "[]"]) simp
qed

lemma terminal_movecursor_eq:
  "terminal_movecursor x y s = s\<lparr>events := events s @
     [Out 0x3D4 14, Out 0x3D5 (ucast (drop_bit 8 (ucast (y * of_nat VGA_WIDTH + x) :: u16))),
      Out 0x3D4 15, Out 0x3D5 (ucast ((ucast (y * of_nat VGA_WIDTH + x) :: u16) AND 0xFF))]\<rparr>"
  by (simp add: terminal_movecursor_def outb_def Let_def)

lemma terminal_movecursor_only [simp]: "term_only s (terminal_movecursor x y s)"
  unfolding term_only_def terminal_movecursor_eq
  by (rule exI [of _ "ram s"], rule exI [of _ "terminal_row s"],
      rule exI [of _ "terminal_column s"], rule exI) simp

lemma cells_cong:
  "ram s' = ram s \<Longrightarrow> terminal_buffer s' = terminal_buffer s \<Longrightarrow> cells s' = cells s"
  by (simp add: cells_def get_cell_def)

lemma cells_fields [simp]:
  "cells (s\<lparr>terminal_row := r\<rparr>) = cells s"
  "cells (s\<lparr>terminal_column := c\<rparr>) = cells s"
  "cells (s\<lparr>events := es\<rparr>) = cells s"
  by (rule cells_cong; simp)+

lemma terminal_new_line_view:
  assumes "unat (terminal_row s) < VGA_HEIGHT"
  shows "view (terminal_new_line s) = scr_new_line (blank s) (view s)"
    and "term_only s (terminal_new_line s)"
proof -
  let ?s1 = "s\<lparr>terminal_column := 0, terminal_row := terminal_row s + 1\<rparr>"
  have row: "unat (terminal_row s + 1) = Suc (unat (terminal_row s))"
    using assms unat_plus_nowrap [of "terminal_row s" 1] by (simp add: VGA_HEIGHT_def)
  have s1: "term_only s ?s1"
    by (rule term_only_trans [OF term_only_cursor(2) [of s 0] term_only_cursor(1)])
  have eq: "terminal_row s + 1 = of_nat VGA_HEIGHT \<longleftrightarrow> Suc (unat (terminal_row s)) = VGA_HEIGHT"
    using row by (auto simp: word_unat_eq_iff VGA_HEIGHT_def)
  show "view (terminal_new_line s) = scr_new_line (blank s) (view s)"
    and "term_only s (terminal_new_line s)"
  proof -
    let ?s2 = "scroll_up ?s1"
    let ?s3 = "?s2\<lparr>terminal_row := terminal_row ?s2 - 1\<rparr>"
    let ?s4 = "clear_current_line ?s3"
    let ?s = "if Suc (unat (terminal_row s)) = VGA_HEIGHT then ?s4 else ?s1"
    have nl: "terminal_new_line s = terminal_movecursor (terminal_column ?s) (terminal_row ?s) ?s"
      by (simp add: terminal_new_line_def Let_def eq)
    note f2 = screen_only_fields [OF scroll_up_screen_only [of ?s1]]
    have r3: "terminal_row ?s3 = terminal_row s" using f2 by simp
    then have r3': "unat (terminal_row ?s3) < VGA_HEIGHT" using assms by simp
    note clr = clear_current_line_cells [OF r3']
    note f4 = screen_only_fields [OF clr(2)]
    have only: "term_only s ?s"
      using s1 term_only_trans [OF term_only_trans [OF term_only_trans [OF s1
          screen_only_term_only [OF scroll_up_screen_only]] term_only_cursor(1)]
          screen_only_term_only [OF clr(2)]] by simp
    then show "term_only s (terminal_new_line s)"
      unfolding nl by (rule term_only_trans) simp
    have "cells ?s4 = drop VGA_WIDTH (cells s) @ replicate VGA_WIDTH (blank s)"
      if "Suc (unat (terminal_row s)) = VGA_HEIGHT"
    proof -
      have "unat (terminal_row s) * VGA_WIDTH = cell_count - VGA_WIDTH"
        using that by (simp add: vga_size)
      then show ?thesis
        using clr(1) r3 f2 by (simp add: cells_scroll_up)
    qed
    then show "view (terminal_new_line s) = scr_new_line (blank s) (view s)"
      using f2 f4 r3 row by (auto simp: nl terminal_movecursor_eq view_def)
  qed
qed

lemma index_eq:
  assumes "unat r < VGA_HEIGHT" and "unat c < VGA_WIDTH"
  shows "r * of_nat VGA_WIDTH + c = of_nat (unat r * VGA_WIDTH + unat c)"
    and "unat r * VGA_WIDTH + unat c < cell_count"
  using assms by (simp_all add: vga_size)

lemma terminal_write_char_view:
  assumes "term_ok s"
  shows "view (terminal_write_char ch s) = scr_write (terminal_color s) ch (view s)"
    and "term_ok (terminal_write_char ch s)"
    and "term_only s (terminal_write_char ch s)"
proof -
  let ?r = "terminal_row s" and ?c = "terminal_column s"
  let ?e = "make_vgaentry ch (terminal_color s)"
  let ?s1 = "put_cell (?r * of_nat VGA_WIDTH + ?c) ?e s"
  let ?s2 = "?s1\<lparr>terminal_column := ?c + 1\<rparr>"
  let ?s3 = "if Suc (unat ?c) = VGA_WIDTH then terminal_new_line ?s2 else ?s2"
  have rc: "unat ?r < VGA_HEIGHT" "unat ?c < VGA_WIDTH" using assms by (auto simp: term_ok_def)
  note idx = index_eq [OF rc]
  have s1: "screen_only s ?s1" using idx by (simp only: screen_only_put_cell)
  note f1 = screen_only_fields [OF s1]
  have cs: "cells ?s1 = (cells s)[unat ?r * VGA_WIDTH + unat ?c := ?e]"
    using idx by (simp only: cells_put_cell)
  have col: "unat (?c + 1) = Suc (unat ?c)"
    using rc unat_plus_nowrap [of ?c 1] by (simp add: VGA_WIDTH_def)
  have eq: "?c + 1 = of_nat VGA_WIDTH \<longleftrightarrow> Suc (unat ?c) = VGA_WIDTH"
    using col by (auto simp: word_unat_eq_iff VGA_WIDTH_def)
  have r2: "unat (terminal_row ?s2) < VGA_HEIGHT" using f1 rc by simp
  have s2: "term_only s ?s2"
    by (rule term_only_trans [OF screen_only_term_only [OF s1]]) simp
  have s3: "term_only s ?s3"
    using s2 term_only_trans [OF s2 terminal_new_line_view(2) [OF r2]] by simp
  have wr: "terminal_write_char ch s = (if ch = 10 then terminal_new_line s
      else terminal_movecursor (terminal_column ?s3) (terminal_row ?s3) ?s3)"
    using f1 by (simp add: terminal_write_char_def Let_def eq)
  show only: "term_only s (terminal_write_char ch s)"
    unfolding wr using terminal_new_line_view(2) [OF rc(1)] term_only_trans [OF s3] by simp
  have v2: "view ?s2 = (unat ?r, Suc (unat ?c), (cells s)[unat ?r * VGA_WIDTH + unat ?c := ?e])"
    using f1 cs col by (simp add: view_def)
  have v3: "view ?s3 = (if Suc (unat ?c) = VGA_WIDTH then scr_new_line (blank s) (view ?s2) else view ?s2)"
    using terminal_new_line_view(1) [OF r2] f1 by simp
  have move: "view (terminal_movecursor x y t) = view t" for x y t
    by (simp add: view_def terminal_movecursor_eq)
  show view: "view (terminal_write_char ch s) = scr_write (terminal_color s) ch (view s)"
    unfolding wr using terminal_new_line_view(1) [OF rc(1)] v2 v3
    by (simp add: move view_def [of s] Let_def)
  then show "term_ok (terminal_write_char ch s)"
    using rc by (auto simp: view_def term_ok_def vga_size Let_def split: if_splits)
qed

lemma terminal_backspace_view:
  assumes "term_ok s"
  shows "view (terminal_backspace s) =
      (if terminal_column s = 0 then view s
       else (unat (terminal_row s), unat (terminal_column s) - 1,
         (cells s)[unat (terminal_row s) * VGA_WIDTH + unat (terminal_column s) - 1 := blank s]))"
    and "term_ok (terminal_backspace s)"
    and "term_only s (terminal_backspace s)"
proof -
  let ?c = "terminal_column s - 1"
  let ?i = "unat (terminal_row s) * VGA_WIDTH + unat (terminal_column s) - 1"
  let ?t = "put_cell (of_nat ?i) (blank s) (s\<lparr>terminal_column := ?c\<rparr>)"
  have rc: "unat (terminal_row s) < VGA_HEIGHT" "unat (terminal_column s) < VGA_WIDTH"
    using assms by (auto simp: term_ok_def)
  have "terminal_backspace s = terminal_movecursor ?c (terminal_row s) ?t \<and> ?i < cell_count
      \<and> unat ?c = unat (terminal_column s) - 1 \<and> 0 < unat (terminal_column s)"
    if pos: "terminal_column s \<noteq> 0"
  proof -
    have c: "unat ?c = unat (terminal_column s) - 1" using unat_pred [OF pos] .
    have p: "0 < unat (terminal_column s)" using pos by (simp add: unat_gt_0)
    have c': "unat ?c < VGA_WIDTH" using c rc by simp
    have i: "?i = unat (terminal_row s) * VGA_WIDTH + unat ?c" using c p by simp
    show ?thesis
      using pos index_eq [OF rc(1) c'] c p unfolding i
      by (simp add: terminal_backspace_def Let_def word_gt_0 put_cell_def algebra_simps)
  qed note bs = this
  show view: "view (terminal_backspace s) = (if terminal_column s = 0 then view s
      else (unat (terminal_row s), unat (terminal_column s) - 1, (cells s)[?i := blank s]))"
  proof (cases "terminal_column s = 0")
    case True then show ?thesis by (simp add: terminal_backspace_def)
  next
    case False
    have i: "?i < cell_count" using bs [OF False] by blast
    have "cells ?t = (cells s)[?i := blank s]" by (simp only: cells_put_cell [OF i] cells_fields)
    moreover have "terminal_row ?t = terminal_row s" "terminal_column ?t = ?c"
      by (simp_all add: put_cell_def)
    ultimately show ?thesis
      using bs [OF False] False by (simp add: view_def terminal_movecursor_eq)
  qed
  then show "term_ok (terminal_backspace s)"
    using rc by (auto simp: view_def term_ok_def split: if_splits)
  show "term_only s (terminal_backspace s)"
  proof (cases "terminal_column s = 0")
    case True then show ?thesis by (simp add: terminal_backspace_def)
  next
    case False
    have i: "?i < cell_count" using bs [OF False] by blast
    have "term_only s ?t"
      by (rule term_only_trans [OF term_only_cursor(2)], rule screen_only_term_only,
          rule screen_only_put_cell [OF i])
    from term_only_trans [OF this terminal_movecursor_only] show ?thesis
      using bs [OF False] by (simp only:)
  qed
qed

lemma terminal_write_string_view:
  "term_ok s \<Longrightarrow>
   view (terminal_write_string data s) =
     fold (scr_write (terminal_color s)) (takeWhile (\<lambda>c. c \<noteq> 0) data) (view s) \<and>
   term_ok (terminal_write_string data s) \<and> term_only s (terminal_write_string data s)"
proof (induction data arbitrary: s)
  case (Cons c data)
  note w = terminal_write_char_view [OF Cons.prems, of c]
  from Cons.IH [OF w(2)] Cons.prems w term_only_fields(1) [OF w(3)] term_only_trans [OF w(3)]
  show ?case by auto
qed simp

subsection \<open>The hardware cursor\<close>

text \<open>
  The CRT controller as the VGA documentation describes it: port 3D4 selects a register,
  port 3D5 writes it; registers 14 and 15 are the high and low byte of the cursor.
\<close>

type_synonym crtc = "u8 \<times> u8 \<times> u8"

fun crt_step :: "event \<Rightarrow> crtc \<Rightarrow> crtc" where
  "crt_step (Out port v) (idx, hi, lo) =
     (if port = 0x3D4 then (v, hi, lo)
      else if port = 0x3D5 \<and> idx = 14 then (idx, v, lo)
      else if port = 0x3D5 \<and> idx = 15 then (idx, hi, v)
      else (idx, hi, lo))"
| "crt_step _ r = r"

definition hardware_cursor :: "event list \<Rightarrow> u16" where
  "hardware_cursor es =
     (case fold crt_step es (0, 0, 0) of (idx, hi, lo) \<Rightarrow> ucast lo OR push_bit 8 (ucast hi))"

lemma movecursor_hardware:
  "hardware_cursor (events (terminal_movecursor x y s)) = ucast (y * of_nat VGA_WIDTH + x)"
proof -
  obtain idx hi lo where r: "fold crt_step (events s) (0, 0, 0) = (idx, hi, lo)"
    by (metis prod_cases3)
  define pos :: u16 where "pos = ucast (y * of_nat VGA_WIDTH + x)"
  have "pos AND 0xFF = take_bit 8 pos" by (simp add: take_bit_eq_mask mask_eq_exp_minus_1)
  moreover have "ucast (take_bit 8 pos) = (ucast pos :: u8)"
    by (rule bit_word_eqI) (auto simp: bit_simps)
  ultimately have "ucast (pos AND 0xFF) = (ucast pos :: u8)" by simp
  then show ?thesis
    using join16 [of pos] unfolding pos_def [symmetric]
    by (simp add: hardware_cursor_def terminal_movecursor_eq r pos_def)
qed

lemma hardware_cursor_write_char:
  assumes "term_ok s"
  shows "hardware_cursor (events (terminal_write_char ch s)) =
    ucast (terminal_row (terminal_write_char ch s) * of_nat VGA_WIDTH
      + terminal_column (terminal_write_char ch s))"
proof -
  have "\<exists>t. terminal_new_line s = terminal_movecursor (terminal_column t) (terminal_row t) t"
    unfolding terminal_new_line_def Let_def by (rule exI) (rule refl)
  moreover have "\<exists>t. terminal_write_char ch s = terminal_movecursor (terminal_column t) (terminal_row t) t"
    if "ch \<noteq> 10"
    unfolding terminal_write_char_def Let_def if_not_P [OF that] by (rule exI) (rule refl)
  moreover have "terminal_write_char 10 s = terminal_new_line s"
    by (simp add: terminal_write_char_def)
  ultimately have "\<exists>t. terminal_write_char ch s = terminal_movecursor (terminal_column t) (terminal_row t) t"
    by (cases "ch = 10") simp_all
  then obtain t where t: "terminal_write_char ch s
      = terminal_movecursor (terminal_column t) (terminal_row t) t" by blast
  have "terminal_row (terminal_movecursor x y t) = terminal_row t"
    and "terminal_column (terminal_movecursor x y t) = terminal_column t" for x y
    by (simp_all add: terminal_movecursor_eq)
  then show ?thesis unfolding t by (simp add: movecursor_hardware)
qed

subsection \<open>Properties\<close>

definition blank_terminal :: terminal where
  "blank_terminal = \<lparr>ram = (\<lambda>_. 0), events = [], device = (\<lambda>_ _. 0), heap_start = 0,
     terminal_row = 0, terminal_column = 0, terminal_color = 7, terminal_buffer = VGA_MEMORY,
     is_initialized = True, total_memory = 0, free_memory = 0\<rparr>"

lemma blank_terminal_ok: "term_ok blank_terminal"
  by (simp add: term_ok_def blank_terminal_def VGA_WIDTH_def VGA_HEIGHT_def)

text \<open>
  C13. The terminal implements the abstract screen: from a state with the cursor inside the
  screen, printing a terminated string has exactly the effect of writing its characters one
  by one on the screen (wrapping at the right edge, scrolling at the bottom), and the cursor
  stays inside.
\<close>

theorem terminal_write_string_refines:
  assumes "term_ok s" and "0 \<notin> set str"
  shows "view (terminal_write_string (str @ [0]) s) =
      fold (scr_write (terminal_color s)) str (view s) \<and>
    term_ok (terminal_write_string (str @ [0]) s)"
proof -
  have "takeWhile (\<lambda>c. c \<noteq> 0) (str @ [0]) = str"
    using assms(2) by (subst takeWhile_append2) auto
  then show ?thesis using terminal_write_string_view [OF assms(1), of "str @ [0]"] by simp
qed

theorem terminal_write_string_refines_witness:
  "fst (snd (view (terminal_write_string [71, 79, 0] blank_terminal))) = 2"
proof -
  have "0 \<notin> set [71, 79 :: u8]" by simp
  from terminal_write_string_refines [OF blank_terminal_ok this] show ?thesis
    by (simp add: view_def blank_terminal_def VGA_WIDTH_def Let_def)
qed

text \<open>
  Terminal output never damages the heap: with the buffer at \<^verbatim>\<open>VGA_MEMORY\<close>, printing
  any string keeps the heap well-formed, the live blocks live and their contents unchanged.
\<close>

lemma terminal_output_spares_heap:
  assumes "term_ok s" and "terminal_buffer s = VGA_MEMORY" and "heap_live s L"
  shows "heap_live (terminal_write_string data s) L \<and>
    (\<forall>q j. (q, j) \<in> L \<longrightarrow>
      bytes_at (ram (terminal_write_string data s)) q (unat j) = bytes_at (ram s) q (unat j))"
proof -
  have only: "term_only s (terminal_write_string data s)"
    using terminal_write_string_view [OF assms(1)] by blast
  have "ram (terminal_write_string data s) x = ram s x" if "unat HEAP_START \<le> unat x" for x
  proof (rule term_only_fields(4) [OF only])
    show "\<not> in_run x (terminal_buffer s) 4000"
      using run_bounds(2) [of x VGA_MEMORY 4000] that
      by (auto simp: assms(2) VGA_MEMORY_def HEAP_START_def)
  qed
  from heap_live_above [OF assms(3) term_only_fields(3) [OF only] this] show ?thesis by blast
qed

lemma terminal_output_spares_heap_witness:
  "heap_live (terminal_write_string [71, 0] (memory_init blank_terminal)) {}"
proof -
  have "term_ok (memory_init blank_terminal)" and "terminal_buffer (memory_init blank_terminal) = VGA_MEMORY"
    by (simp_all add: term_ok_def blank_terminal_def memory_init_def VGA_WIDTH_def VGA_HEIGHT_def)
  from terminal_output_spares_heap [OF this memory_init_live] show ?thesis by blast
qed

text \<open>
  After every character the hardware cursor, as the CRT controller decodes the port
  writes, is at the cell where the next character goes.
\<close>

lemma hardware_cursor_follows:
  assumes "term_ok s"
  shows "unat (hardware_cursor (events (terminal_write_char ch s))) =
    fst (view (terminal_write_char ch s)) * VGA_WIDTH + fst (snd (view (terminal_write_char ch s)))"
proof -
  let ?t = "terminal_write_char ch s"
  have rc: "unat (terminal_row ?t) < VGA_HEIGHT" "unat (terminal_column ?t) < VGA_WIDTH"
    using terminal_write_char_view(2) [OF assms, of ch] by (auto simp: term_ok_def)
  define k where "k = unat (terminal_row ?t) * VGA_WIDTH + unat (terminal_column ?t)"
  have "k < 2 ^ 16" using index_eq(2) [OF rc] by (simp add: k_def vga_size)
  moreover have "hardware_cursor (events ?t) = ucast (of_nat k :: u32)"
    unfolding hardware_cursor_write_char [OF assms] index_eq(1) [OF rc] k_def ..
  ultimately have "unat (hardware_cursor (events ?t)) = k"
    by (simp add: unsigned_ucast_eq unat_of_nat take_bit_eq_mod)
  then show ?thesis by (simp add: view_def k_def)
qed

lemma hardware_cursor_follows_witness:
  "unat (hardware_cursor (events (terminal_write_char 65 blank_terminal))) = 1"
  using hardware_cursor_follows [OF blank_terminal_ok, of 65] terminal_write_char_view(1) [OF blank_terminal_ok, of 65]
  by (simp add: view_def blank_terminal_def VGA_WIDTH_def Let_def)

text \<open>
  A cell keeps the character and the colour for 7-bit characters; for a character from
  128 on the sign extension of \<^verbatim>\<open>char\<close> fills the attribute byte with ones, so the colour
  is lost.
\<close>

lemma make_vgaentry_bytes:
  "ucast (make_vgaentry c color) = c \<and>
   ucast (drop_bit 8 (make_vgaentry c color)) = (if c < 128 then color else 0xFF)"
proof -
  have "bit c 7 \<longleftrightarrow> odd (unat c div 128)"
    by (simp add: bit_unsigned_iff flip: bit_iff_odd [of "unat c" 7, simplified])
  moreover have "unat c < 256" using unsigned_less [of c] by simp
  then have "unat c div 128 = (if unat c < 128 then 0 else 1)"
    by (auto intro: div_nat_eqI)
  then have "odd (unat c div 128) \<longleftrightarrow> 128 \<le> unat c" by simp
  ultimately have sign: "bit c 7 \<longleftrightarrow> \<not> c < 128" by (auto simp: word_less_nat_alt)
  have "ucast (make_vgaentry c color) = c"
    by (rule bit_word_eqI) (auto simp: make_vgaentry_def bit_simps)
  moreover have "ucast (drop_bit 8 (make_vgaentry c color)) = (if bit c 7 then -1 else color)"
    by (rule bit_word_eqI) (auto simp: make_vgaentry_def bit_simps)
  moreover have "(-1 :: u8) = 0xFF" by simp
  ultimately show ?thesis using sign by simp
qed

text \<open>
  Backspace undoes a character: after a printable character that did not fill the line,
  it moves the cursor back and blanks the cell.
\<close>

lemma backspace_undoes:
  assumes "term_ok s" and "ch \<noteq> 10" and "Suc (unat (terminal_column s)) < VGA_WIDTH"
  shows "view (terminal_backspace (terminal_write_char ch s)) =
    (unat (terminal_row s), unat (terminal_column s),
     (cells s)[unat (terminal_row s) * VGA_WIDTH + unat (terminal_column s) := blank s])"
proof -
  let ?i = "unat (terminal_row s) * VGA_WIDTH + unat (terminal_column s)"
  let ?t = "terminal_write_char ch s"
  note w = terminal_write_char_view [OF assms(1), of ch]
  have "view ?t = (unat (terminal_row s), Suc (unat (terminal_column s)),
      (cells s)[?i := make_vgaentry ch (terminal_color s)])"
    unfolding w(1) using assms(2,3) by (simp add: view_def Let_def)
  then have row: "unat (terminal_row ?t) = unat (terminal_row s)"
    and col: "unat (terminal_column ?t) = Suc (unat (terminal_column s))"
    and cs: "cells ?t = (cells s)[?i := make_vgaentry ch (terminal_color s)]"
    by (simp_all add: view_def)
  have "view (terminal_backspace ?t) =
      (unat (terminal_row ?t), unat (terminal_column ?t) - 1, (cells ?t)[?i := blank ?t])"
    using terminal_backspace_view(1) [OF w(2)] row col by (simp add: unat_eq_0 [symmetric])
  then show ?thesis
    using row col cs term_only_fields(1) [OF w(3)] by simp
qed

lemma backspace_undoes_witness:
  "fst (snd (view (terminal_backspace (terminal_write_char 65 blank_terminal)))) = 0"
proof -
  have "(65 :: u8) \<noteq> 10" and "Suc (unat (terminal_column blank_terminal)) < VGA_WIDTH"
    by (simp_all add: blank_terminal_def VGA_WIDTH_def)
  from backspace_undoes [OF blank_terminal_ok this] show ?thesis
    by (simp add: blank_terminal_def)
qed

end
