(* ===== verification/Keyboard.thy ===== *)
theory Keyboard
  imports Terminal "HOL-Library.Monad_Syntax" "HOL-Library.Sublist"
begin

text \<open>
  The PS/2 keyboard driver of \<^verbatim>\<open>kernel/keyboard.cpp\<close>: the controller handshake, the
  scancode tables, the interrupt handler and the ring buffer between the handler and
  \<^verbatim>\<open>keyboard_getchar\<close>. The busy-waiting loops are partial functions in the option monad:
  \<^verbatim>\<open>None\<close> is a controller that never becomes ready. The second half shows that the ring
  buffer is a bounded queue, also when interrupts arrive between the steps of
  \<^verbatim>\<open>keyboard_getchar\<close>.
\<close>

subsection \<open>State and tables\<close>

definition KEYBOARD_BUFFER_SIZE :: nat where "KEYBOARD_BUFFER_SIZE = 256"

definition KEYBOARD_DATA_PORT :: u16 where "KEYBOARD_DATA_PORT = 0x60"
definition KEYBOARD_STATUS_PORT :: u16 where "KEYBOARD_STATUS_PORT = 0x64"
definition KEYBOARD_COMMAND_PORT :: u16 where "KEYBOARD_COMMAND_PORT = 0x64"
definition KEYBOARD_CMD_ENABLE :: u8 where "KEYBOARD_CMD_ENABLE = 0xF4"
definition KEYBOARD_CMD_RESET :: u8 where "KEYBOARD_CMD_RESET = 0xFF"

text \<open>
  The two indices start at zero and only take values \<^verbatim>\<open>(x + 1) % 256\<close>: they are
  naturals here.
\<close>

record keyboard = terminal +
  keyboard_buffer :: "u8 list"
  buffer_start :: nat
  buffer_end :: nat
  shift_pressed :: bool
  caps_lock :: bool

definition scancode_to_ascii :: "u8 list" where
  "scancode_to_ascii =
     [0, 0] @ chars ''1234567890-='' @ [8, 9] @ chars ''qwertyuiop[]'' @ [10, 0]
     @ chars ''asdfghjkl;'' @ [39] @ chars ''`'' @ [0, 92] @ chars ''zxcvbnm,./''
     @ [0] @ chars ''*'' @ [0] @ chars '' ''"

definition scancode_to_ascii_shift :: "u8 list" where
  "scancode_to_ascii_shift =
     [0, 0] @ chars ''!@#$%^&*()_+'' @ [8, 9] @ chars ''QWERTYUIOP{}'' @ [10, 0]
     @ chars ''ASDFGHJKL:'' @ [34] @ chars ''~'' @ [0] @ chars ''|ZXCVBNM<>?''
     @ [0] @ chars ''*'' @ [0] @ chars '' ''"

subsection \<open>The controller handshake\<close>

partial_function (option) keyboard_wait_input :: "'a machine_scheme \<Rightarrow> 'a machine_scheme option" where
  "keyboard_wait_input s =
     (let (v, s) = inb KEYBOARD_STATUS_PORT s in
      if v AND 2 \<noteq> 0 then keyboard_wait_input s else Some s)"

partial_function (option) keyboard_wait_output :: "'a machine_scheme \<Rightarrow> 'a machine_scheme option" where
  "keyboard_wait_output s =
     (let (v, s) = inb KEYBOARD_STATUS_PORT s in
      if v AND 1 = 0 then keyboard_wait_output s else Some s)"

definition keyboard_send_cmd :: "u8 \<Rightarrow> 'a machine_scheme \<Rightarrow> 'a machine_scheme option" where
  "keyboard_send_cmd cmd s =
     do { s \<leftarrow> keyboard_wait_input s; Some (outb KEYBOARD_COMMAND_PORT cmd s) }"

definition keyboard_read_data :: "'a machine_scheme \<Rightarrow> (u8 \<times> 'a machine_scheme) option" where
  "keyboard_read_data s =
     do { s \<leftarrow> keyboard_wait_output s; Some (inb KEYBOARD_DATA_PORT s) }"

definition keyboard_init :: "'a keyboard_scheme \<Rightarrow> 'a keyboard_scheme option" where
  "keyboard_init s =
     do {
       s \<leftarrow> keyboard_send_cmd KEYBOARD_CMD_RESET s;
       (v, s) \<leftarrow> keyboard_read_data s;
       if v \<noteq> 0xFA then Some s
       else do {
         s \<leftarrow> keyboard_send_cmd KEYBOARD_CMD_ENABLE s;
         (v, s) \<leftarrow> keyboard_read_data s;
         if v \<noteq> 0xFA then Some s
         else Some (s\<lparr>buffer_start := 0, buffer_end := 0,
                      shift_pressed := False, caps_lock := False\<rparr>)
       }
     }"

subsection \<open>The interrupt handler and the readers\<close>

text \<open>Lines 115 to 119 of the handler: the producer's end of the ring.\<close>

definition buffer_put :: "u8 \<Rightarrow> 'a keyboard_scheme \<Rightarrow> 'a keyboard_scheme" where
  "buffer_put c s =
     (let next_end = (buffer_end s + 1) mod KEYBOARD_BUFFER_SIZE in
      if next_end \<noteq> buffer_start s
      then s\<lparr>keyboard_buffer := (keyboard_buffer s)[buffer_end s := c], buffer_end := next_end\<rparr>
      else s)"

definition keyboard_handler :: "'a keyboard_scheme \<Rightarrow> 'a keyboard_scheme" where
  "keyboard_handler s =
     (let (scancode, s) = inb KEYBOARD_DATA_PORT s in
      if scancode = 0x2A \<or> scancode = 0x36 then s\<lparr>shift_pressed := True\<rparr>
      else if scancode = (0x2A OR 0x80) \<or> scancode = (0x36 OR 0x80)
        then s\<lparr>shift_pressed := False\<rparr>
      else if scancode = 0x3A then s\<lparr>caps_lock := \<not> caps_lock s\<rparr>
      else if scancode AND 0x80 \<noteq> 0 then s
      else if unat scancode < length scancode_to_ascii then
        let c = (if shift_pressed s then scancode_to_ascii_shift ! unat scancode
                 else scancode_to_ascii ! unat scancode);
            c = (if caps_lock s \<and>
                    (sint (of_char CHR ''a'' :: u8) \<le> sint c \<and> sint c \<le> sint (of_char CHR ''z'' :: u8) \<or>
                     sint (of_char CHR ''A'' :: u8) \<le> sint c \<and> sint c \<le> sint (of_char CHR ''Z'' :: u8))
                 then c XOR 0x20 else c)
        in if c \<noteq> 0 then buffer_put c s else s
      else s)"

definition keyboard_getchar :: "'a keyboard_scheme \<Rightarrow> u8 \<times> 'a keyboard_scheme" where
  "keyboard_getchar s =
     (if buffer_start s = buffer_end s then (0, s)
      else
        let c = keyboard_buffer s ! buffer_start s
        in (c, s\<lparr>buffer_start := (buffer_start s + 1) mod KEYBOARD_BUFFER_SIZE\<rparr>))"

definition keyboard_available :: "'a keyboard_scheme \<Rightarrow> bool" where
  "keyboard_available s \<longleftrightarrow> buffer_start s \<noteq> buffer_end s"

definition keyboard_clear_buffer :: "'a keyboard_scheme \<Rightarrow> 'a keyboard_scheme" where
  "keyboard_clear_buffer s = s\<lparr>buffer_end := 0, buffer_start := 0\<rparr>"

subsection \<open>The ring buffer as a queue\<close>

definition ring_length :: "nat \<Rightarrow> nat \<Rightarrow> nat" where
  "ring_length first end' =
     (end' + KEYBOARD_BUFFER_SIZE - first) mod KEYBOARD_BUFFER_SIZE"

definition ring_contents :: "u8 list \<Rightarrow> nat \<Rightarrow> nat \<Rightarrow> u8 list" where
  "ring_contents buf first end' =
     map (\<lambda>i. buf ! ((first + i) mod KEYBOARD_BUFFER_SIZE)) [0..<ring_length first end']"

definition kb_queue :: "'a keyboard_scheme \<Rightarrow> u8 list" where
  "kb_queue s = ring_contents (keyboard_buffer s) (buffer_start s) (buffer_end s)"

text \<open>The capacity of the queue: one slot stays free to tell full from empty.\<close>

definition kb_capacity :: nat where "kb_capacity = KEYBOARD_BUFFER_SIZE - 1"

definition kb_ok :: "'a keyboard_scheme \<Rightarrow> bool" where
  "kb_ok s \<longleftrightarrow> length (keyboard_buffer s) = KEYBOARD_BUFFER_SIZE \<and>
     buffer_start s < KEYBOARD_BUFFER_SIZE \<and> buffer_end s < KEYBOARD_BUFFER_SIZE \<and>
     0 \<notin> set (kb_queue s)"

lemma ring_length_split:
  assumes "i < KEYBOARD_BUFFER_SIZE" and "j < KEYBOARD_BUFFER_SIZE"
  shows "ring_length i j = (if i \<le> j then j - i else j + KEYBOARD_BUFFER_SIZE - i)"
  using assms by (auto simp: ring_length_def mod_if)

lemma length_ring_contents [simp]: "length (ring_contents buf i j) = ring_length i j"
  by (simp add: ring_contents_def)

lemma ring_length_bound: "ring_length i j \<le> kb_capacity"
  unfolding ring_length_def kb_capacity_def KEYBOARD_BUFFER_SIZE_def
  using mod_less_divisor [of 256 "j + 256 - i"] by linarith

lemma ring_contents_empty [simp]: "ring_contents buf i i = []"
  by (simp add: ring_contents_def ring_length_def)

lemma next_index:
  "i < KEYBOARD_BUFFER_SIZE \<Longrightarrow>
   Suc i mod KEYBOARD_BUFFER_SIZE = (if Suc i = KEYBOARD_BUFFER_SIZE then 0 else Suc i)"
  by simp

lemma wrap_index:
  "i < KEYBOARD_BUFFER_SIZE \<Longrightarrow> k < KEYBOARD_BUFFER_SIZE \<Longrightarrow>
   (i + k) mod KEYBOARD_BUFFER_SIZE =
     (if i + k < KEYBOARD_BUFFER_SIZE then i + k else i + k - KEYBOARD_BUFFER_SIZE)"
  by (simp add: le_mod_geq)

lemma ring_length_less: "ring_length i j < KEYBOARD_BUFFER_SIZE"
  by (simp add: ring_length_def KEYBOARD_BUFFER_SIZE_def)

lemma ring_put:
  assumes "length buf = KEYBOARD_BUFFER_SIZE" and "i < KEYBOARD_BUFFER_SIZE"
    and "j < KEYBOARD_BUFFER_SIZE" and "(j + 1) mod KEYBOARD_BUFFER_SIZE \<noteq> i"
  shows "ring_contents (buf[j := c]) i ((j + 1) mod KEYBOARD_BUFFER_SIZE) = ring_contents buf i j @ [c]"
proof -
  let ?n = "ring_length i j"
  have N: "(j + 1) mod KEYBOARD_BUFFER_SIZE < KEYBOARD_BUFFER_SIZE"
    by (simp add: KEYBOARD_BUFFER_SIZE_def)
  have len: "ring_length i ((j + 1) mod KEYBOARD_BUFFER_SIZE) = Suc ?n"
    unfolding ring_length_split [OF assms(2) N] ring_length_split [OF assms(2,3)]
    using assms(2-4) by (auto simp: next_index split: if_splits)
  have last_slot: "(i + ?n) mod KEYBOARD_BUFFER_SIZE = j"
    unfolding wrap_index [OF assms(2) ring_length_less]
    using assms(2,3) by (auto simp: ring_length_split [OF assms(2,3)])
  have other: "j \<noteq> (i + k) mod KEYBOARD_BUFFER_SIZE" if k: "k < ?n" for k
  proof -
    have "k < KEYBOARD_BUFFER_SIZE" using k ring_length_less [of i j] by simp
    from wrap_index [OF assms(2) this] k assms(2,3) show ?thesis
      unfolding ring_length_split [OF assms(2,3)] by (auto split: if_splits)
  qed
  show ?thesis
    unfolding ring_contents_def len
    using last_slot other assms(1,3) by simp
qed

lemma ring_take:
  assumes "i < KEYBOARD_BUFFER_SIZE" and "j < KEYBOARD_BUFFER_SIZE" and "i \<noteq> j"
  shows "ring_contents buf i j
    = buf ! i # ring_contents buf ((i + 1) mod KEYBOARD_BUFFER_SIZE) j"
proof -
  have N: "(i + 1) mod KEYBOARD_BUFFER_SIZE < KEYBOARD_BUFFER_SIZE"
    by (simp add: KEYBOARD_BUFFER_SIZE_def)
  have len: "ring_length i j = Suc (ring_length ((i + 1) mod KEYBOARD_BUFFER_SIZE) j)"
    unfolding ring_length_split [OF N assms(2)] ring_length_split [OF assms(1,2)]
    using assms by (auto simp: next_index split: if_splits)
  have "[0..<Suc n] = 0 # map Suc [0..<n]" for n
    by (metis map_Suc_upt upt_conv_Cons zero_less_Suc)
  moreover have "((i + 1) mod KEYBOARD_BUFFER_SIZE + k) mod KEYBOARD_BUFFER_SIZE
      = (i + Suc k) mod KEYBOARD_BUFFER_SIZE" for k
    by (simp add: mod_add_left_eq)
  ultimately show ?thesis
    unfolding ring_contents_def len using assms(1) by simp
qed

lemma buffer_put_queue:
  assumes "kb_ok s"
  shows "kb_queue (buffer_put c s) =
      (if length (kb_queue s) < kb_capacity then kb_queue s @ [c] else kb_queue s)"
proof -
  have ok: "length (keyboard_buffer s) = KEYBOARD_BUFFER_SIZE"
    "buffer_start s < KEYBOARD_BUFFER_SIZE" "buffer_end s < KEYBOARD_BUFFER_SIZE"
    using assms by (simp_all add: kb_ok_def)
  have "length (kb_queue s) < kb_capacity \<longleftrightarrow>
      (buffer_end s + 1) mod KEYBOARD_BUFFER_SIZE \<noteq> buffer_start s"
    using ok(2,3) unfolding kb_queue_def length_ring_contents ring_length_split [OF ok(2,3)]
    by (auto simp: next_index kb_capacity_def split: if_splits)
  then show ?thesis
    using ring_put [OF ok] by (simp add: buffer_put_def kb_queue_def Let_def)
qed

lemma buffer_put_ok: "kb_ok s \<Longrightarrow> c \<noteq> 0 \<Longrightarrow> kb_ok (buffer_put c s)"
proof -
  assume ok: "kb_ok s" and c: "c \<noteq> 0"
  have "0 \<notin> set (kb_queue (buffer_put c s))"
    unfolding buffer_put_queue [OF ok] using ok c by (simp add: kb_ok_def)
  then show "kb_ok (buffer_put c s)"
    using ok by (simp add: kb_ok_def buffer_put_def Let_def KEYBOARD_BUFFER_SIZE_def)
qed

lemma keyboard_getchar_empty:
  assumes "kb_ok s"
  shows "kb_queue s = [] \<longleftrightarrow> buffer_start s = buffer_end s"
  using assms ring_take [of "buffer_start s" "buffer_end s" "keyboard_buffer s"]
  by (cases "buffer_start s = buffer_end s") (auto simp: kb_ok_def kb_queue_def)

lemma keyboard_getchar_queue:
  assumes "kb_ok s"
  shows "kb_queue s = [] \<Longrightarrow> keyboard_getchar s = (0, s)"
    and "kb_queue s = c # cs \<Longrightarrow>
      fst (keyboard_getchar s) = c \<and> kb_queue (snd (keyboard_getchar s)) = cs"
    and "kb_ok (snd (keyboard_getchar s))"
proof -
  show "keyboard_getchar s = (0, s)" if "kb_queue s = []"
    using that keyboard_getchar_empty [OF assms] by (simp add: keyboard_getchar_def)
  have take: "fst (keyboard_getchar s) = c \<and> kb_queue (snd (keyboard_getchar s)) = cs"
    if "kb_queue s = c # cs" for c cs
  proof -
    have "buffer_start s \<noteq> buffer_end s" using that keyboard_getchar_empty [OF assms] by simp
    then show ?thesis
      using that assms ring_take [of "buffer_start s" "buffer_end s" "keyboard_buffer s"]
      by (simp add: keyboard_getchar_def kb_queue_def kb_ok_def Let_def)
  qed
  then show "fst (keyboard_getchar s) = c \<and> kb_queue (snd (keyboard_getchar s)) = cs"
    if "kb_queue s = c # cs" using that .
  show "kb_ok (snd (keyboard_getchar s))"
  proof (cases "kb_queue s")
    case Nil
    then show ?thesis
      using assms keyboard_getchar_empty [OF assms] by (simp add: keyboard_getchar_def)
  next
    case (Cons c cs)
    then have "0 \<notin> set (kb_queue (snd (keyboard_getchar s)))"
      using take [OF Cons] assms by (simp add: kb_ok_def)
    then show ?thesis
      using assms by (simp add: kb_ok_def keyboard_getchar_def Let_def KEYBOARD_BUFFER_SIZE_def)
  qed
qed

subsection \<open>Bounded queues\<close>

text \<open>
  The contract between the producer and the consumer of a bounded queue, and what a client
  gets from it: over any sequence of operations nothing is reordered, duplicated or made up,
  and nothing is lost while the total fits the capacity.
\<close>

datatype 'e qop = Put 'e | Get

fun puts :: "'e qop list \<Rightarrow> 'e list" where
  "puts [] = []"
| "puts (Put e # ops) = e # puts ops"
| "puts (Get # ops) = puts ops"

fun run_ops ::
  "('e \<Rightarrow> 's \<Rightarrow> 's) \<Rightarrow> ('s \<Rightarrow> 'e \<times> 's) \<Rightarrow> ('s \<Rightarrow> bool) \<Rightarrow> 'e qop list \<Rightarrow> 's \<Rightarrow> 'e list \<times> 's" where
  "run_ops put get avail [] s = ([], s)"
| "run_ops put get avail (Put e # ops) s = run_ops put get avail ops (put e s)"
| "run_ops put get avail (Get # ops) s =
     (if avail s
      then let (e, s1) = get s; (out, s2) = run_ops put get avail ops s1 in (e # out, s2)
      else run_ops put get avail ops s)"

locale bounded_queue =
  fixes put :: "'e \<Rightarrow> 's \<Rightarrow> 's" and get :: "'s \<Rightarrow> 'e \<times> 's" and avail :: "'s \<Rightarrow> bool"
    and inv :: "'s \<Rightarrow> bool" and valid :: "'e \<Rightarrow> bool"
    and contents :: "'s \<Rightarrow> 'e list" and capacity :: nat
  assumes put_inv: "inv s \<Longrightarrow> valid e \<Longrightarrow> inv (put e s)"
    and put_contents: "inv s \<Longrightarrow> valid e \<Longrightarrow> contents (put e s) =
      (if length (contents s) < capacity then contents s @ [e] else contents s)"
    and avail_iff: "inv s \<Longrightarrow> avail s \<longleftrightarrow> contents s \<noteq> []"
    and get_inv: "inv s \<Longrightarrow> avail s \<Longrightarrow> inv (snd (get s))"
    and get_contents: "inv s \<Longrightarrow> contents s = e # es \<Longrightarrow>
      fst (get s) = e \<and> contents (snd (get s)) = es"
begin

lemma run_fifo:
  assumes "inv s" and "\<forall>e \<in> set (puts ops). valid e"
  shows "\<exists>acc. subseq acc (puts ops) \<and>
    (length (contents s) + length (puts ops) \<le> capacity \<longrightarrow> acc = puts ops) \<and>
    fst (run_ops put get avail ops s) @ contents (snd (run_ops put get avail ops s))
      = contents s @ acc \<and>
    inv (snd (run_ops put get avail ops s))"
  using assms
proof (induction ops arbitrary: s)
  case Nil
  then show ?case by (intro exI [of _ "[]"]) simp
next
  case (Cons op ops)
  show ?case
  proof (cases op)
    case (Put e)
    note p = put_inv [OF Cons.prems(1)] put_contents [OF Cons.prems(1)]
    from Put Cons.prems(2) have v: "valid e" "\<forall>e \<in> set (puts ops). valid e" by auto
    from Cons.IH [OF p(1) [OF v(1)] v(2)] obtain acc where acc:
      "subseq acc (puts ops)"
      "length (contents (put e s)) + length (puts ops) \<le> capacity \<longrightarrow> acc = puts ops"
      "fst (run_ops put get avail ops (put e s)) @ contents (snd (run_ops put get avail ops (put e s)))
        = contents (put e s) @ acc"
      "inv (snd (run_ops put get avail ops (put e s)))" by blast
    then show ?thesis
      using Put p(2) [OF v(1)] list_emb_Cons [OF acc(1), of e]
      by (intro exI [of _ "if length (contents s) < capacity then e # acc else acc"]) auto
  next
    case Get
    then have v: "\<forall>e \<in> set (puts ops). valid e" using Cons.prems(2) by simp
    show ?thesis
    proof (cases "contents s")
      case Nil
      with Cons.IH [OF Cons.prems(1) v] avail_iff [OF Cons.prems(1)] Get show ?thesis by simp
    next
      case (Cons e es)
      have a: "avail s" using avail_iff [OF Cons.prems(1)] Cons by simp
      note g = get_inv [OF Cons.prems(1) a] get_contents [OF Cons.prems(1) Cons]
      from Cons.IH [OF g(1) v] obtain acc where
        "subseq acc (puts ops)"
        "length es + length (puts ops) \<le> capacity \<longrightarrow> acc = puts ops"
        "fst (run_ops put get avail ops (snd (get s)))
          @ contents (snd (run_ops put get avail ops (snd (get s)))) = es @ acc"
        "inv (snd (run_ops put get avail ops (snd (get s))))" using g(2) by auto
      then show ?thesis
        using Get a g(2) Cons
        by (intro exI [of _ acc]) (auto simp: split_beta Let_def)
    qed
  qed
qed

end

interpretation ring: bounded_queue buffer_put keyboard_getchar keyboard_available
  kb_ok "\<lambda>c. c \<noteq> 0" kb_queue kb_capacity
proof
  fix s :: "'a keyboard_scheme" and c :: u8
  assume ok: "kb_ok s"
  show "c \<noteq> 0 \<Longrightarrow> kb_ok (buffer_put c s)" using buffer_put_ok [OF ok] .
  show "kb_queue (buffer_put c s) =
      (if length (kb_queue s) < kb_capacity then kb_queue s @ [c] else kb_queue s)"
    by (rule buffer_put_queue [OF ok])
  show "keyboard_available s \<longleftrightarrow> kb_queue s \<noteq> []"
    using keyboard_getchar_empty [OF ok] by (simp add: keyboard_available_def)
  show "kb_ok (snd (keyboard_getchar s))" by (rule keyboard_getchar_queue(3) [OF ok])
  show "fst (keyboard_getchar s) = e \<and> kb_queue (snd (keyboard_getchar s)) = es"
    if "kb_queue s = e # es" for e es
    using keyboard_getchar_queue(2) [OF ok that] .
qed

subsection \<open>Key presses\<close>

text \<open>
  What a key press means: a letter key gives the capital when exactly one of shift and caps
  lock is on, any other key the character of the shifted or the plain table.
\<close>

definition is_lower :: "u8 \<Rightarrow> bool" where "is_lower c \<longleftrightarrow> 97 \<le> c \<and> c \<le> 122"

definition key_char :: "bool \<Rightarrow> bool \<Rightarrow> u8 \<Rightarrow> u8" where
  "key_char shift caps v =
     (let c = scancode_to_ascii ! unat v in
      if is_lower c then (if shift \<noteq> caps then c - 32 else c)
      else if shift then scancode_to_ascii_shift ! unat v else c)"

type_synonym kbd = "bool \<times> bool \<times> u8 list"

fun key_press :: "u8 \<Rightarrow> kbd \<Rightarrow> kbd" where
  "key_press v (shift, caps, q) =
     (if v \<in> {0x2A, 0x36} then (True, caps, q)
      else if v \<in> {0xAA, 0xB6} then (False, caps, q)
      else if v = 0x3A then (shift, \<not> caps, q)
      else if unat v < 58 \<and> key_char shift caps v \<noteq> 0 \<and> length q < kb_capacity
        then (shift, caps, q @ [key_char shift caps v])
      else (shift, caps, q))"

definition kbd_view :: "'a keyboard_scheme \<Rightarrow> kbd" where
  "kbd_view s = (shift_pressed s, caps_lock s, kb_queue s)"

definition handler_char :: "bool \<Rightarrow> bool \<Rightarrow> u8 \<Rightarrow> u8" where
  "handler_char shift caps v =
     (let c = (if shift then scancode_to_ascii_shift ! unat v else scancode_to_ascii ! unat v) in
      if caps \<and> (sint (of_char CHR ''a'' :: u8) \<le> sint c \<and> sint c \<le> sint (of_char CHR ''z'' :: u8) \<or>
                  sint (of_char CHR ''A'' :: u8) \<le> sint c \<and> sint c \<le> sint (of_char CHR ''Z'' :: u8))
      then c XOR 0x20 else c)"

lemma length_scancode_tables [simp]:
  "length scancode_to_ascii = 58" "length scancode_to_ascii_shift = 58"
  by (simp_all add: scancode_to_ascii_def scancode_to_ascii_shift_def)

text \<open>The two tables agree up to case on letters, checked entry by entry.\<close>

lemma table_case:
  "list_all2 (\<lambda>a b. a < 128 \<and> b < 128 \<and> (if is_lower a then b = a - 32 else
      \<not> (65 \<le> a \<and> a \<le> 90) \<and> \<not> is_lower b \<and> \<not> (65 \<le> b \<and> b \<le> 90)))
    scancode_to_ascii scancode_to_ascii_shift"
  by (simp add: scancode_to_ascii_def scancode_to_ascii_shift_def is_lower_def)

lemma lower_cases: "is_lower c \<Longrightarrow> c \<in> set (map of_nat [97..<123])"
  unfolding is_lower_def set_map set_upt
  by (rule image_eqI [of _ _ "unat c"]) (simp_all add: word_le_nat_alt)
lemma toggle_case:
  assumes "is_lower c"
  shows "c XOR 0x20 = c - 32" and "(c - 32) XOR 0x20 = c"
proof -
  have "\<forall>c \<in> set (map of_nat [97..<123]). (c :: u8) XOR 0x20 = c - 32 \<and> (c - 32) XOR 0x20 = c"
    by simp
  with lower_cases [OF assms] show "c XOR 0x20 = c - 32" and "(c - 32) XOR 0x20 = c" by blast+
qed

lemma sint_7bit: "c < 128 \<Longrightarrow> sint (c :: u8) = uint c"
proof -
  assume "c < 128"
  then have "uint c < 2 ^ 7" by (simp add: word_less_def)
  moreover have "- (2 ^ 7) \<le> uint c" by (rule order_trans [OF _ uint_ge_0]) simp
  ultimately show ?thesis unfolding sint_uint using signed_take_bit_int_eq_self [of 7 "uint c"] by simp
qed

lemma handler_char_eq:
  assumes "unat v < 58"
  shows "handler_char shift caps v = key_char shift caps v"
proof -
  let ?a = "scancode_to_ascii ! unat v" and ?b = "scancode_to_ascii_shift ! unat v"
  have t: "?a < 128 \<and> ?b < 128 \<and> (if is_lower ?a then ?b = ?a - 32 else
      \<not> (65 \<le> ?a \<and> ?a \<le> 90) \<and> \<not> is_lower ?b \<and> \<not> (65 \<le> ?b \<and> ?b \<le> 90))"
    using list_all2_nthD [OF table_case, of "unat v"] assms by simp
  have letter: "65 \<le> ?a - 32 \<and> ?a - 32 \<le> 90" if "is_lower ?a"
  proof -
    have "32 \<le> ?a" using that unfolding is_lower_def by (simp add: word_le_nat_alt)
    then show ?thesis using that unfolding is_lower_def
      by (auto simp: word_le_nat_alt unat_sub)
  qed
  have range: "(sint (of_char CHR ''a'' :: u8) \<le> sint c \<and> sint c \<le> sint (of_char CHR ''z'' :: u8) \<or>
      sint (of_char CHR ''A'' :: u8) \<le> sint c \<and> sint c \<le> sint (of_char CHR ''Z'' :: u8))
      \<longleftrightarrow> is_lower c \<or> 65 \<le> c \<and> c \<le> 90" if "c < 128" for c
    using that by (simp add: sint_7bit is_lower_def word_le_def)
  show ?thesis
    using t letter toggle_case [of ?a] range [of ?a] range [of ?b]
    unfolding handler_char_def key_char_def
    by (cases "is_lower ?a"; cases shift; cases caps) (auto simp: Let_def)
qed
lemma keyboard_handler_view:
  assumes "kb_ok s"
  shows "kbd_view (keyboard_handler s) =
      key_press (device s (events s) KEYBOARD_DATA_PORT) (kbd_view s)"
    and "kb_ok (keyboard_handler s)"
proof -
  define v where "v = device s (events s) KEYBOARD_DATA_PORT"
  define s1 where "s1 = s\<lparr>events := events s @ [In KEYBOARD_DATA_PORT v]\<rparr>"
  have s1: "kbd_view s1 = kbd_view s" "kb_ok s1"
    using assms by (simp_all add: s1_def kbd_view_def kb_queue_def kb_ok_def)
  let ?c = "handler_char (shift_pressed s1) (caps_lock s1) v"
  have h: "keyboard_handler s =
      (if v = 0x2A \<or> v = 0x36 then s1\<lparr>shift_pressed := True\<rparr>
       else if v = 0xAA \<or> v = 0xB6 then s1\<lparr>shift_pressed := False\<rparr>
       else if v = 0x3A then s1\<lparr>caps_lock := \<not> caps_lock s1\<rparr>
       else if v AND 0x80 \<noteq> 0 then s1
       else if unat v < 58 then if ?c \<noteq> 0 then buffer_put ?c s1 else s1
       else s1)"
    by (simp add: keyboard_handler_def inb_def Let_def s1_def v_def handler_char_def)
  have high: "v AND 0x80 = 0" if "unat v < 58"
  proof -
    have "bit v 7 \<longleftrightarrow> odd (unat v div 128)"
      by (simp add: bit_unsigned_iff flip: bit_iff_odd [of "unat v" 7, simplified])
    then show ?thesis using that and_exp_eq_0_iff_not_bit [of v 7] by simp
  qed
  have put: "kbd_view (buffer_put c s1) = (shift_pressed s1, caps_lock s1, kb_queue (buffer_put c s1))" for c
    by (simp add: kbd_view_def buffer_put_def Let_def)
  have v1: "kbd_view s = (shift_pressed s1, caps_lock s1, kb_queue s1)"
    using s1(1) by (simp add: kbd_view_def)
  have upd: "kb_queue (s1\<lparr>shift_pressed := b\<rparr>) = kb_queue s1"
    "kb_queue (s1\<lparr>caps_lock := b\<rparr>) = kb_queue s1" for b
    by (simp_all add: kb_queue_def)
  show "kbd_view (keyboard_handler s) = key_press v (kbd_view s)"
    unfolding v1 h using high handler_char_eq [of v "shift_pressed s1" "caps_lock s1"]
      buffer_put_queue [OF s1(2)]
    by (auto simp: put upd) (auto simp: kbd_view_def kb_queue_def)
  show "kb_ok (keyboard_handler s)"
    unfolding h using s1(2) buffer_put_ok [OF s1(2)] by (simp add: kb_ok_def upd)
qed

subsection \<open>Polling\<close>

text \<open>The state after a number of status reads, and the status that the next read gives.\<close>

definition after_polls :: "nat \<Rightarrow> 'a machine_scheme \<Rightarrow> 'a machine_scheme" where
  "after_polls n s = ((\<lambda>s. snd (inb KEYBOARD_STATUS_PORT s)) ^^ n) s"

definition next_status :: "'a machine_scheme \<Rightarrow> u8" where
  "next_status s = fst (inb KEYBOARD_STATUS_PORT s)"

lemma after_polls_0 [simp]: "after_polls 0 s = s"
  by (simp add: after_polls_def)

lemma after_polls_Suc: "after_polls (Suc n) s = after_polls n (snd (inb KEYBOARD_STATUS_PORT s))"
  by (simp add: after_polls_def funpow_Suc_right del: funpow.simps)

text \<open>Both loops have this shape; it returns exactly when some status read is good.\<close>

lemma poll_loop:
  assumes unfold: "\<And>s. loop s = (if good (next_status s)
      then Some (snd (inb KEYBOARD_STATUS_PORT s)) else loop (snd (inb KEYBOARD_STATUS_PORT s)))"
    and "good (next_status (after_polls n s))"
    and "\<forall>k<n. \<not> good (next_status (after_polls k s))"
  shows "loop s = Some (after_polls (Suc n) s)"
  using assms(2,3)
proof (induction n arbitrary: s)
  case 0
  then show ?case by (simp add: unfold [of s] after_polls_Suc)
next
  case (Suc n)
  have "\<not> good (next_status s)" using Suc.prems(2) by (metis after_polls_0 zero_less_Suc)
  then have "loop s = loop (snd (inb KEYBOARD_STATUS_PORT s))" by (simp add: unfold [of s])
  also have "\<dots> = Some (after_polls (Suc n) (snd (inb KEYBOARD_STATUS_PORT s)))"
    using Suc.prems by (intro Suc.IH) (auto simp: after_polls_Suc)
  finally show ?case by (simp add: after_polls_Suc)
qed

lemma poll_loop_least:
  assumes "\<And>s. loop s = (if good (next_status s)
      then Some (snd (inb KEYBOARD_STATUS_PORT s)) else loop (snd (inb KEYBOARD_STATUS_PORT s)))"
    and "\<exists>n. good (next_status (after_polls n s))"
  shows "loop s = Some (after_polls (Suc (LEAST n. good (next_status (after_polls n s)))) s)"
  by (rule poll_loop [OF assms(1) LeastI_ex [OF assms(2)]]) (auto dest: not_less_Least)

lemma wait_input_unfold:
  "keyboard_wait_input s = (if next_status s AND 2 = 0
     then Some (snd (inb KEYBOARD_STATUS_PORT s)) else keyboard_wait_input (snd (inb KEYBOARD_STATUS_PORT s)))"
  by (subst keyboard_wait_input.simps) (simp add: next_status_def split_beta)

lemma wait_output_unfold:
  "keyboard_wait_output s = (if next_status s AND 1 \<noteq> 0
     then Some (snd (inb KEYBOARD_STATUS_PORT s)) else keyboard_wait_output (snd (inb KEYBOARD_STATUS_PORT s)))"
  by (subst keyboard_wait_output.simps) (simp add: next_status_def split_beta)

lemma wait_input_returns:
  assumes "keyboard_wait_input s = Some s'"
  shows "\<exists>n. next_status (after_polls n s) AND 2 = 0"
proof (rule keyboard_wait_input.raw_induct [where P = "\<lambda>s s'. \<exists>n. next_status (after_polls n s) AND 2 = 0", OF _ assms])
  fix wait :: "'a machine_scheme \<Rightarrow> 'a machine_scheme option" and s s'
  assume IH: "\<And>s s'. wait s = Some s' \<Longrightarrow> \<exists>n. next_status (after_polls n s) AND 2 = 0"
    and step: "(let (v, s) = inb KEYBOARD_STATUS_PORT s in
      if v AND 2 \<noteq> 0 then wait s else Some s) = Some s'"
  show "\<exists>n. next_status (after_polls n s) AND 2 = 0"
  proof (cases "next_status s AND 2 = 0")
    case True
    then show ?thesis by (intro exI [of _ 0]) simp
  next
    case False
    then have "wait (snd (inb KEYBOARD_STATUS_PORT s)) = Some s'"
      using step by (simp add: next_status_def split_beta)
    from IH [OF this] show ?thesis by (metis after_polls_Suc)
  qed
qed
lemma wait_output_returns:
  assumes "keyboard_wait_output s = Some s'"
  shows "\<exists>n. next_status (after_polls n s) AND 1 \<noteq> 0"
proof (rule keyboard_wait_output.raw_induct [where P = "\<lambda>s s'. \<exists>n. next_status (after_polls n s) AND 1 \<noteq> 0", OF _ assms])
  fix wait :: "'a machine_scheme \<Rightarrow> 'a machine_scheme option" and s s'
  assume IH: "\<And>s s'. wait s = Some s' \<Longrightarrow> \<exists>n. next_status (after_polls n s) AND 1 \<noteq> 0"
    and step: "(let (v, s) = inb KEYBOARD_STATUS_PORT s in
      if v AND 1 = 0 then wait s else Some s) = Some s'"
  show "\<exists>n. next_status (after_polls n s) AND 1 \<noteq> 0"
  proof (cases "next_status s AND 1 \<noteq> 0")
    case True
    then show ?thesis by (intro exI [of _ 0]) simp
  next
    case False
    then have "wait (snd (inb KEYBOARD_STATUS_PORT s)) = Some s'"
      using step by (simp add: next_status_def split_beta)
    from IH [OF this] show ?thesis by (metis after_polls_Suc)
  qed
qed
subsection \<open>Interrupts between the steps of \<^verbatim>\<open>keyboard_getchar\<close>\<close>

text \<open>
  \<^verbatim>\<open>keyboard_getchar\<close> runs with interrupts enabled; the handler runs with interrupts off
  (the stubs start with \<^verbatim>\<open>cli\<close>), so it is one step. The program counter of the reader says
  which of its shared accesses come next. The configuration also records the characters
  delivered to the caller and those the handler stored.
\<close>

datatype reader = Idle | Checked | Loaded u8

definition stored :: "'a keyboard_scheme \<Rightarrow> 'a keyboard_scheme \<Rightarrow> u8 list" where
  "stored s s' = (if buffer_end s' = buffer_end s then [] else [keyboard_buffer s' ! buffer_end s])"

type_synonym 'a conf = "reader \<times> u8 list \<times> u8 list \<times> 'a keyboard_scheme"

inductive kstep :: "'a conf \<Rightarrow> 'a conf \<Rightarrow> bool" where
  interrupt: "kstep (pc, out, acc, s) (pc, out, acc @ stored s (keyboard_handler s), keyboard_handler s)"
| empty: "buffer_start s = buffer_end s \<Longrightarrow> kstep (Idle, out, acc, s) (Idle, out, acc, s)"
| check: "buffer_start s \<noteq> buffer_end s \<Longrightarrow> kstep (Idle, out, acc, s) (Checked, out, acc, s)"
| load: "kstep (Checked, out, acc, s) (Loaded (keyboard_buffer s ! buffer_start s), out, acc, s)"
| advance: "kstep (Loaded c, out, acc, s)
    (Idle, out @ [c], acc, s\<lparr>buffer_start := (buffer_start s + 1) mod KEYBOARD_BUFFER_SIZE\<rparr>)"

inductive_cases kstepE: "kstep (pc, out, acc, s) c'"

fun pending_ok :: "reader \<Rightarrow> u8 list \<Rightarrow> bool" where
  "pending_ok Idle q = True"
| "pending_ok Checked q = (q \<noteq> [])"
| "pending_ok (Loaded c) q = (q \<noteq> [] \<and> hd q = c)"

fun conf_ok :: "'a conf \<Rightarrow> bool" where
  "conf_ok (pc, out, acc, s) =
     (kb_ok s \<and> out @ kb_queue s = acc \<and> pending_ok pc (kb_queue s))"

lemma pending_ok_append: "pending_ok pc q \<Longrightarrow> pending_ok pc (q @ cs)"
  by (cases pc) auto

lemma buffer_put_stored:
  assumes "kb_ok s"
  shows "kb_queue (buffer_put c s) = kb_queue s @ stored s (buffer_put c s)"
proof -
  have ok: "length (keyboard_buffer s) = KEYBOARD_BUFFER_SIZE"
    "buffer_start s < KEYBOARD_BUFFER_SIZE" "buffer_end s < KEYBOARD_BUFFER_SIZE"
    using assms by (simp_all add: kb_ok_def)
  have "(buffer_end s + 1) mod KEYBOARD_BUFFER_SIZE \<noteq> buffer_end s"
    using ok(3) next_index [OF ok(3)] by (simp add: KEYBOARD_BUFFER_SIZE_def)
  then show ?thesis
    using ring_put [OF ok] ok by (simp add: buffer_put_def stored_def kb_queue_def Let_def)
qed

lemma keyboard_handler_stored:
  assumes "kb_ok s"
  shows "kb_queue (keyboard_handler s) = kb_queue s @ stored s (keyboard_handler s)"
proof -
  define t where "t = snd (inb KEYBOARD_DATA_PORT s)"
  have t: "kb_queue t = kb_queue s" "kb_ok t" "buffer_end t = buffer_end s"
    using assms by (simp_all add: t_def inb_def Let_def kb_queue_def kb_ok_def)
  have st: "stored t t' = stored s t'" for t' by (simp add: stored_def t(3))
  have same: "kb_queue t' = kb_queue s @ stored s t'"
    if "keyboard_buffer t' = keyboard_buffer t" "buffer_start t' = buffer_start t"
      "buffer_end t' = buffer_end t" for t'
    using that t by (simp add: kb_queue_def stored_def)
  have put: "kb_queue (buffer_put c t) = kb_queue s @ stored s (buffer_put c t)" for c
    using buffer_put_stored [OF t(2)] t(1) st by simp
  show ?thesis
    unfolding keyboard_handler_def t_def [symmetric] Let_def split_beta
    by (simp add: same put)
qed

lemma kstep_ok: "kstep c c' \<Longrightarrow> conf_ok c \<Longrightarrow> conf_ok c'"
proof (induction rule: kstep.induct)
  case (interrupt pc out acc s)
  then show ?case
    using keyboard_handler_view(2) [of s] keyboard_handler_stored [of s] pending_ok_append by auto
next
  case (check s out acc)
  then show ?case using keyboard_getchar_empty [of s] by simp
next
  case (load out acc s)
  then obtain q qs where q: "kb_queue s = q # qs" "kb_ok s" by (cases "kb_queue s") auto
  then have "keyboard_buffer s ! buffer_start s = q"
    using keyboard_getchar_queue(2) [OF q(2,1)] keyboard_getchar_empty [OF q(2)]
    by (simp add: keyboard_getchar_def Let_def)
  then show ?case using load q by simp
next
  case (advance c out acc s)
  then obtain qs where q: "kb_queue s = c # qs" "kb_ok s" by (cases "kb_queue s") auto
  have "snd (keyboard_getchar s) = s\<lparr>buffer_start := (buffer_start s + 1) mod KEYBOARD_BUFFER_SIZE\<rparr>"
    using q keyboard_getchar_empty [OF q(2)] by (simp add: keyboard_getchar_def Let_def)
  then show ?case
    using keyboard_getchar_queue(2) [OF q(2,1)] keyboard_getchar_queue(3) [OF q(2)] advance q by auto
qed simp

subsection \<open>Properties\<close>

definition blank_keyboard :: "(event list \<Rightarrow> u16 \<Rightarrow> u8) \<Rightarrow> keyboard" where
  "blank_keyboard dev = \<lparr>ram = (\<lambda>_. 0), events = [], device = dev, heap_start = 0,
     terminal_row = 0, terminal_column = 0, terminal_color = 7, terminal_buffer = VGA_MEMORY,
     is_initialized = True, total_memory = 0, free_memory = 0,
     keyboard_buffer = replicate KEYBOARD_BUFFER_SIZE 0, buffer_start = 0, buffer_end = 0,
     shift_pressed = False, caps_lock = False\<rparr>"

lemma blank_keyboard_ok [simp]: "kb_ok (blank_keyboard dev)" "kb_queue (blank_keyboard dev) = []"
  by (simp_all add: kb_ok_def blank_keyboard_def kb_queue_def KEYBOARD_BUFFER_SIZE_def)

text \<open>
  C38. One keyboard interrupt does to the modifier state and the queue of characters what the key
  press means: shift and caps lock are tracked, a letter is a capital when exactly one of them is
  on, any other key gives its character in the shifted or the plain table, a key without a
  character and a full queue change nothing, and the ring stays well formed.
\<close>

theorem keyboard_handler_refines:
  assumes "kb_ok s"
  shows "kbd_view (keyboard_handler s) =
      key_press (device s (events s) KEYBOARD_DATA_PORT) (kbd_view s) \<and>
    kb_ok (keyboard_handler s)"
  using keyboard_handler_view [OF assms] by blast

theorem keyboard_handler_refines_witness:
  "kb_queue (keyboard_handler (blank_keyboard (\<lambda>_ _. 0x1E))) = [97]"
  using keyboard_handler_refines [OF blank_keyboard_ok(1), of "\<lambda>_ _. 0x1E"]
  by (simp add: kbd_view_def blank_keyboard_def key_char_def scancode_to_ascii_def is_lower_def
      kb_queue_def kb_capacity_def KEYBOARD_BUFFER_SIZE_def)

text \<open>
  The ring buffer is a bounded queue: over any sequence of stores and reads the characters
  read, followed by those still queued, are the initial ones followed by a subsequence of
  those stored, and all of them when they fit in the 255 usable slots.
\<close>

lemma keyboard_buffer_fifo:
  assumes "kb_ok s" and "\<forall>c \<in> set (puts ops). c \<noteq> 0"
  shows "\<exists>acc. subseq acc (puts ops) \<and>
    (length (kb_queue s) + length (puts ops) \<le> kb_capacity \<longrightarrow> acc = puts ops) \<and>
    fst (run_ops buffer_put keyboard_getchar keyboard_available ops s)
      @ kb_queue (snd (run_ops buffer_put keyboard_getchar keyboard_available ops s))
      = kb_queue s @ acc \<and>
    kb_ok (snd (run_ops buffer_put keyboard_getchar keyboard_available ops s))"
  by (rule ring.run_fifo [OF assms])

lemma keyboard_buffer_fifo_witness:
  "fst (run_ops buffer_put keyboard_getchar keyboard_available [Put 65, Get] (blank_keyboard (\<lambda>_ _. 0)))
     @ kb_queue (snd (run_ops buffer_put keyboard_getchar keyboard_available [Put 65, Get]
        (blank_keyboard (\<lambda>_ _. 0)))) = [65]"
proof -
  have "\<forall>c \<in> set (puts [Put 65, Get]). c \<noteq> (0 :: u8)" by simp
  from keyboard_buffer_fifo [OF blank_keyboard_ok(1) this] show ?thesis
    by (auto simp: kb_capacity_def KEYBOARD_BUFFER_SIZE_def)
qed

text \<open>
  C11. Interrupts between the accesses of \<^verbatim>\<open>keyboard_getchar\<close> do no harm: in every state
  that the reader's steps and keyboard interrupts reach in any order, the characters
  delivered so far followed by those in the queue are exactly the characters stored so far.
\<close>

theorem keyboard_interleaving:
  assumes "kb_ok s" and "kstep\<^sup>*\<^sup>* (Idle, [], kb_queue s, s) (pc, out, acc, s')"
  shows "out @ kb_queue s' = acc \<and> kb_ok s'"
proof -
  have "conf_ok (pc, out, acc, s')"
    using assms(2)
  proof (induction "(pc, out, acc, s')" arbitrary: pc out acc s' rule: rtranclp_induct)
    case base
    then show ?case using assms(1) by simp
  next
    case (step c pc out acc s')
    then show ?case by (cases c) (blast intro: kstep_ok)
  qed
  then show ?thesis by simp
qed

theorem keyboard_interleaving_witness:
  "fst (keyboard_getchar (blank_keyboard (\<lambda>_ _. 0x1E))) = 0 \<and>
   (\<exists>s'. kstep\<^sup>*\<^sup>* (Idle, [], [], blank_keyboard (\<lambda>_ _. 0x1E)) (Idle, [97], [97, 97], s')
     \<and> kb_queue s' = [97])"
proof -
  let ?s0 = "blank_keyboard (\<lambda>_ _. 0x1E)"
  let ?s1 = "?s0\<lparr>events := [In 0x60 0x1E], keyboard_buffer := (replicate 256 0)[0 := 97], buffer_end := 1\<rparr>"
  let ?s2 = "?s1\<lparr>events := [In 0x60 0x1E, In 0x60 0x1E],
    keyboard_buffer := (keyboard_buffer ?s1)[1 := 97], buffer_end := 2\<rparr>"
  have h1: "keyboard_handler ?s0 = ?s1" and h2: "keyboard_handler ?s1 = ?s2"
    by (simp_all add: keyboard_handler_def inb_def Let_def blank_keyboard_def scancode_to_ascii_def
        buffer_put_def KEYBOARD_BUFFER_SIZE_def KEYBOARD_DATA_PORT_def)
  have k1: "kstep (Idle, [], [], ?s0) (Idle, [], [97], ?s1)"
    using interrupt [of Idle "[]" "[]" ?s0]
    unfolding h1 stored_def by (simp add: blank_keyboard_def)
  have k2: "kstep (Idle, [], [97], ?s1) (Checked, [], [97], ?s1)"
    by (rule check) (simp add: blank_keyboard_def)
  have k3: "kstep (Checked, [], [97], ?s1) (Loaded 97, [], [97], ?s1)"
    using load [of "[]" "[97]" ?s1] by (simp add: blank_keyboard_def)
  have k4: "kstep (Loaded 97, [], [97], ?s1) (Loaded 97, [], [97, 97], ?s2)"
    using interrupt [of "Loaded 97" "[]" "[97]" ?s1]
    unfolding h2 stored_def by (simp add: blank_keyboard_def)
  have k5: "kstep (Loaded 97, [], [97, 97], ?s2) (Idle, [97], [97, 97], ?s2\<lparr>buffer_start := 1\<rparr>)"
    using advance [of 97 "[]" "[97, 97]" ?s2]
    by (simp add: blank_keyboard_def KEYBOARD_BUFFER_SIZE_def)
  have run: "kstep\<^sup>*\<^sup>* (Idle, [], [], ?s0) (Idle, [97], [97, 97], ?s2\<lparr>buffer_start := 1\<rparr>)"
    using k1 k2 k3 k4 k5 by (meson converse_rtranclp_into_rtranclp rtranclp.rtrancl_refl)
  have "[97] @ kb_queue (?s2\<lparr>buffer_start := 1\<rparr>) = [97, 97]"
    using keyboard_interleaving [of ?s0 Idle "[97]" "[97, 97]" "?s2\<lparr>buffer_start := 1\<rparr>"] run
    by (simp only: blank_keyboard_ok)
  then have "kb_queue (?s2\<lparr>buffer_start := 1\<rparr>) = [97]" by simp
  with run show ?thesis by (intro conjI exI) (simp_all add: keyboard_getchar_def blank_keyboard_def)
qed

text \<open>
  C36. Each busy-waiting loop returns exactly when some status read has the awaited value, after
  the first such read; otherwise it does not return.
\<close>

theorem keyboard_wait_loops:
  "keyboard_wait_output s =
    (if \<exists>n. next_status (after_polls n s) AND 1 \<noteq> 0
     then Some (after_polls (Suc (LEAST n. next_status (after_polls n s) AND 1 \<noteq> 0)) s) else None) \<and>
   keyboard_wait_input s =
    (if \<exists>n. next_status (after_polls n s) AND 2 = 0
     then Some (after_polls (Suc (LEAST n. next_status (after_polls n s) AND 2 = 0)) s) else None)"
proof (rule conjI)
  show "keyboard_wait_output s =
    (if \<exists>n. next_status (after_polls n s) AND 1 \<noteq> 0
     then Some (after_polls (Suc (LEAST n. next_status (after_polls n s) AND 1 \<noteq> 0)) s) else None)"
  proof (cases "\<exists>n. next_status (after_polls n s) AND 1 \<noteq> 0")
    case True
    then show ?thesis
      using poll_loop_least [of keyboard_wait_output "\<lambda>v. v AND 1 \<noteq> 0", OF wait_output_unfold] by simp
  next
    case False
    then show ?thesis using wait_output_returns [of s] by (cases "keyboard_wait_output s") auto
  qed
  show "keyboard_wait_input s =
    (if \<exists>n. next_status (after_polls n s) AND 2 = 0
     then Some (after_polls (Suc (LEAST n. next_status (after_polls n s) AND 2 = 0)) s) else None)"
  proof (cases "\<exists>n. next_status (after_polls n s) AND 2 = 0")
    case True
    then show ?thesis
      using poll_loop_least [of keyboard_wait_input "\<lambda>v. v AND 2 = 0", OF wait_input_unfold] by simp
  next
    case False
    then show ?thesis using wait_input_returns [of s] by (cases "keyboard_wait_input s") auto
  qed
qed

text \<open>
  With a controller that is always ready, initialisation returns, and what it does depends
  on the two answers: only when both are the acknowledge byte is the driver state reset.
\<close>

lemma keyboard_init_answers:
  assumes "\<forall>es. device s es KEYBOARD_STATUS_PORT = 1"
  defines "e1 \<equiv> events s @ [In 0x64 1, Out 0x64 0xFF, In 0x64 1]"
  defines "a1 \<equiv> device s e1 0x60"
  defines "e2 \<equiv> e1 @ [In 0x60 a1, In 0x64 1, Out 0x64 0xF4, In 0x64 1]"
  defines "a2 \<equiv> device s e2 0x60"
  shows "keyboard_init s = Some
    (if a1 \<noteq> 0xFA then s\<lparr>events := e1 @ [In 0x60 a1]\<rparr>
     else if a2 \<noteq> 0xFA then s\<lparr>events := e2 @ [In 0x60 a2]\<rparr>
     else s\<lparr>events := e2 @ [In 0x60 a2], buffer_start := 0, buffer_end := 0,
            shift_pressed := False, caps_lock := False\<rparr>)"
proof -
  have wi: "keyboard_wait_input t = Some (t\<lparr>events := events t @ [In 0x64 1]\<rparr>)"
    and wo: "keyboard_wait_output t = Some (t\<lparr>events := events t @ [In 0x64 1]\<rparr>)"
    if "device t = device s" for t :: "'a keyboard_scheme"
    using assms(1) that wait_input_unfold [of t] wait_output_unfold [of t]
    by (simp_all add: next_status_def inb_def Let_def KEYBOARD_STATUS_PORT_def)
  show ?thesis
    by (simp add: keyboard_init_def keyboard_send_cmd_def keyboard_read_data_def wi wo
        inb_def outb_def Let_def KEYBOARD_COMMAND_PORT_def KEYBOARD_DATA_PORT_def
        KEYBOARD_CMD_RESET_def KEYBOARD_CMD_ENABLE_def a1_def a2_def e1_def e2_def)
qed

lemma keyboard_init_answers_witness:
  "map_option buffer_end (keyboard_init ((blank_keyboard (\<lambda>es p. if p = 0x64 then 1 else 0xFA))
      \<lparr>buffer_end := 7\<rparr>)) = Some 0"
proof -
  let ?s = "(blank_keyboard (\<lambda>es p. if p = 0x64 then 1 else 0xFA))\<lparr>buffer_end := 7\<rparr>"
  have "\<forall>es. device ?s es KEYBOARD_STATUS_PORT = 1"
    by (simp add: blank_keyboard_def KEYBOARD_STATUS_PORT_def)
  from keyboard_init_answers [OF this] show ?thesis by (simp add: blank_keyboard_def)
qed

text \<open>
  C37. The layout covers printable ASCII: for each of the 95 characters there is a key and a
  shift state that stores exactly this character.
\<close>

theorem keyboard_types_printable:
  assumes "32 \<le> c" and "c < 127"
  shows "\<exists>v shift. \<forall>s :: 'a keyboard_scheme. kb_ok s \<and> length (kb_queue s) < kb_capacity \<and>
    device s (events s) KEYBOARD_DATA_PORT = v \<and> shift_pressed s = shift \<and> \<not> caps_lock s \<longrightarrow>
    kb_queue (keyboard_handler s) = kb_queue s @ [c]"
proof -
  have "\<forall>c \<in> set (map of_nat [32..<127]).
      c \<in> set scancode_to_ascii \<union> set scancode_to_ascii_shift"
    by (simp add: scancode_to_ascii_def scancode_to_ascii_shift_def)
  moreover have "c \<in> set (map of_nat [32..<127])"
    unfolding set_map set_upt using assms
    by (intro image_eqI [of _ _ "unat c"]) (simp_all add: word_le_nat_alt word_less_nat_alt)
  ultimately have "c \<in> set scancode_to_ascii \<or> c \<in> set scancode_to_ascii_shift" by blast
  then have "\<exists>i<58. scancode_to_ascii ! i = c \<or> scancode_to_ascii_shift ! i = c"
    by (auto simp: in_set_conv_nth)
  then obtain i where i: "i < 58" "scancode_to_ascii ! i = c \<or> scancode_to_ascii_shift ! i = c"
    by blast
  define shift where "shift \<longleftrightarrow> scancode_to_ascii ! i \<noteq> c"
  have c: "c = (if shift then scancode_to_ascii_shift ! i else scancode_to_ascii ! i)"
    using i(2) by (auto simp: shift_def)
  define v :: u8 where "v = of_nat i"
  have v: "unat v = i" using i(1) by (simp add: v_def unat_of_nat)
  have c0: "c \<noteq> 0" using assms(1) by auto
  have key: "key_char shift False v = c"
    using handler_char_eq [of v shift False] i(1) v c
    by (cases shift) (simp_all add: handler_char_def)
  have plain: "v \<noteq> 0x2A" "v \<noteq> 0x36" "v \<noteq> 0x3A" "v \<noteq> 0xAA" "v \<noteq> 0xB6"
    using c c0 i v by (auto simp: scancode_to_ascii_def scancode_to_ascii_shift_def split: if_splits)
  have "kb_queue (keyboard_handler s) = kb_queue s @ [c]"
    if s: "kb_ok s" "length (kb_queue s) < kb_capacity" "device s (events s) KEYBOARD_DATA_PORT = v"
      "shift_pressed s = shift" "\<not> caps_lock s" for s :: "'a keyboard_scheme"
    using keyboard_handler_view(1) [OF s(1)] s(2-5) plain key c0 i(1) v
    by (simp add: kbd_view_def)
  then show ?thesis by blast
qed

theorem keyboard_types_printable_witness:
  "\<exists>v shift. kb_queue (keyboard_handler ((blank_keyboard (\<lambda>_ _. v))\<lparr>shift_pressed := shift\<rparr>)) = [64]"
proof -
  have "32 \<le> (64 :: u8)" "(64 :: u8) < 127" by simp_all
  from keyboard_types_printable [OF this] obtain v shift where k: "\<And>s :: keyboard. kb_ok s
      \<Longrightarrow> length (kb_queue s) < kb_capacity \<Longrightarrow> device s (events s) KEYBOARD_DATA_PORT = v
      \<Longrightarrow> shift_pressed s = shift \<Longrightarrow> \<not> caps_lock s \<Longrightarrow> kb_queue (keyboard_handler s) = kb_queue s @ [64]"
    by blast
  have "kb_queue (keyboard_handler ((blank_keyboard (\<lambda>_ _. v))\<lparr>shift_pressed := shift\<rparr>)) = [64]"
    by (subst k) (simp_all add: blank_keyboard_def kb_ok_def kb_queue_def kb_capacity_def
        KEYBOARD_BUFFER_SIZE_def)
  then show ?thesis by blast
qed

end
