(* ===== verification/CArray.thy ===== *)
theory CArray
  imports CString
begin

text \<open>
  The routines of \<^verbatim>\<open>kernel/string.cpp\<close> as the file system and the compiler use them: on
  fixed-size arrays, with every access checked against the array it is made to. Where the
  loops stay inside, they do what they do on flat memory (theory CString); where they leave
  the array the result is a fault.
\<close>

subsection \<open>Operations\<close>

function arr_strlen_loop :: "u8 list \<Rightarrow> nat \<Rightarrow> fault + nat" where
  "arr_strlen_loop str len =
     rbind (aget str len) (\<lambda>c. if c \<noteq> 0 then arr_strlen_loop str (len + 1) else Inr len)"
  by auto
termination
  by (relation "measure (\<lambda>(str, len). length str - len)") (auto simp: aget_def split: if_splits)

definition arr_strlen :: "u8 list \<Rightarrow> fault + nat" where
  "arr_strlen str = arr_strlen_loop str 0"

function arr_strcmp_loop :: "u8 list \<Rightarrow> u8 list \<Rightarrow> nat \<Rightarrow> fault + int" where
  "arr_strcmp_loop s1 s2 i =
     rbind (aget s1 i) (\<lambda>c1. rbind (aget s2 i) (\<lambda>c2.
       if c1 \<noteq> 0 \<and> c1 = c2 then arr_strcmp_loop s1 s2 (i + 1) else Inr (uint c1 - uint c2)))"
  by auto
termination
  by (relation "measure (\<lambda>(s1, s2, i). length s1 - i)") (auto simp: aget_def split: if_splits)

definition arr_strcmp :: "u8 list \<Rightarrow> u8 list \<Rightarrow> fault + int" where
  "arr_strcmp s1 s2 = arr_strcmp_loop s1 s2 0"

text \<open>
  The first loop of \<^verbatim>\<open>strncpy\<close> returns the index and the count for the second one, which
  has wrapped around when the test failed on a zero count.
\<close>

fun arr_strncpy_copy :: "u8 list \<Rightarrow> u8 list \<Rightarrow> nat \<Rightarrow> nat \<Rightarrow> fault + u8 list \<times> nat \<times> nat" where
  "arr_strncpy_copy dest src i 0 = Inr (dest, i, 2 ^ 32 - 1)"
| "arr_strncpy_copy dest src i (Suc n) =
     rbind (aget src i) (\<lambda>c. rbind (aset dest i c) (\<lambda>dest.
       if c \<noteq> 0 then arr_strncpy_copy dest src (i + 1) n else Inr (dest, i + 1, n)))"

function arr_pad :: "u8 list \<Rightarrow> nat \<Rightarrow> nat \<Rightarrow> fault + u8 list" where
  "arr_pad dest i n =
     (if n = 0 then Inr dest else rbind (aset dest i 0) (\<lambda>dest. arr_pad dest (i + 1) (n - 1)))"
  by auto
termination by (relation "measure (\<lambda>(dest, i, n). n)") auto

definition arr_strncpy :: "u8 list \<Rightarrow> u8 list \<Rightarrow> nat \<Rightarrow> fault + u8 list" where
  "arr_strncpy dest src n =
     rbind (arr_strncpy_copy dest src 0 n) (\<lambda>(dest, i, n). arr_pad dest i n)"

fun arr_memcpy :: "u8 list \<Rightarrow> u8 list \<Rightarrow> nat \<Rightarrow> nat \<Rightarrow> fault + u8 list" where
  "arr_memcpy dest src i 0 = Inr dest"
| "arr_memcpy dest src i (Suc n) =
     rbind (aget src i) (\<lambda>c. rbind (aset dest i c) (\<lambda>dest. arr_memcpy dest src (i + 1) n))"

fun arr_memcmp :: "u8 list \<Rightarrow> nat \<Rightarrow> u8 list \<Rightarrow> nat \<Rightarrow> nat \<Rightarrow> fault + int" where
  "arr_memcmp s1 i s2 j 0 = Inr 0"
| "arr_memcmp s1 i s2 j (Suc n) =
     rbind (aget s1 i) (\<lambda>c1. rbind (aget s2 j) (\<lambda>c2.
       if c1 \<noteq> c2 then Inr (uint c1 - uint c2) else arr_memcmp s1 (i + 1) s2 (j + 1) n))"

declare arr_strlen_loop.simps [simp del] arr_strcmp_loop.simps [simp del] arr_pad.simps [simp del]

subsection \<open>Strings in arrays\<close>

text \<open>The string an array holds: its bytes up to the first zero.\<close>

definition cname :: "u8 list \<Rightarrow> u8 list" where
  "cname xs = takeWhile (\<lambda>c. c \<noteq> 0) xs"

lemma cname_split:
  assumes "0 \<in> set xs"
  obtains rest where "xs = cname xs @ 0 # rest"
proof -
  have "dropWhile (\<lambda>c. c \<noteq> 0) xs \<noteq> []" using assms by (simp add: dropWhile_eq_Nil_conv)
  moreover from this have "hd (dropWhile (\<lambda>c. c \<noteq> 0) xs) = 0"
    using hd_dropWhile by blast
  ultimately obtain rest where "dropWhile (\<lambda>c. c \<noteq> 0) xs = 0 # rest"
    by (cases "dropWhile (\<lambda>c. c \<noteq> 0) xs") auto
  then have "xs = cname xs @ 0 # rest"
    using takeWhile_dropWhile_id [of "\<lambda>c. c \<noteq> 0" xs] by (simp add: cname_def)
  then show ?thesis by (rule that)
qed

lemma cname_nonzero: "0 \<notin> set (cname xs)"
  by (auto simp: cname_def dest: set_takeWhileD)

lemma cname_append [simp]: "0 \<notin> set s \<Longrightarrow> cname (s @ 0 # r) = s"
  unfolding cname_def by (subst takeWhile_append2) auto

lemma arr_strlen_loop_cstr:
  "0 \<notin> set s \<Longrightarrow> arr_strlen_loop (p @ s @ 0 # r) (length p) = Inr (length p + length s)"
proof (induction s arbitrary: p)
  case Nil
  then show ?case by (subst arr_strlen_loop.simps) (simp add: aget_def nth_append)
next
  case (Cons c s)
  then show ?case
    using Cons.IH [of "p @ [c]"] by (subst arr_strlen_loop.simps) (simp add: aget_def nth_append)
qed

lemma arr_strlen_cstr [simp]: "0 \<notin> set s \<Longrightarrow> arr_strlen (s @ 0 # r) = Inr (length s)"
  using arr_strlen_loop_cstr [of s "[]" r] by (simp add: arr_strlen_def)

lemma arr_strcmp_loop_cstr:
  "0 \<notin> set s \<Longrightarrow> 0 \<notin> set t \<Longrightarrow> length p = length q \<Longrightarrow>
   arr_strcmp_loop (p @ s @ 0 # r) (q @ t @ 0 # u) (length q) = Inr (first_difference s t)"
proof (induction s t arbitrary: p q rule: first_difference.induct)
  case (4 c cs d ds)
  then show ?case
    using "4.IH" [of "p @ [c]" "q @ [d]"]
    by (subst arr_strcmp_loop.simps) (simp add: aget_def nth_append)
qed (subst arr_strcmp_loop.simps, auto simp: aget_def nth_append)+

lemma arr_strcmp_cstr:
  "0 \<notin> set s \<Longrightarrow> 0 \<notin> set t \<Longrightarrow> arr_strcmp (s @ 0 # r) (t @ 0 # u) = Inr (first_difference s t)"
  using arr_strcmp_loop_cstr [of s t "[]" "[]" r u] by (simp add: arr_strcmp_def)

lemma arr_strcmp_name:
  assumes "0 \<in> set xs" and "0 \<notin> set t"
  shows "\<exists>d. arr_strcmp xs (t @ [0]) = Inr d \<and> (d = 0 \<longleftrightarrow> cname xs = t)"
proof -
  obtain r where xs: "xs = cname xs @ 0 # r" using cname_split [OF assms(1)] .
  have "arr_strcmp (cname xs @ 0 # r) (t @ [0]) = Inr (first_difference (cname xs) t)"
    using arr_strcmp_cstr [OF cname_nonzero assms(2)] by simp
  then show ?thesis
    using xs first_difference_0_iff [OF cname_nonzero assms(2)] by metis
qed

subsection \<open>Copies\<close>

lemma arr_pad_eq:
  "i \<le> length dest \<Longrightarrow> arr_pad dest i n =
    (if i + n \<le> length dest then Inr (take i dest @ replicate n 0 @ drop (i + n) dest)
     else Inl OutOfBounds)"
proof (induction n arbitrary: dest i)
  case 0
  then show ?case by (subst arr_pad.simps) simp
next
  case (Suc n)
  show ?case
  proof (cases "i < length dest")
    case True
    then have "dest[i := 0] = take i dest @ 0 # drop (Suc i) dest" by (rule upd_conv_take_nth_drop)
    then show ?thesis
      using True Suc.IH [of "Suc i" "dest[i := 0]"]
      by (subst arr_pad.simps) (auto simp add: take_Suc_conv_app_nth add.commute)
  qed (subst arr_pad.simps, use Suc in \<open>simp add: aset_def\<close>)
qed

lemma arr_strncpy_copy_short:
  assumes "0 \<notin> set s" and "length s < n" and "length p + length s < length dest"
  shows "arr_strncpy_copy dest (p @ s @ 0 # r) (length p) n =
    Inr (take (length p) dest @ s @ 0 # drop (Suc (length p + length s)) dest,
         Suc (length p + length s), n - Suc (length s))"
  using assms
proof (induction s arbitrary: p n dest)
  case Nil
  then obtain k where "n = Suc k" by (cases n) auto
  then show ?case using Nil by (simp add: aget_def nth_append upd_conv_take_nth_drop)
next
  case (Cons c s)
  then obtain k where n: "n = Suc k" by (cases n) auto
  have "arr_strncpy_copy (dest[length p := c]) ((p @ [c]) @ s @ 0 # r) (length (p @ [c])) k =
    Inr (take (length (p @ [c])) (dest[length p := c]) @ s @
      0 # drop (Suc (length (p @ [c]) + length s)) (dest[length p := c]),
      Suc (length (p @ [c]) + length s), k - Suc (length s))"
    by (rule Cons.IH) (use Cons.prems n in auto)
  then show ?case
    using Cons.prems n by (simp add: aget_def nth_append take_Suc_conv_app_nth)
qed

lemma arr_strncpy_short:
  assumes "0 \<notin> set s" and "length s < n" and "n \<le> length dest"
  shows "arr_strncpy dest (s @ 0 # r) n = Inr (s @ replicate (n - length s) 0 @ drop n dest)"
proof -
  have "replicate (n - length s) (0 :: u8) = 0 # replicate (n - Suc (length s)) 0"
    using assms(2) by (simp add: Suc_diff_Suc flip: replicate_Suc)
  then show ?thesis
    using arr_strncpy_copy_short [of s n "[]" dest r] assms
    by (auto simp add: arr_strncpy_def arr_pad_eq drop_Cons')
qed

lemma arr_strncpy_copy_long:
  "0 \<notin> set (take n (drop i src)) \<Longrightarrow> i + n \<le> length src \<Longrightarrow> i + n \<le> length dest \<Longrightarrow>
   \<exists>d. arr_strncpy_copy dest src i n = Inr (d, i + n, 2 ^ 32 - 1) \<and> length d = length dest"
proof (induction n arbitrary: i dest)
  case (Suc n)
  have "drop i src = src ! i # drop (Suc i) src" using Suc.prems by (simp add: Cons_nth_drop_Suc)
  then have c: "src ! i \<noteq> 0" "0 \<notin> set (take n (drop (Suc i) src))" using Suc.prems by auto
  then show ?case using Suc.IH [of "Suc i" "dest[i := src ! i]"] Suc.prems by simp
qed simp

lemma arr_strncpy_long:
  assumes "0 \<notin> set (take n src)" and "n \<le> length src" and "n \<le> length dest"
    and "length dest < 2 ^ 32 - 1"
  shows "arr_strncpy dest src n = Inl OutOfBounds"
proof -
  obtain d where "arr_strncpy_copy dest src 0 n = Inr (d, n, 2 ^ 32 - 1)" "length d = length dest"
    using arr_strncpy_copy_long [of n 0 src dest] assms by auto
  then show ?thesis using assms by (simp add: arr_strncpy_def arr_pad_eq)
qed

lemma arr_memcpy_eq:
  assumes "i + n \<le> length src" and "i + n \<le> length dest"
  shows "arr_memcpy dest src i n = Inr (take i dest @ take n (drop i src) @ drop (i + n) dest)"
  using assms
proof (induction n arbitrary: i dest)
  case (Suc n)
  have "drop i src = src ! i # drop (Suc i) src" using Suc.prems by (simp add: Cons_nth_drop_Suc)
  then show ?case
    using Suc.IH [of "Suc i" "dest[i := src ! i]"] Suc.prems
    by (simp add: take_Suc_conv_app_nth upd_conv_take_nth_drop add.commute)
qed simp

lemma arr_memcmp_bytes:
  assumes "0 < n" and "i + n \<le> length a" and "j + n \<le> length b"
  shows "arr_memcmp a i b j n
    = Inr (first_difference (take n (drop i a)) (take n (drop j b)))"
  using assms
proof (induction n arbitrary: i j)
  case (Suc n)
  have "drop i a = a ! i # drop (Suc i) a" "drop j b = b ! j # drop (Suc j) b"
    using Suc.prems by (simp_all add: Cons_nth_drop_Suc)
  then show ?case using Suc by (cases n) auto
qed simp

end
