(* ===== verification/Format.thy ===== *)
theory Format
  imports Prelude
begin

text \<open>
  Formatted output: \<^verbatim>\<open>kernel/stdio.cpp\<close> and \<^verbatim>\<open>int_to_string\<close> of
  \<^verbatim>\<open>kernel/interrupts.cpp\<close>. Buffers are lists of bytes with checked accesses; the
  result is a fault where the C++ has undefined behaviour. The second part relates the
  routines to decimal notation and to a reference rendering of a format.
\<close>

subsection \<open>Argument lists and C division\<close>

text \<open>
  A variadic argument is a pointer to a string (its bytes without the terminator, or null) or
  an \<^verbatim>\<open>int\<close>. Reading a missing argument or one of the other kind is \<^verbatim>\<open>BadArgument\<close>.
\<close>

datatype varg = VStr "u8 list option" | VInt "32 word"

fun next_str :: "varg list \<Rightarrow> fault + u8 list option \<times> varg list" where
  "next_str (VStr s # args) = Inr (s, args)"
| "next_str _ = Inl BadArgument"

fun next_int :: "varg list \<Rightarrow> fault + int \<times> varg list" where
  "next_int (VInt v # args) = Inr (sint v, args)"
| "next_int _ = Inl BadArgument"

definition INT_MIN :: int where "INT_MIN = - (2 ^ 31)"

text \<open>\<^verbatim>\<open>-value\<close> overflows for the least integer only.\<close>

definition cneg :: "int \<Rightarrow> fault + int" where
  "cneg v = (if v = INT_MIN then Inl SignedOverflow else Inr (- v))"

text \<open>\<^verbatim>\<open>memcpy(str + i, bs, len)\<close> into an array.\<close>

definition put_bytes :: "u8 list \<Rightarrow> nat \<Rightarrow> u8 list \<Rightarrow> fault + u8 list" where
  "put_bytes str i bs =
     (if i + length bs \<le> length str then Inr (take i str @ bs @ drop (i + length bs) str)
      else Inl OutOfBounds)"

text \<open>Storing a run of bytes one by one, \<^verbatim>\<open>str[written++] = *p\<close>.\<close>

fun put_each :: "u8 list \<Rightarrow> u8 list \<Rightarrow> nat \<Rightarrow> fault + u8 list \<times> nat" where
  "put_each [] str w = Inr (str, w)"
| "put_each (c # cs) str w = rbind (aset str w c) (\<lambda>str. put_each cs str (w + 1))"

text \<open>The same where the index is an \<^verbatim>\<open>int\<close>, which overflows behind the greatest one.\<close>

fun put_counted :: "u8 list \<Rightarrow> u8 list \<Rightarrow> nat \<Rightarrow> fault + u8 list \<times> nat" where
  "put_counted [] str w = Inr (str, w)"
| "put_counted (c # cs) str w =
     rbind (aset str w c) (\<lambda>str. if w + 1 < 2 ^ 31 then put_counted cs str (w + 1) else Inl SignedOverflow)"

text \<open>The conversion of a \<^verbatim>\<open>size_t\<close> to \<^verbatim>\<open>int\<close>.\<close>

definition size_to_int :: "nat \<Rightarrow> int" where
  "size_to_int n = sint (of_nat n :: 32 word)"

subsection \<open>\<^verbatim>\<open>vsnprintf\<close> and \<^verbatim>\<open>snprintf\<close>\<close>

text \<open>The \<^verbatim>\<open>do ... while\<close> loop that fills \<^verbatim>\<open>num\<close>, at most 31 digits.\<close>

function vsn_digits :: "int \<Rightarrow> u8 list \<Rightarrow> u8 list" where
  "vsn_digits value num =
     (let num = num @ [of_char CHR ''0'' + of_int (value smod 10)];
          value = value sdiv 10
      in if value \<noteq> 0 \<and> length num < 31 then vsn_digits value num else num)"
  by auto
termination by (relation "measure (\<lambda>(value, num). 31 - length num)") auto

fun vsn_emit :: "nat \<Rightarrow> u8 list \<Rightarrow> u8 list \<Rightarrow> nat \<Rightarrow> fault + u8 list \<times> nat" where
  "vsn_emit sz [] str written = Inr (str, written)"
| "vsn_emit sz (c # cs) str written =
     (if written < sz - 1
      then rbind (aset str written c) (\<lambda>str. vsn_emit sz cs str (written + 1))
      else Inr (str, written))"

definition vsn_str :: "nat \<Rightarrow> u8 list option \<Rightarrow> u8 list \<Rightarrow> nat \<Rightarrow> fault + u8 list \<times> nat" where
  "vsn_str sz s str written =
     (let s = (case s of None \<Rightarrow> chars ''(null)'' | Some s \<Rightarrow> s);
          len = length s;
          len = (if (written + len) mod 2 ^ 32 \<ge> sz - 1 then sz - written - 1 else len)
      in rbind (put_bytes str written (take len s)) (\<lambda>str. Inr (str, written + len)))"

definition vsn_int :: "nat \<Rightarrow> int \<Rightarrow> u8 list \<Rightarrow> nat \<Rightarrow> fault + u8 list \<times> nat" where
  "vsn_int sz value str written =
     rbind (if value < 0
            then rbind (aset str written (of_char CHR ''-'')) (\<lambda>str.
                 rbind (cneg value) (\<lambda>value. Inr (value, str, written + 1)))
            else Inr (value, str, written))
       (\<lambda>(value, str, written). vsn_emit sz (rev (vsn_digits value [])) str written)"

text \<open>
  The loop over the format, which is given with its terminator. The body of a directive is
  skipped past by the final \<^verbatim>\<open>ptr++\<close>.
\<close>

fun vsn_loop ::
  "nat \<Rightarrow> u8 list \<Rightarrow> varg list \<Rightarrow> u8 list \<Rightarrow> nat \<Rightarrow> fault + u8 list \<times> nat" where
  "vsn_loop sz [] ap str written = Inl OutOfBounds"
| "vsn_loop sz (c # ptr) ap str written =
     (if c \<noteq> 0 \<and> written < sz - 1 then
        if c \<noteq> of_char CHR ''%''
        then rbind (aset str written c) (\<lambda>str. vsn_loop sz ptr ap str (written + 1))
        else (case ptr of
          [] \<Rightarrow> Inl OutOfBounds
        | d # ptr' \<Rightarrow>
          if d = 0 then Inr (str, written)
          else if d = of_char CHR ''s'' then
            rbind (next_str ap) (\<lambda>(s, ap).
            rbind (vsn_str sz s str written) (\<lambda>(str, written). vsn_loop sz ptr' ap str written))
          else if d = of_char CHR ''d'' then
            rbind (next_int ap) (\<lambda>(value, ap).
            rbind (vsn_int sz value str written) (\<lambda>(str, written). vsn_loop sz ptr' ap str written))
          else rbind (aset str written d) (\<lambda>str. vsn_loop sz ptr' ap str (written + 1)))
      else Inr (str, written))"

definition vsnprintf ::
  "u8 list option \<Rightarrow> nat \<Rightarrow> u8 list option \<Rightarrow> varg list \<Rightarrow> fault + u8 list option \<times> int" where
  "vsnprintf str sz fmt ap =
     (case (str, fmt) of
        (Some str, Some fmt) \<Rightarrow>
          if sz = 0 then Inr (Some str, -1)
          else rbind (vsn_loop sz fmt ap str 0) (\<lambda>(str, written).
               rbind (aset str written 0) (\<lambda>str. Inr (Some str, size_to_int written)))
      | _ \<Rightarrow> Inr (str, -1))"

definition snprintf ::
  "u8 list option \<Rightarrow> nat \<Rightarrow> u8 list option \<Rightarrow> varg list \<Rightarrow> fault + u8 list option \<times> int" where
  "snprintf str sz fmt args = vsnprintf str sz fmt args"

subsection \<open>\<^verbatim>\<open>reverse\<close>, \<^verbatim>\<open>itoa\<close> and \<^verbatim>\<open>int_to_string\<close>\<close>

function reverse_loop :: "u8 list \<Rightarrow> int \<Rightarrow> int \<Rightarrow> fault + u8 list" where
  "reverse_loop str start end' =
     (if start < end'
      then rbind (aget str (nat start)) (\<lambda>temp.
           rbind (aget str (nat end')) (\<lambda>c.
           rbind (aset str (nat start) c) (\<lambda>str.
           rbind (aset str (nat end') temp) (\<lambda>str.
           reverse_loop str (start + 1) (end' - 1)))))
      else Inr str)"
  by auto
termination by (relation "measure (\<lambda>(str, start, end'). nat (end' - start))") auto

definition reverse :: "u8 list \<Rightarrow> int \<Rightarrow> fault + u8 list" where
  "reverse str len = reverse_loop str 0 (len - 1)"

text \<open>
  The digit loop. For a base of 1 or -1 the C++ runs on past the end of the array; here
  that is the fault at its end, which is also why the recursion terminates.
\<close>

function itoa_loop :: "int \<Rightarrow> int \<Rightarrow> u8 list \<Rightarrow> nat \<Rightarrow> fault + u8 list \<times> nat" where
  "itoa_loop base num str i =
     (if num \<noteq> 0 then
        if base = 0 then Inl DivideByZero
        else if num = INT_MIN \<and> base = -1 then Inl SignedOverflow
        else
          let rem = num smod base in
          rbind (aset str i (if rem > 9 then of_int (rem - 10) + of_char CHR ''a''
                             else of_int rem + of_char CHR ''0''))
            (\<lambda>str. itoa_loop base (num sdiv base) str (i + 1))
      else Inr (str, i))"
  by auto
termination
  by (relation "measure (\<lambda>(base, num, str, i). length str - i)")
    (auto simp: aset_def split: if_splits)

definition itoa :: "int \<Rightarrow> u8 list \<Rightarrow> int \<Rightarrow> fault + u8 list" where
  "itoa num str base =
     (if num = 0
      then rbind (aset str 0 (of_char CHR ''0'')) (\<lambda>str. aset str 1 0)
      else
        let isNegative = (num < 0 \<and> base = 10) in
        rbind (if isNegative then cneg num else Inr num) (\<lambda>num.
        rbind (itoa_loop base num str 0) (\<lambda>(str, i).
        rbind (if isNegative
               then rbind (aset str i (of_char CHR ''-'')) (\<lambda>str. Inr (str, i + 1))
               else Inr (str, i)) (\<lambda>(str, i).
        rbind (aset str i 0) (\<lambda>str. reverse str (int i))))))"

function its_loop :: "int \<Rightarrow> u8 list \<Rightarrow> nat \<Rightarrow> fault + u8 list \<times> nat" where
  "its_loop num str i =
     (if num \<noteq> 0
      then rbind (aset str i (of_int (num smod 10) + of_char CHR ''0''))
             (\<lambda>str. its_loop (num sdiv 10) str (i + 1))
      else Inr (str, i))"
  by auto
termination
  by (relation "measure (\<lambda>(num, str, i). length str - i)") (auto simp: aset_def split: if_splits)

text \<open>The final loop of \<^verbatim>\<open>int_to_string\<close> is the loop of \<^verbatim>\<open>reverse\<close> written out.\<close>

definition int_to_string :: "int \<Rightarrow> u8 list \<Rightarrow> fault + u8 list" where
  "int_to_string num str =
     (if num = 0
      then rbind (aset str 0 (of_char CHR ''0'')) (\<lambda>str. aset str 1 0)
      else
        let isNegative = num < 0 in
        rbind (if isNegative then cneg num else Inr num) (\<lambda>num.
        rbind (its_loop num str 0) (\<lambda>(str, i).
        rbind (if isNegative
               then rbind (aset str i (of_char CHR ''-'')) (\<lambda>str. Inr (str, i + 1))
               else Inr (str, i)) (\<lambda>(str, i).
        rbind (aset str i 0) (\<lambda>str. reverse_loop str 0 (int i - 1))))))"

subsection \<open>\<^verbatim>\<open>sprintf\<close>\<close>

fun sprintf_loop :: "u8 list \<Rightarrow> varg list \<Rightarrow> u8 list \<Rightarrow> nat \<Rightarrow> fault + u8 list \<times> nat" where
  "sprintf_loop [] args str written = Inl OutOfBounds"
| "sprintf_loop (c # fmt) args str written =
     (if c = 0 then Inr (str, written)
      else if c \<noteq> of_char CHR ''%''
      then rbind (put_counted [c] str written) (\<lambda>(str, written). sprintf_loop fmt args str written)
      else (case fmt of
        [] \<Rightarrow> Inl OutOfBounds
      | d # fmt' \<Rightarrow>
        if d = of_char CHR ''d'' \<or> d = of_char CHR ''i'' then
          rbind (next_int args) (\<lambda>(val, args).
          rbind (itoa val (replicate 32 0) 10) (\<lambda>num_buffer.
          rbind (put_counted (takeWhile (\<lambda>c. c \<noteq> 0) num_buffer) str written) (\<lambda>(str, written).
          sprintf_loop fmt' args str written)))
        else if d = of_char CHR ''s'' then
          rbind (next_str args) (\<lambda>(val, args).
            case val of None \<Rightarrow> Inl NullPointer
            | Some val \<Rightarrow> rbind (put_counted val str written) (\<lambda>(str, written).
                sprintf_loop fmt' args str written))
        else if d = of_char CHR ''c'' then
          rbind (next_int args) (\<lambda>(val, args).
          rbind (put_counted [of_int val] str written) (\<lambda>(str, written).
          sprintf_loop fmt' args str written))
        else if d = of_char CHR ''%'' then
          rbind (put_counted [of_char CHR ''%''] str written) (\<lambda>(str, written).
          sprintf_loop fmt' args str written)
        else
          rbind (put_counted [of_char CHR ''%'', d] str written) (\<lambda>(str, written).
          sprintf_loop fmt' args str written)))"

definition sprintf :: "u8 list \<Rightarrow> u8 list \<Rightarrow> varg list \<Rightarrow> fault + u8 list \<times> int" where
  "sprintf str fmt args =
     rbind (sprintf_loop fmt args str 0) (\<lambda>(str, written).
     rbind (aset str written 0) (\<lambda>str. Inr (str, int written)))"

subsection \<open>Numerals\<close>

definition digit_char :: "nat \<Rightarrow> u8" where
  "digit_char d = (if d > 9 then of_nat (d - 10) + 97 else of_nat d + 48)"

fun numeral_in :: "nat \<Rightarrow> nat \<Rightarrow> u8 list" where
  "numeral_in b n =
     (if b < 2 \<or> n < b then [digit_char n] else numeral_in b (n div b) @ [digit_char (n mod b)])"

declare numeral_in.simps [simp del] vsn_digits.simps [simp del] its_loop.simps [simp del]
  itoa_loop.simps [simp del] reverse_loop.simps [simp del]

definition signed_text :: "int \<Rightarrow> nat \<Rightarrow> u8 list" where
  "signed_text v b = (if v < 0 then [45] else []) @ numeral_in b (nat \<bar>v\<bar>)"

abbreviation decimal :: "int \<Rightarrow> u8 list" where "decimal v \<equiv> signed_text v 10"

lemma digit_char_small: "d < 10 \<Longrightarrow> digit_char d = of_nat d + 48"
  by (simp add: digit_char_def)

lemma numeral_in_small: "n < b \<Longrightarrow> numeral_in b n = [digit_char n]"
  by (simp add: numeral_in.simps)

lemma numeral_in_step:
  "1 < b \<Longrightarrow> b \<le> n \<Longrightarrow> numeral_in b n = numeral_in b (n div b) @ [digit_char (n mod b)]"
  by (subst numeral_in.simps) simp

lemma numeral_in_not_Nil [simp]: "numeral_in b n \<noteq> []"
  by (subst numeral_in.simps) simp

lemma length_numeral_in: "1 < b \<Longrightarrow> 0 < k \<Longrightarrow> n < b ^ k \<Longrightarrow> length (numeral_in b n) \<le> k"
proof (induction k arbitrary: n)
  case (Suc k)
  show ?case
  proof (cases "n < b")
    case False
    then have "k \<noteq> 0" using Suc.prems by (cases k) auto
    moreover have "n div b < b ^ k"
      using Suc.prems by (simp add: less_mult_imp_div_less mult.commute)
    ultimately have "length (numeral_in b (n div b)) \<le> k" using Suc by simp
    then show ?thesis using False Suc.prems by (simp add: numeral_in_step)
  qed (use Suc in \<open>simp add: numeral_in_small\<close>)
qed simp

lemma sdiv_smod_nonneg:
  "0 \<le> v \<Longrightarrow> 0 < b \<Longrightarrow> v sdiv b = v div b" "0 \<le> v \<Longrightarrow> 0 < b \<Longrightarrow> v smod b = (v :: int) mod b"
  by (simp_all add: signed_divide_int_def signed_modulo_int_def sgn_if minus_div_mult_eq_mod)

lemma vsn_digits_numeral:
  "length num + length (numeral_in 10 n) \<le> 31 \<Longrightarrow>
   vsn_digits (int n) num = num @ rev (numeral_in 10 n)"
proof (induction "10 :: nat" n arbitrary: num rule: numeral_in.induct)
  case (1 n)
  have d: "int n sdiv 10 = int (n div 10)" "int n smod 10 = int (n mod 10)"
    by (simp_all add: sdiv_smod_nonneg zdiv_int zmod_int)
  show ?case
  proof (cases "n < 10")
    case True
    then show ?thesis
      by (subst vsn_digits.simps) (simp add: d numeral_in_small digit_char_small Let_def)
  next
    case False
    then have n: "n div 10 \<noteq> 0" by (simp add: div_greater_zero_iff)
    have len: "length num + 1 + length (numeral_in 10 (n div 10)) \<le> 31"
      using 1(2) False by (simp add: numeral_in_step)
    then have "length num + 1 < 31"
      using numeral_in_not_Nil [of 10 "n div 10"] by (cases "numeral_in 10 (n div 10)") auto
    then have "vsn_digits (int n) num =
        vsn_digits (int (n div 10)) (num @ [digit_char (n mod 10)])"
      using n by (subst vsn_digits.simps) (simp add: d digit_char_small Let_def add.commute)
    also have "\<dots> = num @ [digit_char (n mod 10)] @ rev (numeral_in 10 (n div 10))"
      using 1(1) [of "num @ [digit_char (n mod 10)]"] False len by simp
    finally show ?thesis using False by (simp add: numeral_in_step)
  qed
qed

lemma put_each_eq:
  "i \<le> length str \<Longrightarrow> put_each bs str i =
    (if i + length bs \<le> length str
     then Inr (take i str @ bs @ drop (i + length bs) str, i + length bs) else Inl OutOfBounds)"
proof (induction bs arbitrary: str i)
  case (Cons b bs)
  show ?case
  proof (cases "i < length str")
    case True
    then have "str[i := b] = take i str @ b # drop (Suc i) str" by (rule upd_conv_take_nth_drop)
    moreover have "Suc i + length bs = i + Suc (length bs)" by simp
    ultimately show ?thesis
      using True Cons.IH [of "Suc i" "str[i := b]"]
      by (simp add: take_Suc_conv_app_nth del: add_Suc_right) (simp add: add.commute)
  qed (use Cons in \<open>simp add: aset_def\<close>)
qed simp

lemma put_each_append:
  "put_each (xs @ ys) str i = rbind (put_each xs str i) (\<lambda>(str, i). put_each ys str i)"
proof (induction xs arbitrary: str i)
  case (Cons x xs)
  then show ?case by (cases "aset str i x") simp_all
qed simp

lemma itoa_loop_numeral:
  assumes "1 < b"
  shows "0 < n \<Longrightarrow> itoa_loop (int b) (int n) str i = put_each (rev (numeral_in b n)) str i"
  using assms
proof (induction b n arbitrary: str i rule: numeral_in.induct)
  case (1 b n)
  have d: "int n sdiv int b = int (n div b)" "int n smod int b = int (n mod b)"
    using 1 by (simp_all add: sdiv_smod_nonneg zdiv_int zmod_int)
  have "itoa_loop (int b) (int n) str i = rbind (aset str i (digit_char (n mod b)))
      (\<lambda>str. itoa_loop (int b) (int (n div b)) str (i + 1))"
    using 1(2,3) by (subst itoa_loop.simps) (simp add: d digit_char_def INT_MIN_def Let_def)
  also have "\<dots> = put_each (rev (numeral_in b n)) str i"
  proof (cases "n < b")
    case True
    then show ?thesis by (simp add: numeral_in_small itoa_loop.simps [of _ 0])
  next
    case False
    then have "0 < n div b" using 1(3) by (simp add: div_greater_zero_iff)
    then show ?thesis using 1 False by (simp add: numeral_in_step)
  qed
  finally show ?case .
qed

lemma its_loop_itoa_loop: "its_loop num str i = itoa_loop 10 num str i"
proof (induction num str i rule: its_loop.induct)
  case (1 num str i)
  have "\<not> num smod 10 > 9"
    using smod_int_range [of 10 num] by (cases "0 \<le> num") (auto simp: sdiv_smod_nonneg)
  with 1 show ?case
    by (subst its_loop.simps, subst itoa_loop.simps)
      (auto simp: Let_def INT_MIN_def aset_def)
qed

lemma reverse_loop_segment:
  "reverse_loop (a @ xs @ b) (int (length a)) (int (length a) + int (length xs) - 1)
    = Inr (a @ rev xs @ b)"
proof (induction xs arbitrary: a b rule: length_induct)
  case (1 xs)
  show ?case
  proof (cases "length xs < 2")
    case True
    then have "rev xs = xs" by (cases xs) auto
    then show ?thesis using True by (subst reverse_loop.simps) simp
  next
    case False
    then obtain x ys y where xs: "xs = x # ys @ [y]"
      by (cases xs; cases "tl xs" rule: rev_cases) auto
    let ?i = "length a" and ?j = "Suc (length a + length ys)"
    have upd: "(a @ xs @ b)[?i := y, ?j := x] = (a @ [y]) @ ys @ [x] @ b"
      by (simp add: xs list_update_append)
    have get: "(a @ xs @ b) ! ?i = x" "(a @ xs @ b) ! ?j = y"
      by (simp_all add: xs nth_append)
    have nat: "nat (int ?i + int (length xs) - 1) = ?j" by (simp add: xs)
    have "reverse_loop (a @ xs @ b) (int ?i) (int ?i + int (length xs) - 1)
        = reverse_loop ((a @ xs @ b)[?i := y, ?j := x]) (int ?i + 1) (int ?i + int (length xs) - 2)"
      using get by (subst reverse_loop.simps) (simp only: nat nat_int, simp add: xs)
    also have "\<dots> = reverse_loop ((a @ [y]) @ ys @ [x] @ b) (int (length (a @ [y])))
        (int (length (a @ [y])) + int (length ys) - 1)"
      unfolding upd by (simp add: xs algebra_simps)
    also have "\<dots> = Inr ((a @ [y]) @ rev ys @ [x] @ b)"
      using 1 [rule_format, of ys "a @ [y]" "[x] @ b"] by (simp add: xs)
    finally show ?thesis by (simp add: xs)
  qed
qed

lemma reverse_prefix: "reverse (xs @ b) (int (length xs)) = Inr (rev xs @ b)"
  using reverse_loop_segment [of "[]" xs b] by (simp add: reverse_def)

text \<open>The common end of the conversions: terminate the reversed text and turn it around.\<close>

lemma finish_text:
  assumes "length ts \<le> length str"
  shows "rbind (aset (ts @ drop (length ts) str) (length ts) 0)
      (\<lambda>str. reverse str (int (length ts)))
    = (if length ts < length str then Inr (rev ts @ [0] @ drop (Suc (length ts)) str)
       else Inl OutOfBounds)"
proof (cases "length ts < length str")
  case True
  then have "(ts @ drop (length ts) str)[length ts := 0] = ts @ 0 # drop (Suc (length ts)) str"
    by (simp add: list_update_append Cons_nth_drop_Suc [symmetric])
  then show ?thesis using True reverse_prefix [of ts "0 # drop (Suc (length ts)) str"] by simp
qed (simp add: aset_def)

lemma itoa_nonzero:
  assumes "v \<noteq> 0" and "1 < b" and "0 \<le> v \<or> b = 10"
  shows "itoa v str (int b) =
    (if v = INT_MIN then Inl SignedOverflow
     else if length (signed_text v b) < length str
       then Inr (signed_text v b @ [0] @ drop (Suc (length (signed_text v b))) str)
     else Inl OutOfBounds)"
proof (cases "v = INT_MIN")
  case True
  then show ?thesis using assms(2,3) by (simp add: itoa_def cneg_def INT_MIN_def Let_def)
next
  case False
  let ?ds = "rev (numeral_in b (nat \<bar>v\<bar>))"
  let ?ts = "rev (signed_text v b)"
  have "itoa v str (int b) =
      rbind (itoa_loop (int b) (int (nat \<bar>v\<bar>)) str 0) (\<lambda>(str, i).
      rbind (if v < 0 then rbind (aset str i 45) (\<lambda>str. Inr (str, i + 1)) else Inr (str, i))
        (\<lambda>(str, i). rbind (aset str i 0) (\<lambda>str. reverse str (int i))))"
    using assms False by (cases "v < 0") (auto simp add: itoa_def cneg_def Let_def)
  also have "itoa_loop (int b) (int (nat \<bar>v\<bar>)) str 0 = put_each ?ds str 0"
    using assms itoa_loop_numeral [of b "nat \<bar>v\<bar>" str 0] by simp
  also have "rbind (put_each ?ds str 0) (\<lambda>(str, i).
      rbind (if v < 0 then rbind (aset str i 45) (\<lambda>str. Inr (str, i + 1)) else Inr (str, i))
        (\<lambda>(str, i). rbind (aset str i 0) (\<lambda>str. reverse str (int i))))
    = rbind (put_each ?ts str 0) (\<lambda>(str, i). rbind (aset str i 0) (\<lambda>str. reverse str (int i)))"
    by (cases "v < 0") (simp_all add: signed_text_def put_each_append rbind_assoc case_prod_unfold)
  also have "\<dots> = (if length ?ts < length str
      then Inr (rev ?ts @ [0] @ drop (Suc (length ?ts)) str) else Inl OutOfBounds)"
  proof (cases "length ?ts \<le> length str")
    case True
    then have "put_each ?ts str 0 = Inr (?ts @ drop (length ?ts) str, length ?ts)"
      by (simp add: put_each_eq)
    then show ?thesis using finish_text [OF True] by (simp only: rbind_simps prod.case)
  qed (simp add: put_each_eq)
  finally show ?thesis using False by simp
qed

lemma itoa_text:
  assumes "1 < b" and "0 \<le> v \<or> b = 10"
  shows "itoa v str (int b) =
    (if v = INT_MIN then Inl SignedOverflow
     else if length (signed_text v b) < length str
       then Inr (signed_text v b @ [0] @ drop (Suc (length (signed_text v b))) str)
     else Inl OutOfBounds)"
proof (cases "v = 0")
  case True
  have "signed_text 0 b = [48]" using assms(1) by (simp add: signed_text_def numeral_in_small digit_char_def)
  moreover have "length str > 1 \<Longrightarrow> str[0 := 48, Suc 0 := 0] = 48 # 0 # drop 2 str"
    by (cases str; cases "tl str") auto
  ultimately show ?thesis
    using True by (auto simp: itoa_def aset_def INT_MIN_def numeral_2_eq_2 rbind_def)
qed (use itoa_nonzero assms in blast)

lemma int_to_string_itoa: "int_to_string v str = itoa v str 10"
  by (simp add: int_to_string_def itoa_def its_loop_itoa_loop reverse_def)

subsection \<open>The reference rendering\<close>

definition string_arg :: "u8 list option \<Rightarrow> u8 list" where
  "string_arg s = (case s of None \<Rightarrow> chars ''(null)'' | Some s \<Rightarrow> s)"

text \<open>What \<^verbatim>\<open>vsnprintf\<close> prints, without a limit, and the arguments it needs for that.\<close>

fun render :: "u8 list \<Rightarrow> varg list \<Rightarrow> u8 list" where
  "render [] args = []"
| "render (c # fmt) args =
     (if c \<noteq> 37 then c # render fmt args
      else (case fmt of [] \<Rightarrow> []
        | d # fmt' \<Rightarrow>
          if d = 115 then
            (case args of VStr s # args' \<Rightarrow> string_arg s @ render fmt' args' | _ \<Rightarrow> [])
          else if d = 100 then
            (case args of VInt v # args' \<Rightarrow> decimal (sint v) @ render fmt' args' | _ \<Rightarrow> [])
          else d # render fmt' args))"

fun args_ok :: "nat \<Rightarrow> u8 list \<Rightarrow> varg list \<Rightarrow> bool" where
  "args_ok lim [] args = True"
| "args_ok lim (c # fmt) args =
     (if c \<noteq> 37 then args_ok lim fmt args
      else (case fmt of [] \<Rightarrow> True
        | d # fmt' \<Rightarrow>
          if d = 115 then
            (case args of VStr s # args' \<Rightarrow> length (string_arg s) \<le> lim \<and> args_ok lim fmt' args'
             | _ \<Rightarrow> False)
          else if d = 100 then
            (case args of VInt v # args' \<Rightarrow> sint v \<noteq> INT_MIN \<and> args_ok lim fmt' args' | _ \<Rightarrow> False)
          else args_ok lim fmt' args))"

text \<open>Writing at an index, cut off one byte before the size.\<close>

definition trunc_write :: "nat \<Rightarrow> u8 list \<Rightarrow> u8 list \<Rightarrow> nat \<Rightarrow> u8 list \<times> nat" where
  "trunc_write sz out str w =
     (let out = take (sz - 1 - w) out
      in (take w str @ out @ drop (w + length out) str, w + length out))"

lemma trunc_write_Nil [simp]: "trunc_write sz [] str w = (str, w)"
  by (simp add: trunc_write_def)

lemma trunc_write_full: "sz - 1 \<le> w \<Longrightarrow> trunc_write sz out str w = (str, w)"
  by (simp add: trunc_write_def)

lemma trunc_write_bounds:
  assumes "w \<le> sz - 1" and "sz \<le> length str" and "trunc_write sz out str w = (str', w')"
  shows "length str' = length str" and "w' \<le> sz - 1"
  using assms by (auto simp: trunc_write_def Let_def)

lemma trunc_write_append:
  assumes "w \<le> sz - 1" and "sz \<le> length str" and "trunc_write sz xs str w = (str', w')"
  shows "trunc_write sz ys str' w' = trunc_write sz (xs @ ys) str w"
proof (cases "length xs \<le> sz - 1 - w")
  case True
  then have "str' = take w str @ xs @ drop (w + length xs) str" and "w' = w + length xs"
    using assms(3) by (auto simp: trunc_write_def Let_def)
  moreover have "length str \<le> w \<Longrightarrow> str = []" using assms(1,2) by (cases str) auto
  ultimately show ?thesis
    using True assms(1,2) by (simp add: trunc_write_def Let_def min_def add.assoc add.commute add.left_commute) auto
next
  case False
  then have "w' = sz - 1" using assms by (auto simp: trunc_write_def Let_def)
  then show ?thesis
    using False assms by (auto simp: trunc_write_def Let_def)
qed

lemma trunc_write_single:
  assumes "w < sz - 1" and "sz \<le> length str"
  shows "trunc_write sz [c] str w = (str[w := c], Suc w)"
proof -
  have "take (sz - 1 - w) [c] = [c]" using assms(1) by (simp add: take_Cons')
  then show ?thesis using assms by (simp add: trunc_write_def Let_def upd_conv_take_nth_drop)
qed

lemma trunc_write_Cons:
  assumes "w < sz - 1" and "sz \<le> length str"
  shows "trunc_write sz out (str[w := c]) (Suc w) = trunc_write sz (c # out) str w"
  using trunc_write_append [of w sz str "[c]" "str[w := c]" "Suc w" out] assms
  by (simp add: trunc_write_single)

lemma vsn_emit_trunc:
  "sz \<le> length str \<Longrightarrow> vsn_emit sz cs str w = Inr (trunc_write sz cs str w)"
proof (induction cs arbitrary: str w)
  case (Cons c cs)
  show ?case
  proof (cases "w < sz - 1")
    case True
    then show ?thesis
      using Cons trunc_write_Cons [of w sz str cs c] by simp
  qed (simp add: trunc_write_full)
qed simp

lemma vsn_str_trunc:
  assumes "w \<le> sz - 1" and "0 < sz" and "sz \<le> length str" and "length (string_arg s) + sz < 2 ^ 32"
  shows "vsn_str sz s str w = Inr (trunc_write sz (string_arg s) str w)"
proof -
  let ?bs = "string_arg s"
  have m: "(w + length ?bs) mod 2 ^ 32 = w + length ?bs" using assms by simp
  define len where "len = (if w + length ?bs \<ge> sz - 1 then sz - w - 1 else length ?bs)"
  have t: "take (sz - 1 - w) ?bs = take len ?bs" "length (take len ?bs) = len"
    using assms(1) by (auto simp: len_def)
  have "vsn_str sz s str w = rbind (put_bytes str w (take len ?bs)) (\<lambda>str. Inr (str, w + len))"
    unfolding vsn_str_def string_arg_def [symmetric] Let_def m len_def ..
  also have "put_bytes str w (take len ?bs) = Inr (take w str @ take len ?bs @ drop (w + len) str)"
    using assms(1-3) unfolding put_bytes_def t(2) by (auto simp: len_def)
  finally show ?thesis using t by (simp add: trunc_write_def Let_def)
qed

lemma vsn_int_trunc:
  assumes "w < sz - 1" and "sz \<le> length str" and "\<bar>v\<bar> < 2 ^ 31"
  shows "vsn_int sz v str w = Inr (trunc_write sz (decimal v) str w)"
proof -
  have "length (numeral_in 10 (nat \<bar>v\<bar>)) \<le> 10"
    using assms(3) by (intro length_numeral_in) simp_all
  then have d: "vsn_digits \<bar>v\<bar> [] = rev (numeral_in 10 (nat \<bar>v\<bar>))"
    using vsn_digits_numeral [of "[]" "nat \<bar>v\<bar>"] by simp
  show ?thesis
  proof (cases "v < 0")
    case True
    then have "v \<noteq> INT_MIN" using assms(3) by (auto simp: INT_MIN_def)
    with True d have "vsn_int sz v str w = rbind (aset str w 45)
        (\<lambda>str. vsn_emit sz (numeral_in 10 (nat \<bar>v\<bar>)) str (Suc w))"
      by (cases "aset str w 45") (simp_all add: vsn_int_def cneg_def)
    also have "\<dots> = Inr (trunc_write sz (decimal v) str w)"
      using True assms trunc_write_Cons [of w sz str "numeral_in 10 (nat \<bar>v\<bar>)" 45]
      by (simp add: vsn_emit_trunc signed_text_def)
    finally show ?thesis .
  next
    case False
    then show ?thesis
      using d assms(2) by (simp add: vsn_int_def vsn_emit_trunc signed_text_def)
  qed
qed

lemma sint32_bounds: "- (2 ^ 31) \<le> sint (v :: u32)" "sint (v :: u32) < 2 ^ 31"
  using sint_range_size [of v] by (auto simp: word_size)

text \<open>One turn of the format loop per case, with the terminator at the end of the format.\<close>

lemma vsn_loop_render:
  assumes "0 < sz" and "sz \<le> length str" and "w \<le> sz - 1" and "lim + sz < 2 ^ 32"
    and "0 \<notin> set fmt" and "args_ok lim fmt args"
  shows "vsn_loop sz (fmt @ [0]) args str w = Inr (trunc_write sz (render fmt args) str w)"
  using assms
proof (induction fmt arbitrary: args str w rule: length_induct)
  case (1 fmt)
  note IH = "1.IH" [rule_format]
  note sz = "1.prems"(1-4)
  show ?case
  proof (cases "w < sz - 1")
    case False
    then show ?thesis by (cases fmt) (simp_all add: trunc_write_full)
  next
    case w: True
    have continue: "(case trunc_write sz xs str w of (str, w) \<Rightarrow> vsn_loop sz (fmt' @ [0]) args' str w)
        = Inr (trunc_write sz (xs @ render fmt' args') str w)"
      if "length fmt' < length fmt" "0 \<notin> set fmt'" "args_ok lim fmt' args'" for xs fmt' args'
    proof -
      obtain str' w' where t: "trunc_write sz xs str w = (str', w')" by fastforce
      note b = trunc_write_bounds [OF sz(3,2) t]
      show ?thesis
        using IH [of fmt' str' w' args'] that b sz trunc_write_append [OF sz(3,2) t, of "render fmt' args'"]
        by (simp add: t)
    qed
    have one: "rbind (aset str w c) (\<lambda>str. vsn_loop sz (fmt' @ [0]) args str (w + 1))
        = Inr (trunc_write sz (c # render fmt' args) str w)"
      if "length fmt' < length fmt" "0 \<notin> set fmt'" "args_ok lim fmt' args" for c fmt'
      using continue [OF that, of "[c]"] trunc_write_single [OF w sz(2), of c] w sz by simp
    show ?thesis
    proof (cases fmt)
      case (Cons c fmt1)
      show ?thesis
      proof (cases "c = 37")
        case False
        then show ?thesis using Cons one [of fmt1 c] "1.prems"(5,6) w by simp
      next
        case pct: True
        show ?thesis
        proof (cases fmt1)
          case Nil
          then show ?thesis using Cons pct by simp
        next
          case (Cons d fmt')
          note fmt = \<open>fmt = c # fmt1\<close> pct Cons
          have d0: "d \<noteq> 0" "0 \<notin> set fmt'" "length fmt' < length fmt"
            using "1.prems"(5) by (auto simp: fmt)
          consider "d = 115" | "d = 100" | "d \<noteq> 115" "d \<noteq> 100" by blast
          then show ?thesis
          proof cases
            case 1
            then obtain s args' where a: "args = VStr s # args'" "length (string_arg s) \<le> lim"
              "args_ok lim fmt' args'"
              using "1.prems"(6) by (auto simp: fmt split: list.splits varg.splits)
            have "vsn_str sz s str w = Inr (trunc_write sz (string_arg s) str w)"
              using a(2) sz by (intro vsn_str_trunc) simp_all
            then show ?thesis
              using 1 a w d0 continue [of fmt' args' "string_arg s"] by (simp add: fmt)
          next
            case 2
            then obtain v args' where a: "args = VInt v # args'" "sint v \<noteq> INT_MIN"
              "args_ok lim fmt' args'"
              using "1.prems"(6) by (auto simp: fmt split: list.splits varg.splits)
            have "\<bar>sint v\<bar> < 2 ^ 31"
              using sint32_bounds [of v] a(2) by (auto simp: INT_MIN_def abs_less_iff)
            then have "vsn_int sz (sint v) str w = Inr (trunc_write sz (decimal (sint v)) str w)"
              using w sz by (intro vsn_int_trunc)
            then show ?thesis
              using 2 a w d0 continue [of fmt' args' "decimal (sint v)"] by (simp add: fmt)
          next
            case 3
            then have "args_ok lim fmt' args" using "1.prems"(6) by (simp add: fmt)
            then show ?thesis using 3 w d0 one [of fmt' d] by (simp add: fmt)
          qed
        qed
      qed
    qed simp
  qed
qed

lemma size_to_int_eq:
  assumes "n < 2 ^ 32"
  shows "size_to_int n = (if n < 2 ^ 31 then int n else int n - 2 ^ 32)"
proof -
  have m: "n mod 4294967296 = n" using assms by simp
  have n: "take_bit 32 (int n) = int n" using assms by (simp add: take_bit_int_eq_self_iff)
  have "bit n 31 \<longleftrightarrow> odd (n div 2 ^ 31)" by (rule bit_iff_odd)
  then have "bit (int n) 31 \<longleftrightarrow> odd (n div 2 ^ 31)" by (simp only: bit_of_nat_iff_bit)
  moreover have "odd (n div 2 ^ 31) \<longleftrightarrow> \<not> n < 2 ^ 31"
  proof (cases "n < 2 ^ 31")
    case False
    then have "n div 2 ^ 31 = 1" using assms by (intro div_nat_eqI) simp_all
    then show ?thesis using False by simp
  qed simp
  ultimately show ?thesis
    by (simp add: size_to_int_def sint_uint uint_nat unat_of_nat signed_take_bit_eq_take_bit_minus m n)
qed

lemma size_to_int_small: "n < 2 ^ 31 \<Longrightarrow> size_to_int n = int n"
  by (simp add: size_to_int_eq)

lemma vsnprintf_text:
  assumes "0 < sz" and "sz \<le> length str" and "lim + sz < 2 ^ 32"
    and "0 \<notin> set fmt" and "args_ok lim fmt args"
  defines "out \<equiv> take (sz - 1) (render fmt args)"
  shows "vsnprintf (Some str) sz (Some (fmt @ [0])) args =
    Inr (Some (out @ [0] @ drop (Suc (length out)) str), size_to_int (length out))"
proof -
  have loop: "vsn_loop sz (fmt @ [0]) args str 0 = Inr (out @ drop (length out) str, length out)"
    using vsn_loop_render [OF assms(1,2) _ assms(3-5), of 0]
    by (simp add: trunc_write_def Let_def out_def)
  have "length out < length str" using assms(1,2) by (simp add: out_def)
  then have "(out @ drop (length out) str)[length out := 0] = out @ 0 # drop (Suc (length out)) str"
    by (simp add: list_update_append Cons_nth_drop_Suc [symmetric])
  with loop \<open>length out < length str\<close> show ?thesis using assms(1) by (simp add: vsnprintf_def)
qed

subsection \<open>Safety with arbitrary arguments\<close>

text \<open>The outcome is not an access outside the buffer, and the bytes from the size on are kept.\<close>

definition within :: "nat \<Rightarrow> u8 list \<Rightarrow> fault + u8 list \<times> nat \<Rightarrow> bool" where
  "within sz str r \<longleftrightarrow> (case r of Inl e \<Rightarrow> e \<noteq> OutOfBounds
     | Inr (str', w) \<Rightarrow> length str' = length str \<and> w \<le> sz - 1 \<and> drop sz str' = drop sz str)"

lemma within_simps [simp]:
  "within sz str (Inl e) \<longleftrightarrow> e \<noteq> OutOfBounds"
  "within sz str (Inr (str', w)) \<longleftrightarrow>
     length str' = length str \<and> w \<le> sz - 1 \<and> drop sz str' = drop sz str"
  by (simp_all add: within_def)

lemma within_bind:
  assumes "within sz str r"
    and "\<And>str' w. r = Inr (str', w) \<Longrightarrow> length str' = length str \<Longrightarrow> w \<le> sz - 1 \<Longrightarrow>
      within sz str' (f (str', w))"
  shows "within sz str (rbind r f)"
proof (cases r)
  case (Inr v)
  obtain str' w where v: "v = (str', w)" by fastforce
  then have k: "length str' = length str" "w \<le> sz - 1" "drop sz str' = drop sz str"
    using assms(1) Inr by simp_all
  have "within sz str' (f (str', w))" using assms(2) k Inr v by simp
  then show ?thesis using Inr v k by (auto simp: within_def split: sum.splits)
qed (use assms(1) in simp)

lemma trunc_write_within:
  assumes "0 < sz" and "sz \<le> length str" and "w \<le> sz - 1"
  shows "within sz str (Inr (trunc_write sz out str w))"
  using assms by (auto simp: trunc_write_def Let_def)

lemma vsn_int_within:
  assumes "sz \<le> length str" and "w < sz - 1"
  shows "within sz str (vsn_int sz (sint (v :: u32)) str w)"
proof (cases "sint v = INT_MIN")
  case True
  then show ?thesis using assms by (simp add: vsn_int_def cneg_def INT_MIN_def)
next
  case False
  then have "\<bar>sint v\<bar> < 2 ^ 31" using sint32_bounds [of v] by (auto simp: INT_MIN_def abs_less_iff)
  then show ?thesis using vsn_int_trunc [OF assms(2,1)] trunc_write_within [of sz str w] assms by simp
qed

lemma vsn_loop_within:
  assumes "0 < sz" and "sz \<le> length str" and "w \<le> sz - 1" and "0 \<notin> set fmt"
    and "\<forall>s. VStr s \<in> set args \<longrightarrow> length (string_arg s) + sz < 2 ^ 32"
  shows "within sz str (vsn_loop sz (fmt @ [0]) args str w)"
  using assms
proof (induction fmt arbitrary: args str w rule: length_induct)
  case (1 fmt)
  note IH = "1.IH" [rule_format]
  note sz = "1.prems"(1-3)
  note strs = "1.prems"(5)
  show ?case
  proof (cases "w < sz - 1")
    case False
    then show ?thesis using sz by (cases fmt) simp_all
  next
    case w: True
    have next_turn: "within sz str (rbind r (\<lambda>(str, w). vsn_loop sz (fmt' @ [0]) args' str w))"
      if "within sz str r" "length fmt' < length fmt" "0 \<notin> set fmt'" "set args' \<subseteq> set args"
      for r fmt' args'
    proof (rule within_bind [OF that(1)])
      fix str' :: "u8 list" and w' assume s': "length str' = length str" "w' \<le> sz - 1"
      show "within sz str' (case (str', w') of (str, w) \<Rightarrow> vsn_loop sz (fmt' @ [0]) args' str w)"
      proof -
        have "\<forall>s. VStr s \<in> set args' \<longrightarrow> length (string_arg s) + sz < 2 ^ 32"
          using strs that(4) by blast
        then show ?thesis using IH [OF that(2) sz(1) _ s'(2) that(3), of str' args'] s'(1) sz(2) by simp
      qed
    qed
    have one: "within sz str (rbind (aset str w c) (\<lambda>str. vsn_loop sz (fmt' @ [0]) args str (w + 1)))"
      if "length fmt' < length fmt" "0 \<notin> set fmt'" for c fmt'
      using next_turn [of "Inr (str[w := c], Suc w)" fmt' args] that w sz by simp
    show ?thesis
    proof (cases fmt)
      case (Cons c fmt1)
      show ?thesis
      proof (cases "c = 37")
        case False
        then show ?thesis using Cons one [of fmt1 c] "1.prems"(4) w by simp
      next
        case pct: True
        show ?thesis
        proof (cases fmt1)
          case Nil
          then show ?thesis using Cons pct sz by simp
        next
          case (Cons d fmt')
          note fmt = \<open>fmt = c # fmt1\<close> pct Cons
          have d0: "d \<noteq> 0" "0 \<notin> set fmt'" "length fmt' < length fmt"
            using "1.prems"(4) by (auto simp: fmt)
          consider "d = 115" | "d = 100" | "d \<noteq> 115" "d \<noteq> 100" by blast
          then show ?thesis
          proof cases
            case 1
            show ?thesis
            proof (cases "next_str args")
              case (Inr p)
              then obtain s args' where a: "args = VStr s # args'" "p = (s, args')"
                by (cases args rule: next_str.cases) auto
              have "within sz str (vsn_str sz s str w)"
                using vsn_str_trunc [OF sz(3,1,2), of s] strs a trunc_write_within [OF sz] by simp
              then show ?thesis
                using 1 a w d0 next_turn [of "vsn_str sz s str w" fmt' args'] by (auto simp: fmt)
            qed (use 1 w d0 in \<open>cases args rule: next_str.cases; simp add: fmt\<close>)
          next
            case 2
            show ?thesis
            proof (cases "next_int args")
              case (Inr p)
              then obtain v args' where a: "args = VInt v # args'" "p = (sint v, args')"
                by (cases args rule: next_int.cases) auto
              then show ?thesis
                using 2 w d0 next_turn [of "vsn_int sz (sint v) str w" fmt' args']
                  vsn_int_within [OF sz(2) w] by (auto simp: fmt)
            qed (use 2 w d0 in \<open>cases args rule: next_int.cases; simp add: fmt\<close>)
          next
            case 3
            then show ?thesis using w d0 one [of fmt' d] by (simp add: fmt)
          qed
        qed
      qed
    qed (use sz in simp)
  qed
qed

subsection \<open>\<^verbatim>\<open>sprintf\<close> and reading numbers back\<close>

fun sp_render :: "u8 list \<Rightarrow> varg list \<Rightarrow> u8 list" where
  "sp_render [] args = []"
| "sp_render (c # fmt) args =
     (if c \<noteq> 37 then c # sp_render fmt args
      else (case (fmt, args) of
          ([], _) \<Rightarrow> []
        | (d # fmt', VInt v # args') \<Rightarrow>
            if d = 100 \<or> d = 105 then decimal (sint v) @ sp_render fmt' args'
            else if d = 99 then of_int (sint v) # sp_render fmt' args'
            else (if d = 37 then [37] else [37, d]) @ sp_render fmt' args
        | (d # fmt', VStr (Some s) # args') \<Rightarrow>
            if d = 115 then s @ sp_render fmt' args'
            else (if d = 37 then [37] else [37, d]) @ sp_render fmt' args
        | (d # fmt', _) \<Rightarrow> (if d = 37 then [37] else [37, d]) @ sp_render fmt' args))"

text \<open>The arguments fit the directives and the format does not end in a lone percent sign.\<close>

fun sp_ok :: "u8 list \<Rightarrow> varg list \<Rightarrow> bool" where
  "sp_ok [] args = True"
| "sp_ok (c # fmt) args =
     (if c \<noteq> 37 then sp_ok fmt args
      else (case fmt of [] \<Rightarrow> False
        | d # fmt' \<Rightarrow>
          if d = 100 \<or> d = 105 then
            (case args of VInt v # args' \<Rightarrow> sint v \<noteq> INT_MIN \<and> sp_ok fmt' args' | _ \<Rightarrow> False)
          else if d = 99 then (case args of VInt v # args' \<Rightarrow> sp_ok fmt' args' | _ \<Rightarrow> False)
          else if d = 115 then
            (case args of VStr (Some s) # args' \<Rightarrow> sp_ok fmt' args' | _ \<Rightarrow> False)
          else sp_ok fmt' args))"

lemma unat_digit: "d < 10 \<Longrightarrow> unat (digit_char d) = d + 48"
proof -
  assume d: "d < 10"
  then have "digit_char d = of_nat (d + 48)" by (simp add: digit_char_small)
  then show ?thesis using d by (simp only: unat_of_nat) simp
qed

lemma digit_char_not_0: "d < 10 \<Longrightarrow> digit_char d \<noteq> 0"
  using unat_digit [of d] by auto

lemma numeral_nonzero: "0 \<notin> set (numeral_in 10 n)"
proof (induction "10 :: nat" n rule: numeral_in.induct)
  case (1 n)
  then show ?case
    using digit_char_not_0 [of "n mod 10"] digit_char_not_0 [of n]
    by (cases "n < 10") (auto simp: numeral_in_small numeral_in_step)
qed

lemma decimal_nonzero: "0 \<notin> set (decimal v)"
  by (simp add: signed_text_def numeral_nonzero)

lemma length_decimal:
  assumes "\<bar>v\<bar> < 2 ^ 31"
  shows "length (decimal v) \<le> 11"
proof -
  have "length (numeral_in 10 (nat \<bar>v\<bar>)) \<le> 10"
    using assms by (intro length_numeral_in) simp_all
  then show ?thesis by (cases "v < 0") (auto simp add: signed_text_def)
qed

lemma itoa_buffer:
  assumes "sint (v :: u32) \<noteq> INT_MIN"
  shows "\<exists>r. itoa (sint v) (replicate 32 0) 10 = Inr r \<and> takeWhile (\<lambda>c. c \<noteq> 0) r = decimal (sint v)"
proof -
  have "\<bar>sint v\<bar> < 2 ^ 31"
    using sint32_bounds [of v] assms by (auto simp: INT_MIN_def abs_less_iff)
  then have "length (decimal (sint v)) < 32" using length_decimal [of "sint v"] by simp
  moreover have "takeWhile (\<lambda>c. c \<noteq> 0) (decimal (sint v) @ 0 # xs) = decimal (sint v)" for xs
    using decimal_nonzero [of "sint v"] by (subst takeWhile_append2) auto
  ultimately show ?thesis using itoa_text [of 10 "sint v"] assms by simp
qed

lemma put_counted_append:
  "put_counted (xs @ ys) str i = rbind (put_counted xs str i) (\<lambda>(str, i). put_counted ys str i)"
  by (induction xs arbitrary: str i) (auto simp: rbind_assoc intro!: rbind_cong)

lemma put_counted_eq: "length str < 2 ^ 31 \<Longrightarrow> put_counted cs str w = put_each cs str w"
  by (induction cs arbitrary: str w) (auto simp: aset_def)

lemma sprintf_loop_render:
  assumes "0 \<notin> set fmt" and "sp_ok fmt args"
  shows "sprintf_loop (fmt @ [0]) args str w = put_counted (sp_render fmt args) str w"
  using assms
proof (induction fmt arbitrary: args str w rule: length_induct)
  case (1 fmt)
  note IH = "1.IH" [rule_format]
  show ?case
  proof (cases fmt)
    case (Cons c fmt1)
    show ?thesis
    proof (cases "c = 37")
      case False
      show ?thesis
      proof -
        have IH1: "sprintf_loop (fmt1 @ [0]) args str w = put_counted (sp_render fmt1 args) str w" for str w
          using Cons IH [of fmt1 args] "1.prems" False by simp
        have "put_counted (c # sp_render fmt1 args) str w
            = rbind (put_counted [c] str w) (\<lambda>(str, w). sprintf_loop (fmt1 @ [0]) args str w)"
          using put_counted_append [of "[c]" "sp_render fmt1 args" str w] unfolding IH1 by simp
        then show ?thesis using Cons "1.prems" False by (simp del: put_counted.simps)
      qed
    next
      case pct: True
      then obtain d fmt' where fmt: "fmt = c # d # fmt'"
        using Cons "1.prems"(2) by (cases fmt1) auto
      have d0: "d \<noteq> 0" and IH': "\<And>args str w. sp_ok fmt' args \<Longrightarrow>
          sprintf_loop (fmt' @ [0]) args str w = put_counted (sp_render fmt' args) str w"
        using "1.prems"(1) IH [of fmt'] by (auto simp: fmt)
      have chunk: "rbind (put_counted xs str w) (\<lambda>(str, w). sprintf_loop (fmt' @ [0]) args' str w)
          = put_counted (xs @ sp_render fmt' args') str w" if "sp_ok fmt' args'" for xs args'
        using IH' [OF that] by (simp add: put_counted_append)
      consider "d = 100 \<or> d = 105" | "d = 99" | "d = 115"
        | "d \<noteq> 100" "d \<noteq> 105" "d \<noteq> 99" "d \<noteq> 115" by blast
      then show ?thesis
      proof cases
        case 1
        then obtain v args' where a: "args = VInt v # args'" "sint v \<noteq> INT_MIN" "sp_ok fmt' args'"
          using "1.prems"(2) pct by (auto simp: fmt split: list.splits varg.splits)
        obtain r where r: "itoa (sint v) (replicate 32 0) 10 = Inr r"
          "takeWhile (\<lambda>c. c \<noteq> 0) r = decimal (sint v)" using itoa_buffer [OF a(2)] by blast
        show ?thesis using 1 a r pct chunk [OF a(3), of "decimal (sint v)"] by (auto simp: fmt)
      next
        case 2
        then obtain v args' where a: "args = VInt v # args'" "sp_ok fmt' args'"
          using "1.prems"(2) pct by (auto simp: fmt split: list.splits varg.splits)
        then show ?thesis using 2 pct chunk [OF a(2), of "[of_int (sint v)]"]
          by (simp add: fmt del: put_counted.simps)
      next
        case 3
        then obtain s args' where a: "args = VStr (Some s) # args'" "sp_ok fmt' args'"
          using "1.prems"(2) pct by (auto simp: fmt split: list.splits varg.splits option.splits)
        then show ?thesis using 3 pct chunk [OF a(2), of s] by (simp add: fmt)
      next
        case 4
        then have ok: "sp_ok fmt' args" using "1.prems"(2) pct by (simp add: fmt)
        have r: "sp_render fmt args = (if d = 37 then [37] else [37, d]) @ sp_render fmt' args"
          using 4 pct by (auto simp: fmt split: list.splits varg.splits option.splits)
        show ?thesis unfolding r
          using 4 pct chunk [OF ok, of "if d = 37 then [37] else [37, d]"]
          by (auto simp: fmt simp del: put_counted.simps)
      qed
    qed
  qed simp
qed

definition parse_nat :: "u8 list \<Rightarrow> nat" where
  "parse_nat = foldl (\<lambda>n c. 10 * n + (unat c - 48)) 0"

definition parse_int :: "u8 list \<Rightarrow> int" where
  "parse_int cs = (if cs \<noteq> [] \<and> hd cs = 45 then - int (parse_nat (tl cs)) else int (parse_nat cs))"

lemma parse_numeral: "parse_nat (numeral_in 10 n) = n"
proof (induction "10 :: nat" n rule: numeral_in.induct)
  case (1 n)
  then show ?case
    by (cases "n < 10") (simp_all add: numeral_in_small numeral_in_step parse_nat_def unat_digit)
qed

lemma numeral_no_minus: "hd (numeral_in 10 n) \<noteq> 45"
proof (induction "10 :: nat" n rule: numeral_in.induct)
  case (1 n)
  then show ?case
    using unat_digit [of n]
    by (cases "n < 10") (auto simp: numeral_in_small numeral_in_step word_unat_eq_iff)
qed

lemma parse_decimal: "parse_int (decimal v) = v"
  using numeral_no_minus [of "nat v"] by (simp add: parse_int_def signed_text_def parse_numeral)

lemma sprintf_text:
  assumes "0 \<notin> set fmt" and "sp_ok fmt args" and "length str < 2 ^ 31"
  defines "out \<equiv> sp_render fmt args"
  shows "sprintf str (fmt @ [0]) args =
    (if length out < length str then Inr (out @ [0] @ drop (Suc (length out)) str, int (length out))
     else Inl OutOfBounds)"
proof -
  have loop: "sprintf_loop (fmt @ [0]) args str 0 = put_each out str 0"
    using sprintf_loop_render [OF assms(1,2)] put_counted_eq [OF assms(3)] by (simp add: out_def)
  have "(out @ drop (length out) str)[length out := 0] = out @ 0 # drop (Suc (length out)) str"
    if "length out < length str"
    using that by (simp add: list_update_append Cons_nth_drop_Suc [symmetric])
  with loop show ?thesis by (auto simp: sprintf_def put_each_eq aset_def)
qed

subsection \<open>Properties\<close>



text \<open>
  Whatever the format and the arguments, \<^verbatim>\<open>snprintf\<close> never accesses memory outside its
  buffer, leaves the bytes behind the given size alone and returns less than the size. (The
  arguments may still have the wrong type or overflow on negation; strings are assumed to fit
  the address space together with the size.)
\<close>

lemma snprintf_within_bounds:
  assumes "0 < sz" and "sz \<le> length str" and "0 \<notin> set fmt" and "sz \<le> 2 ^ 31"
    and "\<forall>s. VStr s \<in> set args \<longrightarrow> length (string_arg s) + sz < 2 ^ 32"
  shows "case snprintf (Some str) sz (Some (fmt @ [0])) args of
      Inl e \<Rightarrow> e \<noteq> OutOfBounds
    | Inr (str', n) \<Rightarrow> n < int sz \<and> (\<exists>bs. str' = Some bs \<and> length bs = length str \<and>
        drop sz bs = drop sz str \<and> bs ! nat n = 0)"
proof -
  have w: "within sz str (vsn_loop sz (fmt @ [0]) args str 0)"
    using vsn_loop_within [OF assms(1,2) _ assms(3,5)] by simp
  show ?thesis
  proof (cases "vsn_loop sz (fmt @ [0]) args str 0")
    case (Inl e)
    then show ?thesis using w assms(1) by (simp add: snprintf_def vsnprintf_def)
  next
    case (Inr p)
    obtain str' n where p: "p = (str', n)" by fastforce
    then have k: "length str' = length str" "n \<le> sz - 1" "drop sz str' = drop sz str"
      using w Inr by simp_all
    then have "n < length str'" "n < sz" "n < 2 ^ 31" using assms(1,2,4) by auto
    then show ?thesis
      using Inr p k assms(1) by (simp add: snprintf_def vsnprintf_def drop_update_cancel size_to_int_small)
  qed
qed

lemma snprintf_within_bounds_witness:
  "case snprintf (Some (replicate 4 1)) 3 (Some (chars ''%d'' @ [0])) [] of
      Inl e \<Rightarrow> e \<noteq> OutOfBounds | Inr (str', n) \<Rightarrow> n < 3"
proof -
  have "(0 :: nat) < 3" "3 \<le> length (replicate 4 (1 :: u8))" "0 \<notin> set (chars ''%d'')"
    "(3 :: nat) \<le> 2 ^ 31" "\<forall>s. VStr s \<in> set ([] :: varg list) \<longrightarrow> length (string_arg s) + 3 < 2 ^ 32" by simp_all
  from snprintf_within_bounds [OF this] show ?thesis
    by (auto split: sum.splits)
qed

text \<open>
  \<^verbatim>\<open>itoa\<close> writes the numeral: for a base of at least 2 (10 for negative numbers), the
  buffer begins with the digits and a zero when they fit and the result is the fault of an
  access behind the buffer when they do not; the least integer overflows when negated.
\<close>

lemma itoa_writes_numeral:
  assumes "1 < b" and "0 \<le> v \<or> b = 10"
  shows "itoa v str (int b) =
    (if v = INT_MIN then Inl SignedOverflow
     else if length (signed_text v b) < length str
       then Inr (signed_text v b @ [0] @ drop (Suc (length (signed_text v b))) str)
     else Inl OutOfBounds)"
  by (rule itoa_text [OF assms])

lemma itoa_writes_numeral_witness:
  "itoa 255 [7, 7, 7, 7] 16 = Inr (chars ''ff'' @ [0, 7])"
  using itoa_writes_numeral [of 16 255 "[7, 7, 7, 7]"]
  by (simp add: signed_text_def numeral_in.simps digit_char_def INT_MIN_def)

text \<open>
  \<^verbatim>\<open>int_to_string\<close> of \<^verbatim>\<open>interrupts.cpp\<close> and \<^verbatim>\<open>itoa\<close> of
  \<^verbatim>\<open>stdio.cpp\<close> with base 10, two implementations of the same conversion, agree on every
  number and every buffer, also in where they overflow and where they run past the buffer.
\<close>

lemma int_to_string_is_itoa: "int_to_string v str = itoa v str 10"
  by (rule int_to_string_itoa)

text \<open>
  C40. Twelve bytes are enough for \<^verbatim>\<open>int_to_string\<close>, and what it writes reads back as the
  number, for every 32-bit number but the least one, whose negation overflows.
\<close>

theorem int_to_string_roundtrip:
  "case int_to_string (sint (v :: 32 word)) (replicate 12 x) of
     Inl e \<Rightarrow> sint v = INT_MIN \<and> e = SignedOverflow
   | Inr r \<Rightarrow> length r = 12 \<and> 0 \<in> set r \<and> parse_int (takeWhile (\<lambda>c. c \<noteq> 0) r) = sint v"
proof (cases "sint v = INT_MIN")
  case True
  then show ?thesis using itoa_text [of 10 "sint v"] by (simp add: int_to_string_itoa)
next
  case False
  then have "\<bar>sint v\<bar> < 2 ^ 31"
    using sint32_bounds [of v] by (auto simp: INT_MIN_def abs_less_iff)
  then have len: "length (decimal (sint v)) \<le> 11" by (rule length_decimal)
  have "takeWhile (\<lambda>c. c \<noteq> 0) (decimal (sint v) @ 0 # xs) = decimal (sint v)" for xs
    using decimal_nonzero [of "sint v"] by (subst takeWhile_append2) auto
  then show ?thesis
    using itoa_text [of 10 "sint v" "replicate 12 x"] len False
    by (simp add: int_to_string_itoa parse_decimal)
qed

text \<open>
  \<^verbatim>\<open>sprintf\<close> has no bound: with matching arguments it stores exactly the rendering and a
  zero when they fit the buffer, and otherwise writes past its end.
\<close>

lemma sprintf_unbounded:
  assumes "0 \<notin> set fmt" and "sp_ok fmt args" and "length str < 2 ^ 31"
  defines "out \<equiv> sp_render fmt args"
  shows "sprintf str (fmt @ [0]) args =
    (if length out < length str then Inr (out @ [0] @ drop (Suc (length out)) str, int (length out))
     else Inl OutOfBounds)"
  unfolding out_def by (rule sprintf_text [OF assms(1-3)])

lemma sprintf_unbounded_witness:
  "sprintf [7, 7, 7, 7] (chars ''%d%%'' @ [0]) [VInt 42] = Inr (chars ''42%'' @ [0], 3) \<and>
   sprintf [7, 7, 7] (chars ''%d%%'' @ [0]) [VInt 42] = Inl OutOfBounds"
proof -
  have "0 \<notin> set (chars ''%d%%'')" and "sp_ok (chars ''%d%%'') [VInt 42]"
    by (simp_all add: INT_MIN_def)
  note s = sprintf_unbounded [OF this]
  have "length [7, 7, 7, 7 :: u8] < 2 ^ 31" "length [7, 7, 7 :: u8] < 2 ^ 31" by simp_all
  from s [OF this(1)] s [OF this(2)] show ?thesis
    by (simp add: signed_text_def numeral_in.simps digit_char_def)
qed

end
