(* ===== verification/Filesystem.thy ===== *)
theory Filesystem
  imports Keyboard CArray Format
begin

text \<open>
  The in-memory file system of \<^verbatim>\<open>kernel/filesystem.cpp\<close>: a table of 256 slots. File names
  and data that callers pass are arrays of bytes, the name with its terminator, or null
  (\<^const>\<open>None\<close>). The second half shows that the table implements a finite map from names to
  contents.
\<close>

subsection \<open>State\<close>

definition MAX_FILES :: nat where "MAX_FILES = 256"
definition MAX_FILENAME_LENGTH :: nat where "MAX_FILENAME_LENGTH = 32"
definition MAX_FILE_SIZE :: nat where "MAX_FILE_SIZE = 4096"

record File =
  file_name :: "u8 list"
  file_data :: "u8 list"
  file_size :: nat
  file_used :: bool

text \<open>
  \<^verbatim>\<open>dummy_buffer\<close> is the address of the static array that the \<^verbatim>\<open>extern "C"\<close> reader
  returns.
\<close>

record filesystem = keyboard +
  files :: "File list"
  num_files :: nat
  dummy_buffer :: u32

subsection \<open>Operations\<close>

definition filesystem_init :: "'a filesystem_scheme \<Rightarrow> 'a filesystem_scheme" where
  "filesystem_init s =
     (let s = fold (\<lambda>i s. s\<lparr>files := (files s)[i := (files s ! i)\<lparr>file_used := False\<rparr>]\<rparr>)
                [0..<MAX_FILES] s
      in s\<lparr>num_files := 0\<rparr>)"

text \<open>The two searches that the operations repeat: a used slot of a given name, a free slot.\<close>

fun find_file :: "u8 list \<Rightarrow> File list \<Rightarrow> nat \<Rightarrow> fault + nat option" where
  "find_file filename [] i = Inr None"
| "find_file filename (f # fs) i =
     (if file_used f
      then rbind (arr_strcmp (file_name f) filename) (\<lambda>r.
             if r = 0 then Inr (Some i) else find_file filename fs (i + 1))
      else find_file filename fs (i + 1))"

fun find_free_slot :: "File list \<Rightarrow> nat \<Rightarrow> nat option" where
  "find_free_slot [] i = None"
| "find_free_slot (f # fs) i = (if \<not> file_used f then Some i else find_free_slot fs (i + 1))"

definition create_file ::
  "u8 list option \<Rightarrow> 'a filesystem_scheme \<Rightarrow> fault + int \<times> 'a filesystem_scheme" where
  "create_file filename s =
     (case filename of None \<Rightarrow> Inr (-1, s)
      | Some filename \<Rightarrow>
        rbind (arr_strlen filename) (\<lambda>len.
        if len \<ge> MAX_FILENAME_LENGTH then Inr (-1, s)
        else rbind (find_file filename (files s) 0) (\<lambda>found.
          if found \<noteq> None then Inr (-1, s)
          else (case find_free_slot (files s) 0 of
              None \<Rightarrow> Inr (-1, s)
            | Some i \<Rightarrow>
              rbind (arr_strncpy (file_name (files s ! i)) filename (MAX_FILENAME_LENGTH - 1)) (\<lambda>name.
              rbind (aset name (MAX_FILENAME_LENGTH - 1) 0) (\<lambda>name.
              Inr (0, s\<lparr>files := (files s)[i := (files s ! i)\<lparr>file_name := name, file_size := 0,
                                                 file_used := True\<rparr>],
                        num_files := num_files s + 1\<rparr>)))))))"

text \<open>Lines 53 and 54: the contents of slot \<^verbatim>\<open>i\<close>.\<close>

definition store_data ::
  "nat \<Rightarrow> u8 list \<Rightarrow> nat \<Rightarrow> 'a filesystem_scheme \<Rightarrow> fault + 'a filesystem_scheme" where
  "store_data i data sz s =
     rbind (arr_memcpy (file_data (files s ! i)) data 0 sz) (\<lambda>d.
     Inr (s\<lparr>files := (files s)[i := (files s ! i)\<lparr>file_data := d, file_size := sz\<rparr>]\<rparr>))"

definition write_file ::
  "u8 list option \<Rightarrow> u8 list option \<Rightarrow> nat \<Rightarrow> 'a filesystem_scheme \<Rightarrow>
   fault + int \<times> 'a filesystem_scheme" where
  "write_file filename data sz s =
     (case (filename, data) of
        (Some fn, Some data) \<Rightarrow>
          if sz > MAX_FILE_SIZE then Inr (-1, s)
          else rbind (find_file fn (files s) 0) (\<lambda>found. case found of
              Some i \<Rightarrow> rbind (store_data i data sz s) (\<lambda>s. Inr (0, s))
            | None \<Rightarrow>
              rbind (create_file filename s) (\<lambda>(r, s).
              if r \<noteq> 0 then Inr (-1, s)
              else rbind (find_file fn (files s) 0) (\<lambda>found. case found of
                  Some i \<Rightarrow> rbind (store_data i data sz s) (\<lambda>s. Inr (0, s))
                | None \<Rightarrow> Inr (-1, s))))
      | _ \<Rightarrow> Inr (-1, s))"

text \<open>
  The reader into a caller's buffer: the result, the new contents of the buffer and the value
  stored through \<^verbatim>\<open>size\<close> (which must not be null: the flag).
\<close>

definition read_file ::
  "u8 list option \<Rightarrow> u8 list option \<Rightarrow> nat option \<Rightarrow> 'a filesystem_scheme \<Rightarrow>
   fault + int \<times> u8 list option \<times> nat option" where
  "read_file filename buffer sz s =
     (case (filename, buffer, sz) of
        (Some fn, Some buf, Some _) \<Rightarrow>
          rbind (find_file fn (files s) 0) (\<lambda>found. case found of
              Some i \<Rightarrow>
                rbind (arr_memcpy buf (file_data (files s ! i)) 0 (file_size (files s ! i))) (\<lambda>buf.
                Inr (0, Some buf, Some (file_size (files s ! i))))
            | None \<Rightarrow> Inr (-1, buffer, sz))
      | _ \<Rightarrow> Inr (-1, buffer, sz))"

text \<open>
  The two \<^verbatim>\<open>extern "C"\<close> functions that the editor links against: a reader that returns the
  dummy buffer for every name and a writer that stores nothing.
\<close>

definition read_file_c :: "u8 list option \<Rightarrow> 'a filesystem_scheme \<Rightarrow> u32" where
  "read_file_c filename s = (if filename = None then 0 else dummy_buffer s)"

definition write_file_c :: "u8 list option \<Rightarrow> u32 \<Rightarrow> u32 \<Rightarrow> int" where
  "write_file_c filename data sz = (if filename = None \<or> data = 0 \<or> sz = 0 then -1 else 0)"

text \<open>The body of the loop of \<^verbatim>\<open>list_files\<close>; the uninitialised \<^verbatim>\<open>info\<close> is given as zeros.\<close>

fun list_loop :: "File list \<Rightarrow> 'a filesystem_scheme \<Rightarrow> fault + 'a filesystem_scheme" where
  "list_loop [] s = Inr s"
| "list_loop (f # fs) s =
     (if file_used f
      then rbind (snprintf (Some (replicate (MAX_FILENAME_LENGTH + 32) 0)) (MAX_FILENAME_LENGTH + 32)
                    (Some (lit (''  %s (%u bytes)'' @ [CHR 0x0A])))
                    [VStr (Some (cname (file_name f))), VInt (of_nat (file_size f))])
             (\<lambda>(info, _). case info of
                 None \<Rightarrow> Inl NullPointer
               | Some info \<Rightarrow> list_loop fs (terminal_write_string info s))
      else list_loop fs s)"

definition list_files :: "'a filesystem_scheme \<Rightarrow> fault + 'a filesystem_scheme" where
  "list_files s =
     (let s = terminal_write_string (lit (''Files:'' @ [CHR 0x0A])) s in
      if num_files s = 0
      then Inr (terminal_write_string (lit (''  No files'' @ [CHR 0x0A])) s)
      else list_loop (files s) s)"

definition file_exists :: "u8 list option \<Rightarrow> 'a filesystem_scheme \<Rightarrow> fault + bool" where
  "file_exists filename s =
     (case filename of None \<Rightarrow> Inr False
      | Some fn \<Rightarrow> rbind (find_file fn (files s) 0) (\<lambda>found. Inr (found \<noteq> None)))"

subsection \<open>The table as a map from names to contents\<close>

definition slot_ok :: "File \<Rightarrow> bool" where
  "slot_ok f \<longleftrightarrow> length (file_name f) = MAX_FILENAME_LENGTH \<and> length (file_data f) = MAX_FILE_SIZE \<and>
     (file_used f \<longrightarrow> 0 \<in> set (file_name f) \<and> file_size f \<le> MAX_FILE_SIZE)"

definition file_contents :: "File \<Rightarrow> u8 list" where
  "file_contents f = take (file_size f) (file_data f)"

abbreviation named :: "u8 list \<Rightarrow> File \<Rightarrow> bool" where
  "named n f \<equiv> file_used f \<and> cname (file_name f) = n"

fun slot_of :: "u8 list \<Rightarrow> File list \<Rightarrow> nat option" where
  "slot_of n [] = None"
| "slot_of n (f # fs) = (if named n f then Some 0 else map_option Suc (slot_of n fs))"

fun free_of :: "File list \<Rightarrow> nat option" where
  "free_of [] = None"
| "free_of (f # fs) = (if \<not> file_used f then Some 0 else map_option Suc (free_of fs))"

definition fs_map :: "'a filesystem_scheme \<Rightarrow> u8 list \<Rightarrow> u8 list option" where
  "fs_map s n = map_option (\<lambda>i. file_contents (files s ! i)) (slot_of n (files s))"

definition distinct_names :: "File list \<Rightarrow> bool" where
  "distinct_names fs \<longleftrightarrow> (\<forall>i < length fs. \<forall>j < length fs.
     file_used (fs ! i) \<and> named (cname (file_name (fs ! i))) (fs ! j) \<longrightarrow> i = j)"

definition fs_ok :: "'a filesystem_scheme \<Rightarrow> bool" where
  "fs_ok s \<longleftrightarrow> length (files s) = MAX_FILES \<and> (\<forall>f \<in> set (files s). slot_ok f) \<and>
     distinct_names (files s) \<and> num_files s = length (filter file_used (files s))"

lemma slot_of_Some:
  "slot_of n fs = Some i \<Longrightarrow> i < length fs \<and> named n (fs ! i)"
  by (induction fs arbitrary: i) (auto split: if_splits)

lemma slot_of_None: "slot_of n fs = None \<longleftrightarrow> (\<forall>f \<in> set fs. \<not> named n f)"
  by (induction fs) auto

lemma free_of_Some: "free_of fs = Some i \<Longrightarrow> i < length fs \<and> \<not> file_used (fs ! i)"
  by (induction fs arbitrary: i) (auto split: if_splits)

lemma free_of_None: "free_of fs = None \<longleftrightarrow> (\<forall>f \<in> set fs. file_used f)"
  by (induction fs) auto

lemma plus_Suc_fun: "(+) (Suc i) = (\<lambda>j. Suc (i + j))"
  by (rule ext) simp

lemma find_file_slot:
  "\<forall>f \<in> set fs. slot_ok f \<Longrightarrow> 0 \<notin> set n \<Longrightarrow>
   find_file (n @ [0]) fs i = Inr (map_option (\<lambda>j. i + j) (slot_of n fs))"
proof (induction fs arbitrary: i)
  case (Cons f fs)
  show ?case
  proof (cases "file_used f")
    case True
    then have "0 \<in> set (file_name f)" using Cons.prems(1) by (simp add: slot_ok_def)
    then obtain d where "arr_strcmp (file_name f) (n @ [0]) = Inr d"
      "d = 0 \<longleftrightarrow> cname (file_name f) = n" using arr_strcmp_name Cons.prems(2) by blast
    then show ?thesis using Cons True by (simp add: option.map_comp o_def plus_Suc_fun)
  qed (use Cons in \<open>simp add: option.map_comp o_def plus_Suc_fun\<close>)
qed simp

lemma find_file_table:
  "fs_ok s \<Longrightarrow> 0 \<notin> set n \<Longrightarrow> find_file (n @ [0]) (files s) 0 = Inr (slot_of n (files s))"
  using find_file_slot [of "files s" n 0] by (simp add: fs_ok_def option.map_ident)

lemma find_free_table: "find_free_slot fs i = map_option (\<lambda>j. i + j) (free_of fs)"
  by (induction fs arbitrary: i) (simp_all add: option.map_comp o_def plus_Suc_fun)

lemma fs_map_None: "fs_map s n = None \<longleftrightarrow> slot_of n (files s) = None"
  by (simp add: fs_map_def)

text \<open>How an update of one slot shows in the searches.\<close>

lemma slot_of_fill:
  "\<lbrakk>i < length fs; \<not> file_used (fs ! i); named n f; slot_of n fs = None\<rbrakk> \<Longrightarrow>
   slot_of m (fs[i := f]) = (if m = n then Some i else slot_of m fs)"
proof (induction fs arbitrary: i)
  case (Cons g fs)
  then show ?case by (cases i) (auto split: if_splits)
qed simp

lemma slot_of_same_name:
  "\<lbrakk>i < length fs; named n (fs ! i); named n f\<rbrakk> \<Longrightarrow> slot_of m (fs[i := f]) = slot_of m fs"
proof (induction fs arbitrary: i)
  case (Cons g fs)
  then show ?case by (cases i) auto
qed simp

lemma count_fill:
  "i < length fs \<Longrightarrow> \<not> P (fs ! i) \<Longrightarrow> P f \<Longrightarrow> length (filter P (fs[i := f])) = Suc (length (filter P fs))"
proof (induction fs arbitrary: i)
  case (Cons g fs)
  then show ?case by (cases i) auto
qed simp

lemma count_same:
  "i < length fs \<Longrightarrow> P (fs ! i) \<Longrightarrow> P f \<Longrightarrow> length (filter P (fs[i := f])) = length (filter P fs)"
proof (induction fs arbitrary: i)
  case (Cons g fs)
  then show ?case by (cases i) auto
qed simp

lemma distinct_names_fill:
  assumes "distinct_names fs" and "slot_of n fs = None" and "named n f" and "i < length fs"
  shows "distinct_names (fs[i := f])"
proof -
  have no: "\<not> named n (fs ! j)" if "j < length fs" for j
    using assms(2) that by (simp add: slot_of_None)
  show ?thesis
    unfolding distinct_names_def
  proof (intro allI impI)
    fix j k assume "j < length (fs[i := f])" "k < length (fs[i := f])"
      and n: "file_used (fs[i := f] ! j) \<and> named (cname (file_name (fs[i := f] ! j))) (fs[i := f] ! k)"
    then have "j < length fs" "k < length fs" by simp_all
    then show "j = k"
      using n assms(1,3,4) no [of j] no [of k]
      by (cases "j = i"; cases "k = i") (auto simp: distinct_names_def)
  qed
qed

lemma distinct_names_same:
  assumes "distinct_names fs" and "i < length fs" and "named n (fs ! i)" and "named n f"
  shows "distinct_names (fs[i := f])"
proof -
  have "file_used (fs[i := f] ! j) = file_used (fs ! j) \<and>
      cname (file_name (fs[i := f] ! j)) = cname (file_name (fs ! j))" if "j < length fs" for j
    using assms(3,4) that by (cases "j = i") auto
  then show ?thesis using assms(1) unfolding distinct_names_def by simp
qed

lemma set_update_slots:
  "\<forall>f \<in> set fs. P f \<Longrightarrow> P g \<Longrightarrow> \<forall>f \<in> set (fs[i := g]). P f"
  using set_update_subset_insert [of fs i g] by auto

subsection \<open>What the operations do to the map\<close>

definition fresh_file :: "u8 list \<Rightarrow> File \<Rightarrow> File" where
  "fresh_file n f = f\<lparr>file_name := n @ replicate (MAX_FILENAME_LENGTH - length n) 0,
     file_size := 0, file_used := True\<rparr>"

definition filled_file :: "u8 list \<Rightarrow> File \<Rightarrow> File" where
  "filled_file d f = f\<lparr>file_data := d @ drop (length d) (file_data f), file_size := length d\<rparr>"

lemma create_file_cases:
  assumes "fs_ok s" and n: "0 \<notin> set n"
  shows "create_file (Some (n @ [0])) s =
    (if length n \<ge> MAX_FILENAME_LENGTH \<or> fs_map s n \<noteq> None then Inr (-1, s)
     else case free_of (files s) of None \<Rightarrow> Inr (-1, s)
       | Some i \<Rightarrow> if length n = MAX_FILENAME_LENGTH - 1 then Inl OutOfBounds
         else Inr (0, s\<lparr>files := (files s)[i := fresh_file n (files s ! i)],
                        num_files := num_files s + 1\<rparr>))"
proof -
  have strncpy: "rbind (arr_strncpy (file_name f) (n @ [0]) (MAX_FILENAME_LENGTH - 1)) (\<lambda>name.
      aset name (MAX_FILENAME_LENGTH - 1) 0) =
      (if length n = MAX_FILENAME_LENGTH - 1 then Inl OutOfBounds
       else Inr (n @ replicate (MAX_FILENAME_LENGTH - length n) 0))"
    if "slot_ok f" "length n < MAX_FILENAME_LENGTH" for f
  proof (cases "length n = 31")
    case True
    then have "arr_strncpy (file_name f) (n @ [0]) 31 = Inl OutOfBounds"
      using n that(1) by (intro arr_strncpy_long) (simp_all add: slot_ok_def MAX_FILENAME_LENGTH_def)
    then show ?thesis using True by (simp add: MAX_FILENAME_LENGTH_def)
  next
    case False
    then have len: "length n < 31" using that(2) by (simp add: MAX_FILENAME_LENGTH_def)
    have "length (file_name f) = 32" using that(1) by (simp add: slot_ok_def MAX_FILENAME_LENGTH_def)
    then have "length (drop 31 (file_name f)) = Suc 0" by simp
    then obtain x where x: "drop 31 (file_name f) = [x]" unfolding length_Suc_conv by auto
    have "32 - length n = Suc (31 - length n)" using len by simp
    then have "replicate (32 - length n) (0 :: u8) = replicate (31 - length n) 0 @ [0]"
      by (simp only: replicate_Suc replicate_append_same)
    then show ?thesis
      using len n x False arr_strncpy_short [of n 31 "file_name f" "[]"] that(1)
      by (simp add: slot_ok_def MAX_FILENAME_LENGTH_def aset_def list_update_append)
  qed
  have stored: "rbind (arr_strncpy (file_name f) (n @ [0]) (MAX_FILENAME_LENGTH - 1)) (\<lambda>name.
      rbind (aset name (MAX_FILENAME_LENGTH - 1) 0) K) =
      (if length n = MAX_FILENAME_LENGTH - 1 then Inl OutOfBounds
       else K (n @ replicate (MAX_FILENAME_LENGTH - length n) 0))"
    if "slot_ok f" "length n < MAX_FILENAME_LENGTH"
    for f and K :: "u8 list \<Rightarrow> fault + int \<times> 'a filesystem_scheme"
    using strncpy [OF that] by (simp flip: rbind_assoc)
  have slot: "slot_ok (files s ! i)" if "free_of (files s) = Some i" for i
    using free_of_Some [OF that] assms(1) by (simp add: fs_ok_def)
  show ?thesis
    using find_file_table [OF assms] arr_strlen_cstr [OF n, of "[]"] slot
    by (auto simp: stored create_file_def find_free_table fs_map_None fresh_file_def option.map_ident
        simp del: One_nat_def split: option.splits)
qed

lemma fresh_file_ok:
  assumes "slot_ok f" and "0 \<notin> set n" and "length n < MAX_FILENAME_LENGTH"
  shows "slot_ok (fresh_file n f)" and "named n (fresh_file n f)" and "file_contents (fresh_file n f) = []"
proof -
  have "replicate (MAX_FILENAME_LENGTH - length n) (0 :: u8)
      = 0 # replicate (MAX_FILENAME_LENGTH - length n - 1) 0"
    using assms(3) by (simp add: Suc_diff_Suc flip: replicate_Suc)
  then show "slot_ok (fresh_file n f)" and "named n (fresh_file n f)"
    and "file_contents (fresh_file n f) = []"
    using assms by (simp_all add: slot_ok_def fresh_file_def file_contents_def)
qed

lemma filled_file_ok:
  assumes "slot_ok f" and "named n f" and "length d \<le> MAX_FILE_SIZE"
  shows "slot_ok (filled_file d f)" and "named n (filled_file d f)"
    and "file_contents (filled_file d f) = d"
  using assms by (auto simp: slot_ok_def filled_file_def file_contents_def)

text \<open>Filling a free slot with a new name, and replacing the contents of a file.\<close>

lemma fs_fill:
  assumes ok: "fs_ok s" and i: "free_of (files s) = Some i" and n: "slot_of n (files s) = None"
    and f: "slot_ok f" "named n f"
  defines "s' \<equiv> s\<lparr>files := (files s)[i := f], num_files := num_files s + 1\<rparr>"
  shows "fs_ok s'" and "fs_map s' = (fs_map s)(n \<mapsto> file_contents f)"
proof -
  note fi = free_of_Some [OF i]
  show "fs_ok s'"
    using ok fi distinct_names_fill [OF _ n f(2), of i] count_fill [of i "files s" file_used f]
      set_update_slots [of "files s" slot_ok f i] f
    by (simp add: fs_ok_def s'_def)
  have nn: "m \<noteq> n \<Longrightarrow> slot_of m (files s) \<noteq> Some i" for m
    using slot_of_Some [of m "files s" i] fi by auto
  show "fs_map s' = (fs_map s)(n \<mapsto> file_contents f)"
  proof
    fix m
    show "fs_map s' m = ((fs_map s)(n \<mapsto> file_contents f)) m"
      using slot_of_fill [of i "files s" f n m] fi f n nn [of m]
      by (cases "slot_of m (files s)") (auto simp: fs_map_def s'_def nth_list_update)
  qed
qed

lemma fs_replace:
  assumes ok: "fs_ok s" and i: "slot_of n (files s) = Some i" and f: "slot_ok f" "named n f"
  defines "s' \<equiv> s\<lparr>files := (files s)[i := f]\<rparr>"
  shows "fs_ok s'" and "fs_map s' = (fs_map s)(n \<mapsto> file_contents f)"
proof -
  note fi = slot_of_Some [OF i]
  show "fs_ok s'"
    using ok fi distinct_names_same [of "files s" i n f] count_same [of i "files s" file_used f]
      set_update_slots [of "files s" slot_ok f i] f
    by (simp add: fs_ok_def s'_def)
  show "fs_map s' = (fs_map s)(n \<mapsto> file_contents f)"
  proof
    fix m
    have "m \<noteq> n \<Longrightarrow> slot_of m (files s) \<noteq> Some i" using slot_of_Some [of m "files s" i] fi by auto
    then show "fs_map s' m = ((fs_map s)(n \<mapsto> file_contents f)) m"
      using slot_of_same_name [of i "files s" n f m] fi f i
      by (cases "slot_of m (files s)") (auto simp: fs_map_def s'_def nth_list_update)
  qed
qed

lemma store_data_eq:
  assumes "fs_ok s" and "i < MAX_FILES" and "length d \<le> MAX_FILE_SIZE"
  shows "store_data i d (length d) s = Inr (s\<lparr>files := (files s)[i := filled_file d (files s ! i)]\<rparr>)"
proof -
  have "slot_ok (files s ! i)" using assms(1,2) by (simp add: fs_ok_def)
  then have "length (file_data (files s ! i)) = MAX_FILE_SIZE" by (simp add: slot_ok_def)
  then show ?thesis using assms(3) by (simp add: store_data_def arr_memcpy_eq filled_file_def)
qed

lemma store_data_map:
  assumes "fs_ok s" and "slot_of n (files s) = Some i" and "length d \<le> MAX_FILE_SIZE"
  obtains s' where "store_data i d (length d) s = Inr s'" and "fs_ok s'"
    and "fs_map s' = (fs_map s)(n \<mapsto> d)"
proof -
  note i = slot_of_Some [OF assms(2)]
  then have f: "slot_ok (files s ! i)" "i < MAX_FILES" using assms(1) by (simp_all add: fs_ok_def)
  note ff = filled_file_ok [OF f(1) _ assms(3), of n]
  from fs_replace [OF assms(1,2) ff(1,2)] ff(3) i store_data_eq [OF assms(1) f(2) assms(3)] that
  show ?thesis by auto
qed

lemma create_file_map:
  assumes "fs_ok s" and "0 \<notin> set n" and "length n < MAX_FILENAME_LENGTH - 1"
    and "fs_map s n = None" and "free_of (files s) = Some i"
  obtains s' where "create_file (Some (n @ [0])) s = Inr (0, s')" and "fs_ok s'"
    and "fs_map s' = (fs_map s)(n \<mapsto> [])"
proof -
  have "slot_ok (files s ! i)" using free_of_Some [OF assms(5)] assms(1) by (simp add: fs_ok_def)
  from fresh_file_ok [OF this assms(2)] assms(3)
  have f: "slot_ok (fresh_file n (files s ! i))" "named n (fresh_file n (files s ! i))"
    "file_contents (fresh_file n (files s ! i)) = []" by simp_all
  have "create_file (Some (n @ [0])) s = Inr (0, s\<lparr>files := (files s)[i := fresh_file n (files s ! i)],
      num_files := num_files s + 1\<rparr>)"
    using create_file_cases [OF assms(1,2)] assms(3-5) by simp
  moreover have "slot_of n (files s) = None" using assms(4) by (simp add: fs_map_None)
  ultimately show ?thesis
    using that fs_fill [OF assms(1,5) _ f(1,2)] f(3) by metis
qed

lemma write_file_existing:
  assumes "fs_ok s" and "0 \<notin> set n" and "length d \<le> MAX_FILE_SIZE" and "fs_map s n \<noteq> None"
  obtains s' where "write_file (Some (n @ [0])) (Some d) (length d) s = Inr (0, s')" and "fs_ok s'"
    and "fs_map s' = (fs_map s)(n \<mapsto> d)"
proof -
  obtain i where i: "slot_of n (files s) = Some i" using assms(4) by (auto simp: fs_map_None)
  from store_data_map [OF assms(1) i assms(3)] obtain s' where
    "store_data i d (length d) s = Inr s'" "fs_ok s'" "fs_map s' = (fs_map s)(n \<mapsto> d)" .
  then show ?thesis
    using that assms(3) i find_file_table [OF assms(1,2)] by (simp add: write_file_def)
qed

lemma write_file_new:
  assumes "fs_ok s" and "0 \<notin> set n" and "length d \<le> MAX_FILE_SIZE" and "fs_map s n = None"
    and "length n < MAX_FILENAME_LENGTH - 1" and "free_of (files s) \<noteq> None"
  obtains s' where "write_file (Some (n @ [0])) (Some d) (length d) s = Inr (0, s')" and "fs_ok s'"
    and "fs_map s' = (fs_map s)(n \<mapsto> d)"
proof -
  obtain i where "free_of (files s) = Some i" using assms(6) by blast
  from create_file_map [OF assms(1,2,5,4) this] obtain s1 where s1:
    "create_file (Some (n @ [0])) s = Inr (0, s1)" "fs_ok s1" "fs_map s1 = (fs_map s)(n \<mapsto> [])" .
  then obtain j where j: "slot_of n (files s1) = Some j"
    using fs_map_None [of s1 n] by (cases "slot_of n (files s1)") auto
  from store_data_map [OF s1(2) j assms(3)] obtain s' where
    "store_data j d (length d) s1 = Inr s'" "fs_ok s'" "fs_map s' = (fs_map s1)(n \<mapsto> d)" .
  then show ?thesis
    using that assms(3,4) j s1 find_file_table [OF assms(1,2)] find_file_table [OF s1(2) assms(2)]
    by (simp add: write_file_def fs_map_None)
qed

lemma write_file_refused:
  assumes "fs_ok s" and "0 \<notin> set n" and "fs_map s n = None"
    and "length n \<ge> MAX_FILENAME_LENGTH \<or> free_of (files s) = None"
  shows "write_file (Some (n @ [0])) (Some d) sz s = Inr (-1, s)"
  using assms(3,4) find_file_table [OF assms(1,2)] create_file_cases [OF assms(1,2)]
  by (auto simp: write_file_def fs_map_None)

lemma write_file_overrun:
  assumes "fs_ok s" and "0 \<notin> set n" and "fs_map s n = None"
    and "length n = MAX_FILENAME_LENGTH - 1" and "free_of (files s) \<noteq> None" and "sz \<le> MAX_FILE_SIZE"
  shows "write_file (Some (n @ [0])) (Some d) sz s = Inl OutOfBounds"
  using assms(3-6) find_file_table [OF assms(1,2)] create_file_cases [OF assms(1,2)]
  by (auto simp: write_file_def fs_map_None MAX_FILENAME_LENGTH_def)

lemma read_file_map:
  assumes "fs_ok s" and "0 \<notin> set n" and "MAX_FILE_SIZE \<le> length buf"
  shows "read_file (Some (n @ [0])) (Some buf) (Some k) s =
    (case fs_map s n of None \<Rightarrow> Inr (-1, Some buf, Some k)
     | Some d \<Rightarrow> Inr (0, Some (d @ drop (length d) buf), Some (length d)))"
proof (cases "slot_of n (files s)")
  case None
  then show ?thesis using find_file_table [OF assms(1,2)] by (simp add: read_file_def fs_map_def)
next
  case (Some i)
  have "slot_ok (files s ! i)" "file_used (files s ! i)"
    using slot_of_Some [OF Some] assms(1) by (simp_all add: fs_ok_def)
  then have sz: "file_size (files s ! i) \<le> MAX_FILE_SIZE"
    "length (file_data (files s ! i)) = MAX_FILE_SIZE" by (simp_all add: slot_ok_def)
  then have "arr_memcpy buf (file_data (files s ! i)) 0 (file_size (files s ! i))
      = Inr (file_contents (files s ! i) @ drop (file_size (files s ! i)) buf)"
    using assms(3) by (simp add: arr_memcpy_eq file_contents_def)
  then show ?thesis
    using Some sz find_file_table [OF assms(1,2)]
    by (simp add: read_file_def fs_map_def file_contents_def)
qed

subsection \<open>A store of named values\<close>

text \<open>
  The contract of a store, and what a client gets from it: after any sequence of successful
  writes, reading a name gives the last value written under it, or the old one.
\<close>

fun run_writes :: "('n \<Rightarrow> 'd \<Rightarrow> 's \<Rightarrow> 's option) \<Rightarrow> ('n \<times> 'd) list \<Rightarrow> 's \<Rightarrow> 's option" where
  "run_writes store [] s = Some s"
| "run_writes store ((n, d) # ws) s =
     (case store n d s of None \<Rightarrow> None | Some s \<Rightarrow> run_writes store ws s)"

locale named_store =
  fixes store :: "'n \<Rightarrow> 'd \<Rightarrow> 's \<Rightarrow> 's option" and fetch :: "'n \<Rightarrow> 's \<Rightarrow> 'd option"
    and inv :: "'s \<Rightarrow> bool" and valid :: "'n \<Rightarrow> bool" and lookup :: "'s \<Rightarrow> 'n \<Rightarrow> 'd option"
  assumes write_inv: "inv s \<Longrightarrow> valid n \<Longrightarrow> store n d s = Some s' \<Longrightarrow> inv s'"
    and write_lookup: "inv s \<Longrightarrow> valid n \<Longrightarrow> store n d s = Some s' \<Longrightarrow> lookup s' = (lookup s)(n \<mapsto> d)"
    and read_lookup: "inv s \<Longrightarrow> valid n \<Longrightarrow> fetch n s = lookup s n"
begin

lemma run_writes_lookup:
  "inv s \<Longrightarrow> \<forall>(n, d) \<in> set ws. valid n \<Longrightarrow> run_writes store ws s = Some s' \<Longrightarrow>
   inv s' \<and> lookup s' = lookup s ++ map_of (rev ws)"
proof (induction ws arbitrary: s)
  case (Cons w ws)
  obtain n d where w: "w = (n, d)" by fastforce
  with Cons.prems obtain s1 where s1: "store n d s = Some s1" "run_writes store ws s1 = Some s'"
    by (auto split: option.splits)
  have v: "valid n" "\<forall>(n, d) \<in> set ws. valid n" using Cons.prems(2) w by auto
  note s1' = write_inv [OF Cons.prems(1) v(1) s1(1)] write_lookup [OF Cons.prems(1) v(1) s1(1)]
  from Cons.IH [OF s1'(1) v(2) s1(2)] s1'(2) show ?case
    by (auto simp: w map_add_def fun_eq_iff split: option.splits)
qed simp

lemma read_last_write:
  assumes "inv s" and "\<forall>(n, d) \<in> set ws. valid n" and "run_writes store ws s = Some s'" and "valid n"
  shows "fetch n s' = (case map_of (rev ws) n of None \<Rightarrow> fetch n s | Some d \<Rightarrow> Some d)"
  using run_writes_lookup [OF assms(1-3)] read_lookup assms(1,4)
  by (auto simp: map_add_def split: option.splits)

end

text \<open>The file system as such a store: whole files, a success being the result zero.\<close>

definition fs_write :: "u8 list \<Rightarrow> u8 list \<Rightarrow> 'a filesystem_scheme \<Rightarrow> 'a filesystem_scheme option" where
  "fs_write n d s =
     (case write_file (Some (n @ [0])) (Some d) (length d) s of
        Inl _ \<Rightarrow> None | Inr (r, s) \<Rightarrow> if r = 0 then Some s else None)"

definition fs_read :: "u8 list \<Rightarrow> 'a filesystem_scheme \<Rightarrow> u8 list option" where
  "fs_read n s =
     (case read_file (Some (n @ [0])) (Some (replicate MAX_FILE_SIZE 0)) (Some 0) s of
        Inr (r, Some buf, Some k) \<Rightarrow> if r = 0 then Some (take k buf) else None
      | _ \<Rightarrow> None)"

lemma fs_write_Some:
  assumes "fs_ok s" and "0 \<notin> set n" and "fs_write n d s = Some s'"
  shows "fs_ok s' \<and> fs_map s' = (fs_map s)(n \<mapsto> d)"
proof -
  have w: "write_file (Some (n @ [0])) (Some d) (length d) s = Inr (0, s')"
    using assms(3) by (auto simp: fs_write_def split: sum.splits if_splits)
  then have len: "length d \<le> MAX_FILE_SIZE" by (auto simp: write_file_def split: if_splits)
  show ?thesis
  proof (cases "fs_map s n = None")
    case False
    from write_file_existing [OF assms(1,2) len False] w show ?thesis by auto
  next
    case True
    have "\<not> (length n \<ge> MAX_FILENAME_LENGTH \<or> free_of (files s) = None)"
      using write_file_refused [OF assms(1,2) True, of d "length d"] w by auto
    moreover have "length n \<noteq> MAX_FILENAME_LENGTH - 1 \<or> free_of (files s) = None"
      using write_file_overrun [OF assms(1,2) True _ _ len, of d] w
      by (cases "free_of (files s)") auto
    ultimately have "length n < MAX_FILENAME_LENGTH - 1" "free_of (files s) \<noteq> None" by auto
    from write_file_new [OF assms(1,2) len True this] w show ?thesis by auto
  qed
qed

interpretation fs: named_store fs_write fs_read fs_ok "\<lambda>n. 0 \<notin> set n" fs_map
proof
  fix s s' :: "'a filesystem_scheme" and n d
  show "fs_ok s'" if "fs_ok s" "0 \<notin> set n" "fs_write n d s = Some s'"
    using fs_write_Some [OF that] by blast
  show "fs_map s' = (fs_map s)(n \<mapsto> d)" if "fs_ok s" "0 \<notin> set n" "fs_write n d s = Some s'"
    using fs_write_Some [OF that] by blast
  show "fs_read n s = fs_map s n" if "fs_ok s" "0 \<notin> set n"
    using read_file_map [OF that, of "replicate MAX_FILE_SIZE 0" 0]
    by (simp add: fs_read_def split: option.splits)
qed

subsection \<open>The listing\<close>

definition list_line :: "u8 list \<Rightarrow> u8 list" where
  "list_line n = chars ''  '' @ n @ chars '' (u bytes)'' @ [10]"

definition listing :: "'a filesystem_scheme \<Rightarrow> u8 list" where
  "listing s = chars ''Files:'' @ [10] @
     (if num_files s = 0 then chars ''  No files'' @ [10]
      else concat (map (\<lambda>f. list_line (cname (file_name f))) (filter file_used (files s))))"

lemma list_line_nonzero: "0 \<notin> set n \<Longrightarrow> 0 \<notin> set (list_line n)"
  by (simp add: list_line_def)

lemma snprintf_list_line:
  assumes "0 \<notin> set n" and "length n \<le> 31"
  shows "\<exists>rest k. snprintf (Some (replicate (MAX_FILENAME_LENGTH + 32) 0)) (MAX_FILENAME_LENGTH + 32)
      (Some (lit (''  %s (%u bytes)'' @ [CHR 0x0A]))) [VStr (Some n), VInt v]
    = Inr (Some (list_line n @ 0 # rest), k)"
proof -
  let ?fmt = "chars (''  %s (%u bytes)'' @ [CHR 0x0A])" and ?args = "[VStr (Some n), VInt v]"
  have r: "render ?fmt ?args = list_line n"
    by (simp add: list_line_def string_arg_def)
  have len: "length (list_line n) \<le> 63" using assms(2) by (simp add: list_line_def)
  have "args_ok 31 ?fmt ?args" and "0 \<notin> set ?fmt"
    using assms(2) by (simp_all add: string_arg_def)
  from vsnprintf_text [OF _ _ _ this(2,1), of "MAX_FILENAME_LENGTH + 32" "replicate (MAX_FILENAME_LENGTH + 32) 0"]
  show ?thesis
    using len unfolding r lit_def snprintf_def by (simp add: MAX_FILENAME_LENGTH_def)
qed

lemma terminal_write_string_stop:
  "0 \<notin> set l \<Longrightarrow> terminal_write_string (l @ 0 # rest) s = terminal_write_string (l @ [0]) s"
  by (induction l arbitrary: s) auto

lemma terminal_write_string_append:
  "0 \<notin> set l \<Longrightarrow> terminal_write_string (l @ r) s = terminal_write_string r (terminal_write_string (l @ [0]) s)"
  by (induction l arbitrary: s) auto

lemma list_loop_text:
  "\<forall>f \<in> set fs. slot_ok f \<Longrightarrow>
   list_loop fs s = Inr (terminal_write_string
     (concat (map (\<lambda>f. list_line (cname (file_name f))) (filter file_used fs)) @ [0]) s)"
proof (induction fs arbitrary: s)
  case (Cons f fs)
  show ?case
  proof (cases "file_used f")
    case True
    then have "slot_ok f" "0 \<in> set (file_name f)" using Cons.prems by (simp_all add: slot_ok_def)
    then obtain r where r: "file_name f = cname (file_name f) @ 0 # r" using cname_split by blast
    have "length (cname (file_name f)) < length (file_name f)"
      using arg_cong [OF r, of length] by simp
    then have len: "length (cname (file_name f)) \<le> 31"
      using \<open>slot_ok f\<close> by (simp add: slot_ok_def MAX_FILENAME_LENGTH_def)
    note nz = list_line_nonzero [OF cname_nonzero [of "file_name f"]]
    obtain rest k where "snprintf (Some (replicate (MAX_FILENAME_LENGTH + 32) 0)) (MAX_FILENAME_LENGTH + 32)
      (Some (lit (''  %s (%u bytes)'' @ [CHR 0x0A])))
      [VStr (Some (cname (file_name f))), VInt (of_nat (file_size f))]
      = Inr (Some (list_line (cname (file_name f)) @ 0 # rest), k)"
      using snprintf_list_line [OF cname_nonzero len] by blast
    then show ?thesis
      using True Cons terminal_write_string_stop [OF nz, of rest s]
        terminal_write_string_append [OF nz, of "concat (map (\<lambda>f. list_line (cname (file_name f)))
          (filter file_used fs)) @ [0]" s] by simp
  qed (use Cons in simp)
qed simp

lemma list_files_text:
  assumes "fs_ok s" and "term_ok s"
  shows "list_files s = Inr (terminal_write_string (listing s @ [0]) s)"
proof -
  define h no where "h = chars ''Files:'' @ [10]" and "no = chars ''  No files'' @ [10]"
  define ls where "ls = concat (map (\<lambda>f. list_line (cname (file_name f))) (filter file_used (files s)))"
  define t where "t = terminal_write_string (h @ [0]) s"
  have "term_only s t" unfolding t_def using terminal_write_string_view [OF assms(2)] by blast
  then have t: "num_files t = num_files s" "files t = files s" by (auto simp: term_only_def)
  have "0 \<notin> set h" by (simp add: h_def)
  then have app: "terminal_write_string (h @ r) s = terminal_write_string r t" for r
    unfolding t_def by (rule terminal_write_string_append)
  have "lit (''Files:'' @ [CHR 0x0A]) = h @ [0]" "lit (''  No files'' @ [CHR 0x0A]) = no @ [0]"
    by (simp_all add: lit_def h_def no_def)
  then have "list_files s = (if num_files t = 0 then Inr (terminal_write_string (no @ [0]) t)
      else list_loop (files t) t)"
    unfolding list_files_def Let_def t_def by presburger
  moreover have "list_loop (files t) t = Inr (terminal_write_string (ls @ [0]) t)"
  proof -
    have "\<forall>f \<in> set (files s). slot_ok f" using assms(1) by (simp add: fs_ok_def)
    from list_loop_text [OF this, of t] show ?thesis by (simp only: t ls_def)
  qed
  moreover have "listing s = h @ (if num_files s = 0 then no else ls)"
    unfolding listing_def h_def no_def ls_def by simp
  ultimately show ?thesis by (simp add: app t(1))
qed

subsection \<open>Properties\<close>

definition blank_file :: File where
  "blank_file = \<lparr>file_name = replicate MAX_FILENAME_LENGTH 0, file_data = replicate MAX_FILE_SIZE 0,
     file_size = 0, file_used = False\<rparr>"

definition blank_filesystem :: filesystem where
  "blank_filesystem = keyboard.extend (blank_keyboard (\<lambda>_ _. 0))
     \<lparr>files = replicate MAX_FILES blank_file, num_files = 0, dummy_buffer = 0\<rparr>"

lemma blank_filesystem_files [simp]:
  "files blank_filesystem = replicate MAX_FILES blank_file" "num_files blank_filesystem = 0"
  by (simp_all add: blank_filesystem_def keyboard.defs)

lemma blank_filesystem_ok [simp]: "fs_ok blank_filesystem"
proof -
  have "slot_ok blank_file" by (simp add: slot_ok_def blank_file_def)
  moreover have "distinct_names (replicate k blank_file)" for k
    by (simp add: distinct_names_def blank_file_def)
  ultimately show ?thesis by (simp add: fs_ok_def blank_file_def)
qed

lemma blank_filesystem_empty [simp]:
  "fs_map blank_filesystem n = None" "free_of (files blank_filesystem) \<noteq> None"
proof -
  show "fs_map blank_filesystem n = None"
    by (simp add: fs_map_None slot_of_None blank_file_def)
  show "free_of (files blank_filesystem) \<noteq> None"
    by (simp add: free_of_None blank_file_def MAX_FILES_def)
qed

lemma filesystem_init_eq:
  assumes "length (files s) = MAX_FILES"
  shows "filesystem_init s = s\<lparr>files := map (\<lambda>f. f\<lparr>file_used := False\<rparr>) (files s), num_files := 0\<rparr>"
proof -
  let ?off = "\<lambda>f. f\<lparr>file_used := False\<rparr>" and ?fs = "files s"
  let ?step = "\<lambda>i s. s\<lparr>files := (files s)[i := ?off (files s ! i)]\<rparr>"
  have "fold ?step [0..<k] s = s\<lparr>files := map ?off (take k ?fs) @ drop k ?fs\<rparr>" if "k \<le> length ?fs" for k
    using that
  proof (induction k)
    case (Suc k)
    then have d: "drop k ?fs = ?fs ! k # drop (Suc k) ?fs" by (simp add: Cons_nth_drop_Suc)
    have "(map ?off (take k ?fs) @ drop k ?fs)[k := ?off (?fs ! k)] = map ?off (take (Suc k) ?fs) @ drop (Suc k) ?fs"
      using Suc.prems unfolding d by (simp add: list_update_append take_Suc_conv_app_nth)
    moreover have "(map ?off (take k ?fs) @ drop k ?fs) ! k = ?fs ! k"
      using Suc.prems by (simp add: nth_append)
    ultimately show ?case using Suc by simp
  qed simp
  from this [of MAX_FILES] show ?thesis using assms by (simp add: filesystem_init_def Let_def)
qed

text \<open>
  \<^verbatim>\<open>filesystem_init\<close> establishes the invariant of the table that all operations
  keep: from 256 slots with arrays of the declared lengths, whatever they hold, it makes a
  well-formed table in which no name exists.
\<close>

lemma filesystem_init_table:
  assumes "length (files s) = MAX_FILES"
    and "\<forall>f \<in> set (files s). length (file_name f) = MAX_FILENAME_LENGTH \<and> length (file_data f) = MAX_FILE_SIZE"
  shows "fs_ok (filesystem_init s) \<and> (\<forall>n. fs_map (filesystem_init s) n = None)"
proof -
  have "slot_of n (map (\<lambda>f. f\<lparr>file_used := False\<rparr>) (files s)) = None" for n
    by (auto simp: slot_of_None)
  then show ?thesis
    using assms by (auto simp: filesystem_init_eq fs_ok_def slot_ok_def distinct_names_def fs_map_None)
qed

lemma filesystem_init_table_witness:
  "fs_ok (filesystem_init (blank_filesystem\<lparr>files := replicate MAX_FILES (blank_file\<lparr>file_used := True\<rparr>)\<rparr>))"
  using filesystem_init_table
    [of "blank_filesystem\<lparr>files := replicate MAX_FILES (blank_file\<lparr>file_used := True\<rparr>)\<rparr>"]
  by (simp add: blank_file_def)

text \<open>
  C23. \<^verbatim>\<open>create_file\<close> on a well-formed table, for every name: it refuses names of 32
  and more characters, existing names and a full table with -1 and no change. Every other name of
  31 characters, which passes the length check, makes \<^verbatim>\<open>strncpy\<close> run past the name field;
  every other shorter name gives an empty file, nothing else changes and the table stays well formed.
\<close>

theorem create_file_outcomes:
  assumes "fs_ok s" and "0 \<notin> set n"
  shows "if length n \<ge> 32 \<or> fs_map s n \<noteq> None \<or> free_of (files s) = None
      then create_file (Some (n @ [0])) s = Inr (-1, s)
    else if length n = 31 then create_file (Some (n @ [0])) s = Inl OutOfBounds
    else \<exists>s'. create_file (Some (n @ [0])) s = Inr (0, s') \<and> fs_ok s' \<and> fs_map s' = (fs_map s)(n \<mapsto> [])"
proof (cases "length n \<ge> 31 \<or> fs_map s n \<noteq> None \<or> free_of (files s) = None")
  case True
  then show ?thesis
    using create_file_cases [OF assms] by (auto simp: MAX_FILENAME_LENGTH_def split: option.splits)
next
  case False
  then obtain i where "free_of (files s) = Some i" by blast
  moreover have "length n < MAX_FILENAME_LENGTH - 1" "fs_map s n = None"
    using False by (simp_all add: MAX_FILENAME_LENGTH_def)
  ultimately obtain s' where "create_file (Some (n @ [0])) s = Inr (0, s')" "fs_ok s'"
    "fs_map s' = (fs_map s)(n \<mapsto> [])" using create_file_map [OF assms] by metis
  then show ?thesis using False by simp
qed

theorem create_file_outcomes_witness:
  "(\<exists>s'. create_file (Some (chars ''a.txt'' @ [0])) blank_filesystem = Inr (0, s')) \<and>
   create_file (Some (replicate 31 120 @ [0])) blank_filesystem = Inl OutOfBounds"
proof -
  have n: "0 \<notin> set (chars ''a.txt'')" "0 \<notin> set (replicate 31 (120 :: u8))" by simp_all
  show ?thesis
    using create_file_outcomes [OF blank_filesystem_ok n(1)] create_file_outcomes [OF blank_filesystem_ok n(2)]
      blank_filesystem_empty by auto
qed

text \<open>
  C12. \<^verbatim>\<open>write_file\<close> of at most 4096 bytes to a name of at most 30 characters succeeds when
  the file exists or a slot is free, and then the file holds exactly these bytes and no other
  file has changed; otherwise it returns -1 and changes nothing.
\<close>

theorem write_file_stores:
  assumes "fs_ok s" and "0 \<notin> set n" and "length n \<le> 30" and "length d \<le> 4096"
  shows "\<exists>r s'. write_file (Some (n @ [0])) (Some d) (length d) s = Inr (r, s') \<and> fs_ok s' \<and>
    (if fs_map s n \<noteq> None \<or> free_of (files s) \<noteq> None
     then r = 0 \<and> fs_map s' = (fs_map s)(n \<mapsto> d)
     else r = -1 \<and> s' = s)"
proof -
  have d: "length d \<le> MAX_FILE_SIZE" and n: "length n < MAX_FILENAME_LENGTH - 1"
    using assms(3,4) by (simp_all add: MAX_FILE_SIZE_def MAX_FILENAME_LENGTH_def)
  consider "fs_map s n \<noteq> None" | "fs_map s n = None" "free_of (files s) \<noteq> None"
    | "fs_map s n = None" "free_of (files s) = None" by blast
  then show ?thesis
  proof cases
    case 1
    then show ?thesis using write_file_existing [OF assms(1,2) d 1] by metis
  next
    case 2
    then show ?thesis using write_file_new [OF assms(1,2) d 2(1) n 2(2)] by metis
  next
    case 3
    then show ?thesis using write_file_refused [OF assms(1,2) 3(1)] assms(1) by auto
  qed
qed

theorem write_file_stores_witness:
  "\<exists>s'. write_file (Some ([97] @ [0])) (Some [1, 2, 3]) 3 blank_filesystem = Inr (0, s') \<and>
     fs_map s' [97] = Some [1, 2, 3]"
proof -
  have "0 \<notin> set [97 :: u8]" "length [97 :: u8] \<le> 30" "length [1, 2, 3 :: u8] \<le> 4096" by simp_all
  from write_file_stores [OF blank_filesystem_ok this] show ?thesis
    using blank_filesystem_empty by (auto simp: numeral_3_eq_3)
qed

text \<open>
  C24. After any sequence of successful writes, reading a file returns the bytes of the last
  write to its name, or what it held before when there was none.
\<close>

theorem read_returns_last_write:
  assumes "fs_ok s" and "\<forall>(n, d) \<in> set ws. 0 \<notin> set n" and "run_writes fs_write ws s = Some s'"
    and "0 \<notin> set n"
  shows "fs_read n s' = (case map_of (rev ws) n of None \<Rightarrow> fs_read n s | Some d \<Rightarrow> Some d)"
  by (rule fs.read_last_write [OF assms])

theorem read_returns_last_write_witness:
  "\<exists>s'. fs_write [97] [1, 2] blank_filesystem = Some s' \<and> fs_read [97] s' = Some [1, 2]"
proof -
  have "length [1, 2 :: u8] \<le> MAX_FILE_SIZE" "length [97 :: u8] < MAX_FILENAME_LENGTH - 1"
    "0 \<notin> set [97 :: u8]" by (simp_all add: MAX_FILE_SIZE_def MAX_FILENAME_LENGTH_def)
  from write_file_new [OF blank_filesystem_ok this(3,1) blank_filesystem_empty(1) this(2)
      blank_filesystem_empty(2)]
  obtain s' where "write_file (Some ([97] @ [0])) (Some [1, 2]) (length [1, 2 :: u8]) blank_filesystem
    = Inr (0, s')" .
  then have s': "fs_write [97] [1, 2] blank_filesystem = Some s'"
    unfolding fs_write_def by (simp only: sum.case prod.case simp_thms if_True)
  then have "run_writes fs_write [([97], [1, 2])] blank_filesystem = Some s'" by simp
  from read_returns_last_write [OF blank_filesystem_ok _ this, of "[97]"] s' show ?thesis by auto
qed

text \<open>
  C25. \<^verbatim>\<open>list_files\<close> prints a line for each file in table order, with its name; where the
  size should be it prints the letter u, since \<^verbatim>\<open>snprintf\<close> has no unsigned directive.
\<close>

theorem list_files_prints:
  assumes "fs_ok s" and "term_ok s"
  shows "list_files s = Inr (terminal_write_string (listing s @ [0]) s)"
  by (rule list_files_text [OF assms])

theorem list_files_prints_witness:
  "\<exists>s. create_file (Some (chars ''a.txt'' @ [0])) blank_filesystem = Inr (0, s) \<and>
     list_files s = Inr (terminal_write_string
       ((chars ''Files:'' @ [10]) @ (chars ''  a.txt (u bytes)'' @ [10]) @ [0]) s)"
proof -
  let ?n = "chars ''a.txt''" and ?f = "fresh_file (chars ''a.txt'') blank_file"
  let ?s = "blank_filesystem\<lparr>files := ?f # replicate 255 blank_file, num_files := 1\<rparr>"
  have n: "0 \<notin> set ?n" "length ?n < MAX_FILENAME_LENGTH - 1" by (simp_all add: MAX_FILENAME_LENGTH_def)
  have slots: "replicate MAX_FILES blank_file = blank_file # replicate 255 blank_file"
    by (simp add: MAX_FILES_def flip: replicate_Suc)
  have unused: "\<not> file_used blank_file" by (simp add: blank_file_def)
  then have free: "free_of (files blank_filesystem) = Some 0" by (simp add: slots)
  have made: "create_file (Some (?n @ [0])) blank_filesystem = Inr (0, ?s)"
    using create_file_cases [OF blank_filesystem_ok n(1)] n(2) free by (simp add: slots MAX_FILENAME_LENGTH_def)
  have "fs_ok ?s"
    using create_file_map [OF blank_filesystem_ok n blank_filesystem_empty(1) free] made by auto
  moreover have "term_ok ?s"
    by (simp add: term_ok_def blank_filesystem_def blank_keyboard_def keyboard.defs VGA_WIDTH_def VGA_HEIGHT_def)
  moreover have "cname (file_name ?f) = ?n" "file_used ?f" "\<not> file_used blank_file"
    by (simp_all add: fresh_file_def blank_file_def cname_def MAX_FILENAME_LENGTH_def)
  then have "listing ?s = (chars ''Files:'' @ [10]) @ chars ''  a.txt (u bytes)'' @ [10]"
    by (simp add: listing_def list_line_def)
  ultimately have "list_files ?s = Inr (terminal_write_string
       ((chars ''Files:'' @ [10]) @ (chars ''  a.txt (u bytes)'' @ [10]) @ [0]) ?s)"
    using list_files_prints [of ?s] by (simp only: append_assoc)
  with made show ?thesis by blast
qed

end
