(* ===== verification/Interrupts.thy ===== *)
theory Interrupts
  imports Filesystem
begin

text \<open>
  Interrupts: \<^verbatim>\<open>kernel/interrupts.cpp\<close> and \<^verbatim>\<open>kernel_panic\<close> of
  \<^verbatim>\<open>kernel/kernel.cpp\<close>, which an exception ends in. The handlers get a pointer to the saved registers and read them from memory. Code that never returns
  gives \<^verbatim>\<open>Halted\<close> with the state at its final loop.
\<close>

subsection \<open>State\<close>

record idt_entry =
  base_lo :: u16
  sel :: u16
  always0 :: u8
  flags :: u8
  base_hi :: u16

text \<open>Addresses that the linker chooses.\<close>

record link_addresses =
  addr_idt :: u32
  addr_isr0 :: u32
  addr_isr1 :: u32
  addr_irq0 :: u32
  addr_irq1 :: u32

record interrupts = filesystem +
  idt :: "idt_entry list"
  idtp_limit :: u16
  idtp_base :: u32
  tick :: u32
  linked :: link_addresses

datatype 's run = Running 's | Halted 's

subsection \<open>Panic\<close>

text \<open>The first round of the final \<^verbatim>\<open>cli; hlt\<close> loop; with interrupts off it stays there.\<close>

definition kernel_panic :: "u8 list \<Rightarrow> 'a terminal_scheme \<Rightarrow> 'a terminal_scheme" where
  "kernel_panic message s =
     (let s = terminal_set_color VGA_COLOR_RED VGA_COLOR_BLACK s;
          s = terminal_write_string (lit (CHR 0x0A # ''KERNEL PANIC: '')) s;
          s = terminal_write_string message s;
          s = terminal_write_string (lit (CHR 0x0A # ''System halted.'' @ [CHR 0x0A])) s
      in s\<lparr>events := events s @ [Cli, Hlt]\<rparr>)"

subsection \<open>The descriptor table and the interrupt controllers\<close>

definition idt_set_gate ::
  "u8 \<Rightarrow> u32 \<Rightarrow> u16 \<Rightarrow> u8 \<Rightarrow> 'a interrupts_scheme \<Rightarrow> 'a interrupts_scheme" where
  "idt_set_gate num base sel' flags' s =
     s\<lparr>idt := (idt s)[unat num := (idt s ! unat num)
        \<lparr>base_lo := ucast (base AND 0xFFFF), base_hi := ucast (drop_bit 16 base AND 0xFFFF),
         sel := sel', always0 := 0, flags := flags'\<rparr>]\<rparr>"

definition pic_init :: "'a machine_scheme \<Rightarrow> 'a machine_scheme" where
  "pic_init s =
     (let s = outb 0x20 0x11 s; s = outb 0xA0 0x11 s;
          s = outb 0x21 0x20 s; s = outb 0xA1 0x28 s;
          s = outb 0x21 0x04 s; s = outb 0xA1 0x02 s;
          s = outb 0x21 0x01 s; s = outb 0xA1 0x01 s;
          s = outb 0x21 0x0 s
      in outb 0xA1 0x0 s)"

definition idt_load :: "u16 \<Rightarrow> u32 \<Rightarrow> 'a machine_scheme \<Rightarrow> 'a machine_scheme" where
  "idt_load limit base s = s\<lparr>events := events s @ [Lidt limit base]\<rparr>"

definition sizeof_idt_entry :: nat where "sizeof_idt_entry = 8"

definition zero_entry :: idt_entry where
  "zero_entry = \<lparr>base_lo = 0, sel = 0, always0 = 0, flags = 0, base_hi = 0\<rparr>"

definition interrupts_init :: "'a interrupts_scheme \<Rightarrow> 'a interrupts_scheme" where
  "interrupts_init s =
     (let s = s\<lparr>idtp_limit := of_nat (sizeof_idt_entry * 256 - 1)\<rparr>;
          s = s\<lparr>idtp_base := addr_idt (linked s)\<rparr>;
          s = s\<lparr>idt := replicate 256 zero_entry\<rparr>;
          s = pic_init s;
          s = idt_set_gate 0 (addr_isr0 (linked s)) 0x08 0x8E s;
          s = idt_set_gate 1 (addr_isr1 (linked s)) 0x08 0x8E s;
          s = idt_set_gate 32 (addr_irq0 (linked s)) 0x08 0x8E s;
          s = idt_set_gate 33 (addr_irq1 (linked s)) 0x08 0x8E s;
          s = idt_load (idtp_limit s) (idtp_base s) s
      in s\<lparr>events := events s @ [Sti]\<rparr>)"

subsection \<open>The handlers\<close>

text \<open>\<^verbatim>\<open>regs->int_no\<close>, after the nine words of \<^verbatim>\<open>ds\<close> and the general registers.\<close>

definition int_no :: "u32 \<Rightarrow> 'a machine_scheme \<Rightarrow> u32" where
  "int_no regs s = load32 (ram s) (regs + 36)"

definition timer_handler :: "'a interrupts_scheme \<Rightarrow> 'a interrupts_scheme" where
  "timer_handler s = s\<lparr>tick := tick s + 1\<rparr>"

definition isr_handler :: "u32 \<Rightarrow> 'a interrupts_scheme \<Rightarrow> fault + 'a interrupts_scheme run" where
  "isr_handler regs s =
     (if int_no regs s < 32
      then rbind (int_to_string (sint (int_no regs s)) (replicate 12 0)) (\<lambda>num_str.
           Inr (Halted (kernel_panic num_str s)))
      else Inr (Running s))"

definition irq_handler :: "u32 \<Rightarrow> 'a interrupts_scheme \<Rightarrow> 'a interrupts_scheme" where
  "irq_handler regs s =
     (let n = int_no regs s;
          s = (if n \<ge> 40 then outb 0xA0 0x20 s else s);
          s = outb 0x20 0x20 s
      in if n - 32 = 0 then timer_handler s
         else if n - 32 = 1 then keyboard_handler s
         else s)"

subsection \<open>The interrupt controllers\<close>

text \<open>
  One 8259 controller as its data sheet describes it: the byte 0x11 to the command port starts
  an initialisation of three more bytes (vector offset, cascade wiring, mode) to the data port;
  after it the data port is the interrupt mask and the command byte 0x20 ends an interrupt.
  The last component counts the ended ones.
\<close>

type_synonym pic = "nat \<times> u8 \<times> u8 \<times> u8 \<times> nat"

fun pic_step :: "u16 \<Rightarrow> event \<Rightarrow> pic \<Rightarrow> pic" where
  "pic_step port (Out p v) (st, off, cas, mask', ended) =
     (if p = port \<and> v = 0x11 then (1, off, cas, 0, ended)
      else if p = port \<and> v = 0x20 then (st, off, cas, mask', ended + 1)
      else if p = port + 1 \<and> st = 1 then (2, v, cas, mask', ended)
      else if p = port + 1 \<and> st = 2 then (3, off, v, mask', ended)
      else if p = port + 1 \<and> st = 3 then (0, off, cas, mask', ended)
      else if p = port + 1 \<and> st = 0 then (0, off, cas, v, ended)
      else (st, off, cas, mask', ended))"
| "pic_step port _ st = st"

definition ended_irqs :: "u16 \<Rightarrow> event list \<Rightarrow> nat" where
  "ended_irqs port es = (case fold (pic_step port) es (0, 0, 0, 0, 0) of (_, _, _, _, ended) \<Rightarrow> ended)"

definition new_events :: "'a machine_scheme \<Rightarrow> 'a machine_scheme \<Rightarrow> event list" where
  "new_events s s' = drop (length (events s)) (events s')"

definition interrupt_gate :: "u32 \<Rightarrow> idt_entry" where
  "interrupt_gate a = \<lparr>base_lo = ucast a, sel = 8, always0 = 0, flags = 0x8E, base_hi = ucast (drop_bit 16 a)\<rparr>"

text \<open>Where the processor goes through a gate.\<close>

definition gate_address :: "idt_entry \<Rightarrow> u32" where
  "gate_address e = ucast (base_lo e) OR push_bit 16 (ucast (base_hi e))"

lemma gate_address_interrupt_gate: "gate_address (interrupt_gate a) = a"
  unfolding gate_address_def interrupt_gate_def
  by (rule bit_word_eqI) (auto simp: bit_simps)

lemma mask_halves:
  "ucast (a AND 0xFFFF) = (ucast a :: u16)" "ucast (drop_bit 16 a AND 0xFFFF) = (ucast (drop_bit 16 a) :: u16)"
  for a :: u32
proof -
  have m: "(0xFFFF :: u32) = mask 16" by (simp add: mask_eq_exp_minus_1)
  show "ucast (a AND 0xFFFF) = (ucast a :: u16)"
    unfolding m by (rule bit_word_eqI) (auto simp: bit_simps)
  show "ucast (drop_bit 16 a AND 0xFFFF) = (ucast (drop_bit 16 a) :: u16)"
    unfolding m by (rule bit_word_eqI) (auto simp: bit_simps)
qed

lemma idt_set_gate_eq:
  assumes "idt s ! unat num = zero_entry"
  shows "idt_set_gate num a 8 0x8E s = s\<lparr>idt := (idt s)[unat num := interrupt_gate a]\<rparr>"
  using assms by (simp add: idt_set_gate_def mask_halves interrupt_gate_def zero_entry_def)

lemma interrupts_init_idt:
  "idt (interrupts_init s) = (replicate 256 zero_entry)
     [0 := interrupt_gate (addr_isr0 (linked s)), 1 := interrupt_gate (addr_isr1 (linked s)),
      32 := interrupt_gate (addr_irq0 (linked s)), 33 := interrupt_gate (addr_irq1 (linked s))]"
proof -
  have z: "(replicate 256 zero_entry)[0 := g, 1 := h, 32 := k] ! 33 = zero_entry"
    "(replicate 256 zero_entry)[0 := g, 1 := h] ! 32 = zero_entry"
    "(replicate 256 zero_entry)[0 := g] ! 1 = zero_entry"
    "(replicate 256 zero_entry) ! 0 = zero_entry" for g h k
    by simp_all
  show ?thesis
    unfolding interrupts_init_def Let_def
    by (simp add: pic_init_def outb_def idt_load_def idt_set_gate_eq z)
qed

subsection \<open>Properties\<close>

definition blank_interrupts :: interrupts where
  "blank_interrupts = filesystem.extend blank_filesystem
     \<lparr>idt = [], idtp_limit = 0, idtp_base = 0, tick = 0,
      linked = \<lparr>addr_idt = 0x5000, addr_isr0 = 0x12345, addr_isr1 = 0x23456, addr_irq0 = 0x34567,
        addr_irq1 = 0x45678\<rparr>\<rparr>"

lemma blank_interrupts_simps [simp]:
  "term_ok blank_interrupts" "kb_ok blank_interrupts" "ram blank_interrupts = (\<lambda>_. 0)"
  "tick blank_interrupts = 0"
  by (simp_all add: blank_interrupts_def filesystem.defs blank_filesystem_def keyboard.defs
      blank_keyboard_def term_ok_def VGA_WIDTH_def VGA_HEIGHT_def kb_ok_def kb_queue_def
      KEYBOARD_BUFFER_SIZE_def)

text \<open>
  \<^verbatim>\<open>interrupts_init\<close> fills the descriptor table completely before it loads it and
  enables interrupts: the gates 0, 1, 32 and 33 lead to the four stubs (the split address is
  put together again), the other 252 are absent, and the last two machine events load a table
  of 256 entries at the address of \<^verbatim>\<open>idt\<close> and then enable interrupts.
\<close>

lemma interrupts_init_table:
  "idt (interrupts_init s) = (replicate 256 zero_entry)
     [0 := interrupt_gate (addr_isr0 (linked s)), 1 := interrupt_gate (addr_isr1 (linked s)),
      32 := interrupt_gate (addr_irq0 (linked s)), 33 := interrupt_gate (addr_irq1 (linked s))] \<and>
   gate_address (interrupt_gate a) = a \<and> flags zero_entry = 0 \<and>
   (\<exists>es. events (interrupts_init s) = events s @ es @ [Lidt (8 * 256 - 1) (addr_idt (linked s)), Sti] \<and>
      Sti \<notin> set es)"
proof -
  have "events (interrupts_init s) = events s @ [Out 0x20 0x11, Out 0xA0 0x11, Out 0x21 0x20,
      Out 0xA1 0x28, Out 0x21 4, Out 0xA1 2, Out 0x21 1, Out 0xA1 1, Out 0x21 0, Out 0xA1 0]
      @ [Lidt (8 * 256 - 1) (addr_idt (linked s)), Sti]"
    by (simp add: interrupts_init_def Let_def pic_init_def outb_def idt_load_def idt_set_gate_def
        sizeof_idt_entry_def)
  then show ?thesis
    using interrupts_init_idt [of s] gate_address_interrupt_gate [of a]
    by (auto simp: zero_entry_def)
qed

text \<open>
  \<^verbatim>\<open>pic_init\<close> programs both controllers from any state: their vectors move to 32 and
  40, behind the processor exceptions, they are wired as master and slave, the initialisation
  sequences are complete and no line is masked.
\<close>

lemma pic_init_remaps:
  "(\<exists>ended. fold (pic_step 0x20) (new_events s (pic_init s)) st = (0, 32, 4, 0, ended)) \<and>
   (\<exists>ended. fold (pic_step 0xA0) (new_events s (pic_init s)) st = (0, 40, 2, 0, ended))"
proof -
  have "new_events s (pic_init s) = [Out 0x20 0x11, Out 0xA0 0x11, Out 0x21 0x20, Out 0xA1 0x28,
      Out 0x21 4, Out 0xA1 2, Out 0x21 1, Out 0xA1 1, Out 0x21 0, Out 0xA1 0]"
    by (simp add: new_events_def pic_init_def outb_def Let_def)
  moreover obtain a b c d e where "st = (a, b, c, d, e)" by (metis prod_cases5)
  ultimately show ?thesis by simp
qed

text \<open>
  C27. \<^verbatim>\<open>irq_handler\<close> with a valid frame pointer ends each interrupt exactly once at the
  master and, for the vectors from 40 on, once at the slave; the timer counts, a keyboard
  interrupt has the effect of the key press, every other interrupt changes neither.
\<close>

theorem irq_handler_dispatches:
  fixes regs :: u32 and s :: "'a interrupts_scheme"
  assumes "kb_ok s"
  defines "n \<equiv> int_no regs s" and "s' \<equiv> irq_handler regs s"
  shows "ended_irqs 0x20 (new_events s s') = 1 \<and>
    ended_irqs 0xA0 (new_events s s') = (if 40 \<le> n then 1 else 0) \<and>
    tick s' = (if n = 32 then tick s + 1 else tick s) \<and>
    kbd_view s' = (if n = 33
      then key_press (device s (events s @ [Out 0x20 0x20]) KEYBOARD_DATA_PORT) (kbd_view s)
      else kbd_view s) \<and>
    kb_ok s'"
proof -
  define t where "t = outb 0x20 0x20 (if n \<ge> 40 then outb 0xA0 0x20 s else s)"
  have t: "kb_ok t" "kbd_view t = kbd_view s" "tick t = tick s" "device t = device s"
    "events t = events s @ (if n \<ge> 40 then [Out 0xA0 0x20] else []) @ [Out 0x20 0x20]"
    using assms(1) by (auto simp: t_def outb_def kb_ok_def kbd_view_def kb_queue_def)
  have s': "s' = (if n = 32 then timer_handler t else if n = 33 then keyboard_handler t else t)"
    unfolding s'_def irq_handler_def Let_def n_def [symmetric] t_def [symmetric]
    by (auto simp: diff_eq_eq)
  have kbd: "tick (keyboard_handler t) = tick t"
    "\<exists>v. events (keyboard_handler t) = events t @ [In KEYBOARD_DATA_PORT v]"
    by (auto simp: keyboard_handler_def buffer_put_def inb_def Let_def split: if_splits)
  have tm: "kb_ok (timer_handler t) = kb_ok t" "kbd_view (timer_handler t) = kbd_view t"
    "events (timer_handler t) = events t"
    by (simp_all add: timer_handler_def kb_ok_def kbd_view_def kb_queue_def)
  obtain v where v: "events (keyboard_handler t) = events t @ [In KEYBOARD_DATA_PORT v]"
    using kbd(2) by blast
  have es: "new_events s s' = (if n \<ge> 40 then [Out 0xA0 0x20] else []) @ [Out 0x20 0x20] @
      (if n = 33 then [In KEYBOARD_DATA_PORT v] else [])"
    using t(5) v by (auto simp: new_events_def s' tm)
  have "ended_irqs 0x20 (new_events s s') = 1"
    and "ended_irqs 0xA0 (new_events s s') = (if 40 \<le> n then 1 else 0)"
    by (simp_all add: es ended_irqs_def)
  moreover have "tick s' = (if n = 32 then tick s + 1 else tick s)"
    using t(3) kbd(1) by (simp add: s' timer_handler_def)
  moreover have "kbd_view s' = (if n = 33
      then key_press (device s (events s @ [Out 0x20 0x20]) KEYBOARD_DATA_PORT) (kbd_view s)
      else kbd_view s)"
    using t tm(2) keyboard_handler_view(1) [OF t(1)] by (simp add: s')
  moreover have "kb_ok s'"
    using t(1) tm(1) keyboard_handler_view(2) [OF t(1)] by (simp add: s')
  ultimately show ?thesis by blast
qed

theorem irq_handler_dispatches_witness:
  "tick (irq_handler 0x100 (blank_interrupts\<lparr>ram := store32 (\<lambda>_. 0) 0x124 32\<rparr>)) = 1"
proof -
  let ?s = "blank_interrupts\<lparr>ram := store32 (\<lambda>_. 0) 0x124 32\<rparr>"
  have "kb_ok ?s"
    using blank_interrupts_simps(2) by (simp add: kb_ok_def kb_queue_def)
  from irq_handler_dispatches [OF this, where regs = "0x100"] show ?thesis
    by (simp add: int_no_def)
qed

definition panic_text :: "u8 list \<Rightarrow> u8 list" where
  "panic_text msg = [10] @ chars ''KERNEL PANIC: '' @ msg @ [10] @ chars ''System halted.'' @ [10]"

lemma kernel_panic_view:
  assumes "term_ok s" and "0 \<notin> set msg"
  shows "view (kernel_panic (msg @ 0 # rest) s) = fold (scr_write 4) (panic_text msg) (view s)"
    and "\<exists>es. events (kernel_panic (msg @ 0 # rest) s) = es @ [Cli, Hlt]"
proof -
  define a b where "a = [10 :: u8] @ chars ''KERNEL PANIC: ''" and "b = [10 :: u8] @ chars ''System halted.'' @ [10]"
  have nz: "0 \<notin> set a" "0 \<notin> set b" by (simp_all add: a_def b_def)
  define s0 where "s0 = terminal_set_color VGA_COLOR_RED VGA_COLOR_BLACK s"
  have s0: "term_ok s0" "view s0 = view s" "terminal_color s0 = 4"
    using assms(1) by (simp_all add: s0_def terminal_set_color_def term_ok_def view_def make_color_def
        cells_def get_cell_def)
  define s3 where "s3 = terminal_write_string (b @ [0]) (terminal_write_string (msg @ 0 # rest)
      (terminal_write_string (a @ [0]) s0))"
  have "s3 = terminal_write_string (a @ msg @ b @ [0]) s0"
    unfolding s3_def terminal_write_string_append [OF nz(1), of "msg @ b @ [0]"]
      terminal_write_string_append [OF assms(2), of "b @ [0]"]
      terminal_write_string_stop [OF assms(2), of rest] ..
  moreover have "takeWhile (\<lambda>c. c \<noteq> 0) ((a @ msg @ b) @ [0]) = a @ msg @ b"
    using nz assms(2) by (subst takeWhile_append2) auto
  ultimately have v: "view s3 = fold (scr_write 4) (a @ msg @ b) (view s)"
    using terminal_write_string_view [OF s0(1), of "a @ msg @ b @ [0]"] s0 by simp
  have p: "kernel_panic (msg @ 0 # rest) s = s3\<lparr>events := events s3 @ [Cli, Hlt]\<rparr>"
    unfolding kernel_panic_def Let_def s3_def s0_def a_def b_def lit_def by simp
  show "view (kernel_panic (msg @ 0 # rest) s) = fold (scr_write 4) (panic_text msg) (view s)"
    unfolding p using v by (simp add: view_def a_def b_def panic_text_def)
  show "\<exists>es. events (kernel_panic (msg @ 0 # rest) s) = es @ [Cli, Hlt]"
    unfolding p by simp
qed

text \<open>
  An exception (vector below 32) stops the system: \<^verbatim>\<open>isr_handler\<close> does not return,
  the vector number has been printed in red between the two texts of the panic message, and
  the machine is left halted with interrupts off.
\<close>

lemma exception_panics:
  assumes "term_ok s" and "int_no regs s < 32"
  shows "\<exists>t es. isr_handler regs s = Inr (Halted t) \<and>
    view t = fold (scr_write 4) (panic_text (decimal (uint (int_no regs s)))) (view s) \<and>
    events t = es @ [Cli, Hlt]"
proof -
  let ?n = "int_no regs s"
  have "uint ?n < 32" using assms(2) by (simp add: word_less_def)
  moreover have "- (2 ^ 31) \<le> uint ?n" by (rule order_trans [OF _ uint_ge_0]) simp
  ultimately have n: "sint ?n = uint ?n"
    unfolding sint_uint using signed_take_bit_int_eq_self [of 31 "uint ?n"] by simp
  have "length (decimal (uint ?n)) \<le> 11"
    using \<open>uint ?n < 32\<close> by (intro length_decimal) simp
  then have "int_to_string (sint ?n) (replicate 12 0)
      = Inr (decimal (uint ?n) @ 0 # replicate (11 - length (decimal (uint ?n))) 0)"
    using itoa_text [of 10 "uint ?n" "replicate 12 0"] uint_ge_0 [of ?n]
    unfolding int_to_string_itoa n by (simp add: INT_MIN_def)
  then have "isr_handler regs s = Inr (Halted (kernel_panic
      (decimal (uint ?n) @ 0 # replicate (11 - length (decimal (uint ?n))) 0) s))"
    using assms(2) by (simp add: isr_handler_def)
  then show ?thesis
    using kernel_panic_view [OF assms(1) decimal_nonzero [of "uint ?n"]] by blast
qed

lemma exception_panics_witness:
  "\<exists>t. isr_handler 0x100 blank_interrupts = Inr (Halted t)"
proof -
  have "int_no 0x100 blank_interrupts < 32" by (simp add: int_no_def load32_def)
  from exception_panics [OF blank_interrupts_simps(1) this] show ?thesis by blast
qed

end
