(* ===== verification/Compiler.thy ===== *)
theory Compiler
  imports Interrupts
begin

text \<open>
  The one-pass assembler of \<^verbatim>\<open>kernel/compiler.cpp\<close>. The source and the instruction
  array are in memory, the line buffer is a checked array. Results are
  \<^verbatim>\<open>(fault + _) option\<close>: \<^const>\<open>None\<close> is an allocator loop that does not end. The
  second half shows that the loop over the characters of the source assembles it line by line.
\<close>

subsection \<open>State and instructions\<close>

datatype OpCode =
  OP_NOP | OP_PUSH | OP_POP | OP_ADD | OP_SUB | OP_MUL | OP_DIV | OP_RET | OP_INT

fun op_code :: "OpCode \<Rightarrow> u8" where
  "op_code OP_NOP = 0"
| "op_code OP_PUSH = 1"
| "op_code OP_POP = 2"
| "op_code OP_ADD = 3"
| "op_code OP_SUB = 4"
| "op_code OP_MUL = 5"
| "op_code OP_DIV = 6"
| "op_code OP_RET = 7"
| "op_code OP_INT = 8"

record Instruction =
  opcode :: u8
  operands :: "u8 list"
  operand_count :: u8

definition sizeof_Instruction :: u32 where "sizeof_Instruction = 6"

text \<open>The six bytes of an instruction in memory.\<close>

definition instr_bytes :: "Instruction \<Rightarrow> u8 list" where
  "instr_bytes i = opcode i # operands i @ [operand_count i]"

record compiler = interrupts +
  output_buffer :: u32
  output_size :: u32

record CompileResult =
  success :: bool
  error_message :: "u8 list"
  binary :: u32
  binary_size :: u32

definition compiler_init :: "'a compiler_scheme \<Rightarrow> 'a compiler_scheme" where
  "compiler_init s = s\<lparr>output_buffer := 0, output_size := 0\<rparr>"

subsection \<open>One line\<close>

function skip_blanks :: "u8 list \<Rightarrow> nat \<Rightarrow> fault + nat" where
  "skip_blanks line i =
     rbind (aget line i) (\<lambda>c.
       if c = of_char CHR '' '' \<or> c = 9 then skip_blanks line (i + 1) else Inr i)"
  by auto
termination
  by (relation "measure (\<lambda>(line, i). length line - i)") (auto simp: aget_def split: if_splits)

text \<open>
  The digits of an operand, modulo 256. (As \<^verbatim>\<open>char\<close> is signed, bytes from 128 on are
  not digits; neither are they here.)
\<close>

function read_operand :: "u8 list \<Rightarrow> nat \<Rightarrow> u8 \<Rightarrow> fault + u8" where
  "read_operand line i v =
     rbind (aget line i) (\<lambda>c.
       if of_char CHR ''0'' \<le> c \<and> c \<le> of_char CHR ''9''
       then read_operand line (i + 1) (v * 10 + (c - of_char CHR ''0''))
       else Inr v)"
  by auto
termination
  by (relation "measure (\<lambda>(line, i, v). length line - i)") (auto simp: aget_def split: if_splits)

declare skip_blanks.simps [simp del] read_operand.simps [simp del]

definition empty_instruction :: Instruction where
  "empty_instruction = \<lparr>opcode = op_code OP_NOP, operands = replicate 4 0, operand_count = 0\<rparr>"

definition tokenize_line :: "u8 list \<Rightarrow> fault + bool \<times> Instruction" where
  "tokenize_line line =
     rbind (skip_blanks line 0) (\<lambda>i.
     rbind (aget line i) (\<lambda>c.
     if c = 0 \<or> c = of_char CHR ''#'' \<or> c = of_char CHR '';'' then Inr (True, empty_instruction)
     else rbind (arr_memcmp line i (lit ''nop'') 0 3) (\<lambda>r.
     if r = 0 then Inr (True, empty_instruction\<lparr>opcode := op_code OP_NOP\<rparr>)
     else rbind (arr_memcmp line i (lit ''push'') 0 4) (\<lambda>r.
     if r = 0 then
       rbind (skip_blanks line (i + 4)) (\<lambda>i.
       rbind (read_operand line i 0) (\<lambda>v.
       Inr (True, empty_instruction\<lparr>opcode := op_code OP_PUSH, operands := [v, 0, 0, 0],
                                    operand_count := 1\<rparr>)))
     else rbind (arr_memcmp line i (lit ''ret'') 0 3) (\<lambda>r.
     if r = 0 then Inr (True, empty_instruction\<lparr>opcode := op_code OP_RET\<rparr>)
     else Inr (False, empty_instruction))))))"

subsection \<open>The source\<close>

text \<open>
  The line from \<^verbatim>\<open>line_start\<close> up to \<^verbatim>\<open>current\<close> in the line buffer, at most 255
  bytes and a terminator; the bytes behind it are uninitialised (zeros here) and never read.
\<close>

definition line_buffer :: "mem \<Rightarrow> u32 \<Rightarrow> nat \<Rightarrow> nat \<Rightarrow> u8 list" where
  "line_buffer m source line_start current =
     (let line_length = (if current - line_start > 255 then 255 else current - line_start)
      in bytes_at m (source + of_nat line_start) line_length @ replicate (256 - line_length) 0)"

text \<open>
  The loop over the characters, as offsets into the source, which is read below its length only.
  The instruction is stored through \<^verbatim>\<open>&instructions[instruction_count]\<close> whether or not the line
  is valid; \<^term>\<open>room\<close> is the size in bytes of the array that was allocated, and a store behind
  it a fault. The flag of the result is false when a line was refused.
\<close>

function compile_loop ::
  "u32 \<Rightarrow> nat \<Rightarrow> u32 \<Rightarrow> nat \<Rightarrow> nat \<Rightarrow> nat \<Rightarrow> nat \<Rightarrow> mem \<Rightarrow> fault + bool \<times> nat \<times> mem" where
  "compile_loop source len instructions room line_start current count m =
     (if current < len then
        if m (source + of_nat current) = 10 \<or> current = len - 1 then
          if room < unat sizeof_Instruction * (count + 1) then Inl OutOfBounds
          else rbind (tokenize_line (line_buffer m source line_start current)) (\<lambda>(ok, instr).
            let m = write_bytes m (instructions + sizeof_Instruction * of_nat count) (instr_bytes instr)
            in if \<not> ok then Inr (False, count, m)
               else compile_loop source len instructions room (current + 1) (current + 1) (count + 1) m)
        else compile_loop source len instructions room line_start (current + 1) count m
      else Inr (True, count, m))"
  by auto
termination
  by (relation "measure (\<lambda>(source, len, instructions, room, line_start, current, count, m). len - current)") auto

declare compile_loop.simps [simp del]

definition compile_failure :: "nat \<Rightarrow> string \<Rightarrow> CompileResult" where
  "compile_failure n msg =
     \<lparr>success = False, error_message = take n (lit msg) @ replicate (256 - n) 0,
      binary = 0, binary_size = 0\<rparr>"

definition compile_code ::
  "u32 \<Rightarrow> u32 \<Rightarrow> 'a heap_scheme \<Rightarrow> (fault + CompileResult \<times> 'a heap_scheme) option" where
  "compile_code source len s =
     do {
       (instructions, s) \<leftarrow> memory_allocate (sizeof_Instruction * len) s;
       if instructions = 0
       then Some (Inr (compile_failure 40 ''Failed to allocate memory for compilation'', s))
       else (case compile_loop source (unat len) instructions (unat (sizeof_Instruction * len)) 0 0 0 (ram s) of
           Inl e \<Rightarrow> Some (Inl e)
         | Inr (ok, instruction_count, m) \<Rightarrow>
             if \<not> ok then do {
               s \<leftarrow> memory_free instructions (s\<lparr>ram := m\<rparr>);
               Some (Inr (compile_failure 18 ''Invalid instruction'', s))
             }
             else do {
               let n = of_nat instruction_count * sizeof_Instruction;
               (binary', s) \<leftarrow> memory_allocate n (s\<lparr>ram := m\<rparr>);
               if binary' = 0 then do {
                 s \<leftarrow> memory_free instructions s;
                 Some (Inr ((compile_failure 40 ''Failed to allocate memory for final binary'')
                              \<lparr>binary_size := n\<rparr>, s))
               }
               else do {
                 s \<leftarrow> memory_free instructions
                        (s\<lparr>ram := fst (memcpy binary' instructions n (ram s))\<rparr>);
                 Some (Inr (\<lparr>success = True,
                   error_message = take 21 (lit ''Compilation successful'') @ replicate (256 - 21) 0,
                   binary = binary', binary_size = n\<rparr>, s))
               }
             })
     }"

text \<open>
  The code that \<^verbatim>\<open>func()\<close> jumps to is data: its effect is the argument \<^verbatim>\<open>call\<close>,
  which gets the address (\<^const>\<open>None\<close>: it does not return).
\<close>

definition execute_binary ::
  "(u32 \<Rightarrow> 'a heap_scheme \<Rightarrow> 'a heap_scheme option) \<Rightarrow> u32 \<Rightarrow> u32 \<Rightarrow> 'a heap_scheme \<Rightarrow>
   (bool \<times> 'a heap_scheme) option" where
  "execute_binary call binary' sz s =
     (if binary' = 0 \<or> sz = 0 then Some (False, s)
      else do {
        (exec_mem, s) \<leftarrow> memory_allocate sz s;
        if exec_mem = 0 then Some (False, s)
        else do {
          s \<leftarrow> call exec_mem (s\<lparr>ram := fst (memcpy exec_mem binary' sz (ram s))\<rparr>);
          s \<leftarrow> memory_free exec_mem s;
          Some (True, s)
        }
      })"

subsection \<open>What a line means\<close>

definition blank_char :: "u8 \<Rightarrow> bool" where "blank_char c \<longleftrightarrow> c = 32 \<or> c = 9"
definition digit :: "u8 \<Rightarrow> bool" where "digit c \<longleftrightarrow> 48 \<le> c \<and> c \<le> 57"

text \<open>The value of decimal digits, modulo 256.\<close>

definition operand_value :: "u8 list \<Rightarrow> u8" where
  "operand_value ds = fold (\<lambda>c v. v * 10 + (c - 48)) ds 0"

definition push_instruction :: "u8 \<Rightarrow> Instruction" where
  "push_instruction v = \<lparr>opcode = 1, operands = [v, 0, 0, 0], operand_count = 1\<rparr>"

definition plain_instruction :: "u8 \<Rightarrow> Instruction" where
  "plain_instruction c = \<lparr>opcode = c, operands = [0, 0, 0, 0], operand_count = 0\<rparr>"

definition parse_line :: "u8 list \<Rightarrow> Instruction option" where
  "parse_line line =
     (let t = dropWhile blank_char line in
      if t = [] \<or> hd t \<in> {35, 59} \<or> take 3 t = chars ''nop'' then Some (plain_instruction 0)
      else if take 4 t = chars ''push'' then
        Some (push_instruction (operand_value (takeWhile digit (dropWhile blank_char (drop 4 t)))))
      else if take 3 t = chars ''ret'' then Some (plain_instruction 7)
      else None)"

lemma skip_blanks_eq:
  "0 \<notin> set l \<Longrightarrow>
   skip_blanks (p @ l @ 0 # r) (length p) = Inr (length p + length (takeWhile blank_char l))"
proof (induction l arbitrary: p)
  case Nil
  then show ?case by (subst skip_blanks.simps) (simp add: aget_def nth_append)
next
  case (Cons c l)
  then show ?case
    using Cons.IH [of "p @ [c]"]
    by (subst skip_blanks.simps) (simp add: aget_def nth_append blank_char_def [of c])
qed

lemma read_operand_eq:
  "0 \<notin> set l \<Longrightarrow> read_operand (p @ l @ 0 # r) (length p) v
    = Inr (fold (\<lambda>c v. v * 10 + (c - 48)) (takeWhile digit l) v)"
proof (induction l arbitrary: p v)
  case Nil
  then show ?case by (subst read_operand.simps) (simp add: aget_def nth_append)
next
  case (Cons c l)
  then show ?case
    using Cons.IH [of "p @ [c]" "v * 10 + (c - 48)"]
    by (subst read_operand.simps) (simp add: aget_def nth_append digit_def [of c])
qed

lemma arr_memcmp_keyword:
  "0 \<notin> set kw \<Longrightarrow> \<exists>d. arr_memcmp (p @ t @ 0 # r) (length p) (q @ kw @ [0]) (length q) (length kw) = Inr d \<and>
     (d = 0 \<longleftrightarrow> take (length kw) t = kw)"
proof (induction kw arbitrary: p q t)
  case (Cons k kw)
  show ?case
  proof (cases t)
    case Nil
    have "uint (0 :: u8) - uint k \<noteq> 0" using Cons.prems by (auto simp: uint_0_iff)
    then show ?thesis using Nil Cons.prems by (simp add: aget_def nth_append)
  next
    case c: (Cons c t')
    show ?thesis
    proof (cases "c = k")
      case True
      then show ?thesis
        using Cons.IH [of "p @ [c]" t' "q @ [k]"] Cons.prems c by (simp add: aget_def nth_append)
    next
      case False
      then have "uint c - uint k \<noteq> 0" by (auto dest: word_uint_eqI)
      then show ?thesis using False c by (simp add: aget_def nth_append)
    qed
  qed
qed simp

lemma tokenize_line_eq:
  assumes "0 \<notin> set l"
  shows "tokenize_line (l @ 0 # r) = Inr (case parse_line l of
      None \<Rightarrow> (False, empty_instruction) | Some i \<Rightarrow> (True, i))"
proof -
  define p t where "p = takeWhile blank_char l" and "t = dropWhile blank_char l"
  have l: "l @ 0 # r = p @ t @ 0 # r" by (simp add: p_def t_def)
  have t0: "0 \<notin> set t" using assms by (auto simp: t_def dest: set_dropWhileD)
  have skip: "skip_blanks (p @ t @ 0 # r) 0 = Inr (length p)"
    using skip_blanks_eq [OF assms, of "[]" r] by (simp add: l p_def)
  have get: "aget (p @ t @ 0 # r) (length p) = Inr (case t of [] \<Rightarrow> 0 | c # _ \<Rightarrow> c)"
    by (cases t) (simp_all add: aget_def nth_append)
  have kw: "\<exists>d. arr_memcmp (p @ t @ 0 # r) (length p) (lit k) 0 n = Inr d \<and>
     (d = 0 \<longleftrightarrow> take n t = chars k)" if "0 \<notin> set (chars k)" "length k = n" for k n
    using arr_memcmp_keyword [OF that(1), of p t r "[]"] that(2) by (simp add: lit_def)
  have "0 \<notin> set (chars ''nop'')" "length ''nop'' = 3" by simp_all
  from kw [OF this] obtain d1 where d1: "arr_memcmp (p @ t @ 0 # r) (length p) (lit ''nop'') 0 3 = Inr d1"
    "d1 = 0 \<longleftrightarrow> take 3 t = chars ''nop''" by blast
  have "0 \<notin> set (chars ''push'')" "length ''push'' = 4" by simp_all
  from kw [OF this] obtain d2 where d2: "arr_memcmp (p @ t @ 0 # r) (length p) (lit ''push'') 0 4 = Inr d2"
    "d2 = 0 \<longleftrightarrow> take 4 t = chars ''push''" by blast
  have "0 \<notin> set (chars ''ret'')" "length ''ret'' = 3" by simp_all
  from kw [OF this] obtain d3 where d3: "arr_memcmp (p @ t @ 0 # r) (length p) (lit ''ret'') 0 3 = Inr d3"
    "d3 = 0 \<longleftrightarrow> take 3 t = chars ''ret''" by blast
  have operand: "rbind (skip_blanks (p @ t @ 0 # r) (length p + 4)) (\<lambda>i. read_operand (p @ t @ 0 # r) i 0)
      = Inr (operand_value (takeWhile digit (dropWhile blank_char (drop 4 t))))"
    if "take 4 t = chars ''push''"
  proof -
    define u where "u = drop 4 t"
    have tu: "t = chars ''push'' @ u" using that append_take_drop_id [of 4 t] by (simp only: u_def)
    have u0: "0 \<notin> set u" using t0 by (simp add: tu)
    define b v where "b = takeWhile blank_char u" and "v = dropWhile blank_char u"
    have v0: "0 \<notin> set v" using u0 by (auto simp: v_def dest: set_dropWhileD)
    have s: "skip_blanks (p @ t @ 0 # r) (length p + 4) = Inr (length p + 4 + length b)"
      using skip_blanks_eq [OF u0, of "p @ chars ''push''" r]
      by (simp add: tu b_def eval_nat_numeral)
    have ro: "read_operand ((p @ chars ''push'' @ b) @ v @ 0 # r) (length (p @ chars ''push'' @ b)) 0
        = Inr (operand_value (takeWhile digit v))"
      unfolding operand_value_def by (rule read_operand_eq [OF v0])
    have e1: "(p @ chars ''push'' @ b) @ v @ 0 # r = p @ t @ 0 # r"
      by (simp add: tu b_def v_def)
    have e2: "length (p @ chars ''push'' @ b) = length p + 4 + length b" by simp
    show ?thesis
      using ro [unfolded e1 e2] unfolding s u_def [symmetric] v_def [symmetric] by simp
  qed
  have push: "rbind (skip_blanks (p @ t @ 0 # r) (length p + 4)) (\<lambda>i.
       rbind (read_operand (p @ t @ 0 # r) i 0) (\<lambda>v. Inr (True, K v)))
      = Inr (True, K (operand_value (takeWhile digit (dropWhile blank_char (drop 4 t)))))"
    if "take 4 t = chars ''push''" for K :: "u8 \<Rightarrow> Instruction"
    using operand [OF that] by (simp flip: rbind_assoc)
  have codes: "empty_instruction = plain_instruction 0"
    "plain_instruction 0\<lparr>opcode := op_code OP_NOP\<rparr> = plain_instruction 0"
    "plain_instruction 0\<lparr>opcode := op_code OP_RET\<rparr> = plain_instruction 7"
    "plain_instruction 0\<lparr>opcode := op_code OP_PUSH, operands := [v, 0, 0, 0], operand_count := 1\<rparr>
      = push_instruction v" for v
    by (simp_all add: empty_instruction_def plain_instruction_def push_instruction_def numeral_eq_Suc)
  show ?thesis
    unfolding l tokenize_line_def skip rbind_simps get d1(1) d2(1) d3(1) codes parse_line_def
      t_def [symmetric] Let_def
    using t0 d1(2) d2(2) d3(2) push by (cases t) auto
qed

subsection \<open>The source as a list of lines\<close>

fun split_lines :: "u8 list \<Rightarrow> u8 list \<Rightarrow> u8 list list" where
  "split_lines line [] = [line]"
| "split_lines line (c # cs) =
     (if c = 10 then line # split_lines [] cs else split_lines (line @ [c]) cs)"

text \<open>
  The lines that the compiler sees: the last character of the source always ends a line and
  is dropped, whether or not it is a line feed.
\<close>

definition source_lines :: "u8 list \<Rightarrow> u8 list list" where
  "source_lines cs = (if cs = [] then [] else split_lines [] (butlast cs))"

text \<open>A line as the line buffer holds it: cut to 255 bytes, up to the first zero.\<close>

definition line_text :: "u8 list \<Rightarrow> u8 list" where "line_text line = cname (take 255 line)"

fun assemble :: "u8 list list \<Rightarrow> Instruction list option" where
  "assemble [] = Some []"
| "assemble (l # ls) =
     (case parse_line (line_text l) of None \<Rightarrow> None
      | Some i \<Rightarrow> map_option (\<lambda>is. i # is) (assemble ls))"

definition code_bytes :: "Instruction list \<Rightarrow> u8 list" where
  "code_bytes is = concat (map instr_bytes is)"

text \<open>The same from the middle of the source, with the characters of the current line so far.\<close>

definition rest_lines :: "u8 list \<Rightarrow> u8 list \<Rightarrow> u8 list list" where
  "rest_lines line cs = (if cs = [] then [] else split_lines line (butlast cs))"

lemma rest_lines_Cons:
  "rest_lines line (c # cs) =
     (if c = 10 \<or> cs = [] then line # rest_lines [] cs else rest_lines (line @ [c]) cs)"
  by (cases cs) (auto simp: rest_lines_def)

lemma length_rest_lines: "length (rest_lines line cs) \<le> length cs"
proof (induction cs arbitrary: line)
  case (Cons c cs)
  have "length (rest_lines [] cs) \<le> length cs" "length (rest_lines (line @ [c]) cs) \<le> length cs"
    by (rule Cons.IH)+
  then show ?case by (auto simp: rest_lines_Cons)
qed (simp add: rest_lines_def)

lemma parse_line_length: "parse_line l = Some i \<Longrightarrow> length (instr_bytes i) = 6"
  by (auto simp: parse_line_def Let_def push_instruction_def plain_instruction_def instr_bytes_def
      split: if_splits)

lemma length_code_bytes: "assemble ls = Some is \<Longrightarrow> length is = length ls \<and> length (code_bytes is) = 6 * length ls"
proof (induction ls arbitrary: "is")
  case (Cons l ls)
  then obtain i is' where "parse_line (line_text l) = Some i" "assemble ls = Some is'" "is = i # is'"
    by (auto split: option.splits)
  with Cons.IH [of is'] parse_line_length [of "line_text l" i] show ?case
    by (simp add: code_bytes_def)
qed (simp add: code_bytes_def)

lemma tokenize_buffer:
  "\<exists>instr. tokenize_line (take 255 line @ replicate (256 - length (take 255 line)) 0) =
      Inr (parse_line (line_text line) \<noteq> None, instr) \<and> length (instr_bytes instr) = 6 \<and>
      (\<forall>i. parse_line (line_text line) = Some i \<longrightarrow> instr = i)"
proof -
  let ?t = "take 255 line"
  have "length ?t < 256" by simp
  then have "replicate (256 - length ?t) (0 :: u8) = 0 # replicate (255 - length ?t) 0"
    by (simp add: Suc_diff_Suc flip: replicate_Suc)
  note tail = this
  have "\<exists>r. ?t @ replicate (256 - length ?t) 0 = line_text line @ 0 # r"
  proof (cases "0 \<in> set ?t")
    case True
    obtain r where r: "?t = cname ?t @ 0 # r" using cname_split [OF True] .
    have "?t @ replicate (256 - length ?t) 0 = cname ?t @ 0 # (r @ replicate (256 - length ?t) 0)"
      by (subst (1) r) simp
    then show ?thesis unfolding line_text_def by blast
  next
    case False
    then have "cname ?t = ?t" unfolding cname_def takeWhile_eq_all_conv by metis
    then show ?thesis unfolding tail line_text_def by metis
  qed
  then obtain r where b: "?t @ replicate (256 - length ?t) 0 = line_text line @ 0 # r" by blast
  have "0 \<notin> set (line_text line)" by (simp add: line_text_def cname_nonzero)
  from tokenize_line_eq [OF this, of r] show ?thesis
    unfolding b using parse_line_length [of "line_text line"]
    by (auto simp: empty_instruction_def instr_bytes_def split: option.splits)
qed

text \<open>The line buffer as a cut of the source, and the slots of the instruction array.\<close>

lemma line_buffer_eq:
  assumes cs: "bytes_at m source len = cs" and le: "start \<le> cur" "cur \<le> len"
  defines "l \<equiv> take (cur - start) (drop start cs)"
  shows "line_buffer m source start cur = take 255 l @ replicate (256 - length (take 255 l)) 0"
proof -
  have "length cs = len" using cs by auto
  then have len: "length l = cur - start" using le by (simp add: l_def)
  have "bytes_at m (source + of_nat start) (cur - start) = l"
    unfolding l_def cs [symmetric] by (rule nth_equalityI) (use le in \<open>auto simp: add.assoc\<close>)
  then have "bytes_at m (source + of_nat start) (min 255 (cur - start)) = take 255 l"
    by (simp only: take_bytes_at [symmetric])
  moreover have "(if cur - start > 255 then 255 else cur - start) = min 255 (cur - start)" by auto
  moreover have "length (take 255 l) = min 255 (cur - start)"
    using len length_take [of 255 l] by (simp only: min.commute)
  ultimately show ?thesis unfolding line_buffer_def Let_def by (simp only:)
qed

lemma outside_slot:
  assumes "\<not> in_run x ins n" and "6 * count + 6 \<le> n" and "n < 2 ^ 32"
  shows "\<not> in_run x (ins + 6 * of_nat count) 6"
proof
  assume "in_run x (ins + 6 * of_nat count) 6"
  then obtain j where j: "j < 6" "x = ins + 6 * of_nat count + of_nat j"
    unfolding in_run_def
    by (metis add_diff_cancel_left' diff_add_cancel of_nat_unat ucast_id add.commute)
  have "unat (6 * of_nat count + of_nat j :: u32) = 6 * count + j"
    using unat_of_nat32 [of "6 * count + j"] j(1) assms(2,3) by simp
  then have "unat (x - ins) = 6 * count + j" using j(2) by (simp add: add.assoc)
  then show False using assms(1,2) j(1) by (simp add: in_run_def)
qed

text \<open>
  The loop from a point of the source on: it stores the instructions of the remaining lines
  one behind the other, or stops at the first line it refuses having stored only inside the
  instruction array.
\<close>

lemma compile_loop_within_line:
  fixes ins source :: u32
  assumes src: "bytes_at m source len = cs" and pos: "start \<le> cur" "cur < len"
    and mid: "\<not> (cs ! cur = 10 \<or> cur = len - 1)"
  shows "compile_loop source len ins room start cur count m = compile_loop source len ins room start (Suc cur) count m"
    and "rest_lines (take (cur - start) (drop start cs)) (drop cur cs)
      = rest_lines (take (Suc cur - start) (drop start cs)) (drop (Suc cur) cs)"
proof -
  have cs: "length cs = len" using src by auto
  have at_cur: "m (source + of_nat cur) = cs ! cur" using src pos by (auto simp flip: nth_bytes_at)
  have drop: "drop cur cs = cs ! cur # drop (Suc cur) cs" using pos cs by (simp add: Cons_nth_drop_Suc)
  have line: "take (Suc cur - start) (drop start cs) = take (cur - start) (drop start cs) @ [cs ! cur]"
    using pos cs by (simp add: Suc_diff_le take_Suc_conv_app_nth)
  show "compile_loop source len ins room start cur count m = compile_loop source len ins room start (Suc cur) count m"
    using pos mid at_cur by (subst compile_loop.simps) simp
  have "drop (Suc cur) cs \<noteq> []" using pos mid cs by auto
  then show "rest_lines (take (cur - start) (drop start cs)) (drop cur cs)
      = rest_lines (take (Suc cur - start) (drop start cs)) (drop (Suc cur) cs)"
    using mid by (simp add: drop rest_lines_Cons line)
qed

lemma compile_loop_end_of_line:
  fixes ins source :: u32
  assumes src: "bytes_at m source len = cs" and pos: "start \<le> cur" "cur < len"
    and ends: "cs ! cur = 10 \<or> cur = len - 1"
  defines "line \<equiv> take (cur - start) (drop start cs)"
  obtains instr where "length (instr_bytes instr) = 6"
    "\<forall>i. parse_line (line_text line) = Some i \<longrightarrow> instr = i"
    "compile_loop source len ins room start cur count m =
      (if room < 6 * Suc count then Inl OutOfBounds
       else let m1 = write_bytes m (ins + 6 * of_nat count) (instr_bytes instr) in
       if parse_line (line_text line) = None then Inr (False, count, m1)
       else compile_loop source len ins room (Suc cur) (Suc cur) (Suc count) m1)"
    "rest_lines line (drop cur cs) = line # rest_lines [] (drop (Suc cur) cs)"
proof -
  have cs: "length cs = len" using src by auto
  have at_cur: "m (source + of_nat cur) = cs ! cur" using src pos by (auto simp flip: nth_bytes_at)
  have drop: "drop cur cs = cs ! cur # drop (Suc cur) cs" using pos cs by (simp add: Cons_nth_drop_Suc)
  note lb = line_buffer_eq [OF src pos(1) less_imp_le [OF pos(2)], folded line_def]
  obtain instr where tok: "tokenize_line (line_buffer m source start cur) =
      Inr (parse_line (line_text line) \<noteq> None, instr)" "length (instr_bytes instr) = 6"
    "\<forall>i. parse_line (line_text line) = Some i \<longrightarrow> instr = i"
    using tokenize_buffer [of line] unfolding lb by blast
  have "cur = len - 1 \<longleftrightarrow> drop (Suc cur) cs = []" using pos cs by auto
  then have "rest_lines line (drop cur cs) = line # rest_lines [] (drop (Suc cur) cs)"
    using ends by (simp add: drop rest_lines_Cons)
  moreover have "compile_loop source len ins room start cur count m =
      (if room < 6 * Suc count then Inl OutOfBounds
       else let m1 = write_bytes m (ins + 6 * of_nat count) (instr_bytes instr) in
       if parse_line (line_text line) = None then Inr (False, count, m1)
       else compile_loop source len ins room (Suc cur) (Suc cur) (Suc count) m1)"
    using pos ends at_cur tok(1)
    by (subst compile_loop.simps) (simp add: sizeof_Instruction_def Let_def)
  ultimately show ?thesis using that tok(2,3) by blast
qed

text \<open>
  What the loop has done when it stops: it accepted the remaining lines and
  wrote their code after the instructions already there, or it refused one of
  them, having written some bytes but never past the room of the array.
\<close>

definition lines_outcome :: "u32 \<Rightarrow> nat \<Rightarrow> nat \<Rightarrow> mem \<Rightarrow> u8 list list
    \<Rightarrow> fault + bool \<times> nat \<times> mem \<Rightarrow> bool" where
  "lines_outcome ins len count m lns r \<longleftrightarrow>
    (\<exists>bs k. length bs + 6 * count \<le> 6 * len \<and>
      r = (case assemble lns of
             None \<Rightarrow> Inr (False, k, write_bytes m (ins + 6 * of_nat count) bs)
           | Some is \<Rightarrow> Inr (True, count + length is,
               write_bytes m (ins + 6 * of_nat count) (code_bytes is))))"

lemma lines_outcome_Cons:
  fixes ins :: u32
  assumes later: "lines_outcome ins len (Suc count)
      (write_bytes m (ins + 6 * of_nat count) (instr_bytes i)) lns r"
    and i: "parse_line (line_text ln) = Some i" "length (instr_bytes i) = 6"
    and room: "6 * Suc (count + length lns) \<le> 6 * len" "6 * len < 2 ^ 32"
  shows "lines_outcome ins len count m (ln # lns) r"
proof -
  let ?m1 = "write_bytes m (ins + 6 * of_nat count) (instr_bytes i)"
  obtain bs k where later': "length bs + 6 * Suc count \<le> 6 * len"
    "r = (case assemble lns of
             None \<Rightarrow> Inr (False, k, write_bytes ?m1 (ins + 6 * of_nat (Suc count)) bs)
           | Some is \<Rightarrow> Inr (True, Suc count + length is,
               write_bytes ?m1 (ins + 6 * of_nat (Suc count)) (code_bytes is)))"
    using later unfolding lines_outcome_def by blast
  have join: "write_bytes ?m1 (ins + 6 * of_nat (Suc count)) ys
      = write_bytes m (ins + 6 * of_nat count) (instr_bytes i @ ys)" if "length ys + 6 \<le> 2 ^ 32" for ys
    using write_bytes_append [of "instr_bytes i" ys m "ins + 6 * of_nat count"] that i(2)
    by (simp add: algebra_simps)
  show ?thesis
  proof (cases "assemble lns")
    case None
    then show ?thesis
      using later' join [of bs] i room unfolding lines_outcome_def
      by (intro exI [of _ "instr_bytes i @ bs"] exI [of _ k]) simp
  next
    case asm: (Some "is")
    have "length (code_bytes is) + 6 \<le> 2 ^ 32" using length_code_bytes [OF asm] room by simp
    then show ?thesis
      using later'(2) asm join [of "code_bytes is"] i room unfolding lines_outcome_def
      by (intro exI [of _ "[]"] exI [of _ 0]) (simp add: code_bytes_def)
  qed
qed

lemma compile_loop_lines:
  fixes ins source :: u32
  assumes src: "bytes_at m source len = cs" and fits: "6 * len < 2 ^ 32" "6 * len \<le> room"
    and apart: "\<forall>i < len. \<not> in_run (source + of_nat i) ins (6 * len)"
    and pos: "count \<le> start" "start \<le> cur" "cur \<le> len"
  shows "lines_outcome ins len count m (rest_lines (take (cur - start) (drop start cs)) (drop cur cs))
    (compile_loop source len ins room start cur count m)"
  using src apart pos
proof (induction "len - cur" arbitrary: start cur count m)
  case 0
  then have "drop cur cs = []" by auto
  then show ?case
    using 0 unfolding lines_outcome_def
    by (intro exI [of _ "[]"] exI [of _ 0], subst compile_loop.simps)
      (simp add: rest_lines_def code_bytes_def)
next
  case (Suc d)
  let ?line = "take (cur - start) (drop start cs)"
  have cur: "cur < len" "d = len - Suc cur" using Suc.hyps(2) by auto
  show ?case
  proof (cases "cs ! cur = 10 \<or> cur = len - 1")
    case True
    obtain instr where instr: "length (instr_bytes instr) = 6"
        "\<forall>i. parse_line (line_text ?line) = Some i \<longrightarrow> instr = i"
      and step: "compile_loop source len ins room start cur count m =
        (if room < 6 * Suc count then Inl OutOfBounds
         else let m1 = write_bytes m (ins + 6 * of_nat count) (instr_bytes instr) in
         if parse_line (line_text ?line) = None then Inr (False, count, m1)
         else compile_loop source len ins room (Suc cur) (Suc cur) (Suc count) m1)"
      and rest: "rest_lines ?line (drop cur cs) = ?line # rest_lines [] (drop (Suc cur) cs)"
      using compile_loop_end_of_line [OF Suc.prems(1,4) cur(1) True] by blast
    have c6: "6 * count + 6 \<le> 6 * len" using Suc.prems(3,4) cur by simp
    then have roomy: "\<not> room < 6 * Suc count" using fits(2) by simp
    show ?thesis
    proof (cases "parse_line (line_text ?line)")
      case None
      then show ?thesis
        using step rest roomy c6 instr(1) unfolding lines_outcome_def
        by (intro exI [of _ "instr_bytes instr"] exI [of _ count]) simp
    next
      case (Some i)
      let ?m1 = "write_bytes m (ins + 6 * of_nat count) (instr_bytes i)"
      have i: "instr = i" using instr(2) Some by simp
      have "?m1 x = m x" if "\<not> in_run x ins (6 * len)" for x
        using outside_slot [OF that c6 fits(1)] instr(1) i by (intro write_bytes_outside) simp
      then have "bytes_at ?m1 source len = cs"
        using Suc.prems(1,2) bytes_at_cong [of len ?m1 source m] by simp
      then have "lines_outcome ins len (Suc count) ?m1 (rest_lines [] (drop (Suc cur) cs))
          (compile_loop source len ins room (Suc cur) (Suc cur) (Suc count) ?m1)"
        using Suc.hyps(1) [OF cur(2) _ Suc.prems(2), of ?m1 "Suc count" "Suc cur"] cur(1) Suc.prems(3,4)
        by simp
      moreover have "6 * Suc (count + length (rest_lines [] (drop (Suc cur) cs))) \<le> 6 * len"
        using length_rest_lines [of "[]" "drop (Suc cur) cs"] Suc.prems(1,3,4) cur by auto
      ultimately have "lines_outcome ins len count m (?line # rest_lines [] (drop (Suc cur) cs))
          (compile_loop source len ins room (Suc cur) (Suc cur) (Suc count) ?m1)"
        using lines_outcome_Cons Some instr(1) i fits(1) by blast
      then show ?thesis using step rest roomy Some i by (simp add: Let_def)
    qed
  next
    case False
    show ?thesis
      using compile_loop_within_line [OF Suc.prems(1,4) cur(1) False]
        Suc.hyps(1) [OF cur(2) Suc.prems(1,2,3)] cur Suc.prems(4) by simp
  qed
qed

subsection \<open>The whole compilation\<close>

lemma source_lines_rest: "rest_lines [] cs = source_lines cs"
  by (simp add: rest_lines_def source_lines_def)

lemma source_lines_not_Nil: "cs \<noteq> [] \<Longrightarrow> source_lines cs \<noteq> []"
proof -
  have "split_lines line xs \<noteq> []" for line xs
    by (induction line xs rule: split_lines.induct) auto
  then show "cs \<noteq> [] \<Longrightarrow> source_lines cs \<noteq> []" by (simp add: source_lines_def)
qed

text \<open>
  Compilation allocates the instruction array, runs the loop, and either gives the array back
  (a line was refused) or copies the instructions to a block of their own.
\<close>

definition compiled ::
  "u8 list \<Rightarrow> (u32 \<times> u32) set \<Rightarrow> 'a heap_scheme \<Rightarrow> CompileResult \<Rightarrow> 'a heap_scheme \<Rightarrow> bool" where
  "compiled cs L s r s' \<longleftrightarrow>
     (case assemble (source_lines cs) of
        None \<Rightarrow> r = compile_failure 18 ''Invalid instruction'' \<and> heap_keeps s s' L L
      | Some is \<Rightarrow> success r \<and> unat (binary_size r) = length (code_bytes is) \<and>
          bytes_at (ram s') (binary r) (length (code_bytes is)) = code_bytes is \<and>
          (\<exists>j. binary_size r \<le> j \<and> (binary r, j) \<notin> L \<and>
            heap_keeps s s' L (insert (binary r, j) L)))"

text \<open>Allocating a block and copying the contents of a live one into it.\<close>

lemma copy_block:
  assumes live: "heap_live s L" and q: "(q, k) \<in> L" and n: "n \<noteq> 0" "unat n \<le> unat k"
    and slack: "heap_slack (12 + unat n + i) s" and c: "bytes_at (ram s) q (unat n) = c"
  obtains p j s' where "malloc n s = Some (p, s')" "p \<noteq> 0" "n \<le> j" "(p, j) \<notin> L"
    "fst (memcpy p q n (ram s')) = write_bytes (ram s') p c"
    "heap_keeps s (s'\<lparr>ram := write_bytes (ram s') p c\<rparr>) L (insert (p, j) L)"
    "bytes_at (write_bytes (ram s') p c) p (unat n) = c" "heap_slack i (s'\<lparr>ram := write_bytes (ram s') p c\<rparr>)"
proof -
  obtain p j s' where m: "malloc n s = Some (p, s')" "p \<noteq> 0" "n \<le> j" "(p, j) \<notin> L"
    "heap_keeps s s' L (insert (p, j) L)" "heap_slack i s'"
    by (rule malloc_keeps [OF live n(1) slack])
  have live': "heap_live s' (insert (p, j) L)" using m(5) by (simp add: heap_keeps_def)
  have len: "length c = unat n" using c by auto
  have nj: "unat n \<le> unat j" "0 < unat n" using m(3) n(1) by (simp_all add: word_le_nat_alt unat_gt_0)
  have "bytes_at (ram s') q (unat n) = c" using keeps_bytes [OF m(5) q n(2)] c by simp
  moreover have "\<not> in_run (p + of_nat 0) q (unat n)"
    using fresh_disjoint [OF live', of q k p j 1 "unat n" 0] q m(4) nj n(2) by auto
  ultimately have cpy: "fst (memcpy p q n (ram s')) = write_bytes (ram s') p c"
    by (simp add: memcpy_def memcpy_loop_eq in_run_def)
  have cj: "length c \<le> unat j" using len nj by simp
  show ?thesis
  proof (rule that [OF m(1-4) cpy])
    show "heap_keeps s (s'\<lparr>ram := write_bytes (ram s') p c\<rparr>) L (insert (p, j) L)"
      by (rule keeps_chain [OF m(5) keeps_write [OF live' m(4) cj] subset_refl])
    show "bytes_at (write_bytes (ram s') p c) p (unat n) = c"
      using fresh_write(4) [OF live' m(4) cj] len by simp
    show "heap_slack i (s'\<lparr>ram := write_bytes (ram s') p c\<rparr>)" by (rule fresh_write(2) [OF live' m(4) cj m(6)])
  qed
qed

text \<open>The first half: the instruction array and the loop over the source.\<close>

lemma compile_first_half:
  assumes live: "heap_live s L" and src: "(source, k) \<in> L" and len: "len \<noteq> 0" "len \<le> k"
    and slack: "heap_slack (24 + 12 * unat len + x) s" and fits: "6 * unat len < 2 ^ 32"
    and cs: "bytes_at (ram s) source (unat len) = cs"
  obtains ins j s1 bs kk where "malloc (sizeof_Instruction * len) s = Some (ins, s1)" "ins \<noteq> 0"
    "6 * unat len \<le> unat j" "(ins, j) \<notin> L" "heap_keeps s s1 L (insert (ins, j) L)"
    "heap_slack (12 + 6 * unat len + x) s1" "length bs \<le> 6 * unat len"
    "compile_loop source (unat len) ins (unat (sizeof_Instruction * len)) 0 0 0 (ram s1) =
      (case assemble (source_lines cs) of
         None \<Rightarrow> Inr (False, kk, write_bytes (ram s1) ins bs)
       | Some is \<Rightarrow> Inr (True, length is, write_bytes (ram s1) ins (code_bytes is)))"
proof -
  let ?n = "sizeof_Instruction * len"
  have n: "unat ?n = 6 * unat len" using fits by (simp add: sizeof_Instruction_def unat_word_ariths)
  have n0: "?n \<noteq> 0" using n len(1) by (metis mult_is_0 unat_eq_zero zero_neq_numeral)
  have lk: "unat len \<le> unat k" using len(2) by (simp add: word_le_nat_alt)
  obtain ins j s1 where m1: "malloc ?n s = Some (ins, s1)" "ins \<noteq> 0" "?n \<le> j" "(ins, j) \<notin> L"
    "heap_keeps s s1 L (insert (ins, j) L)" "heap_slack (12 + 6 * unat len + x) s1"
    by (rule malloc_keeps [OF live n0, of "12 + 6 * unat len + x"]) (use slack n in \<open>simp_all add: ac_simps\<close>)
  have live1: "heap_live s1 (insert (ins, j) L)" using m1(5) by (simp add: heap_keeps_def)
  have j: "6 * unat len \<le> unat j" using m1(3) n by (simp add: word_le_nat_alt)
  have src1: "bytes_at (ram s1) source (unat len) = cs"
    using keeps_bytes [OF m1(5) src lk] cs by simp
  have "\<forall>i < unat len. \<not> in_run (source + of_nat i) ins (6 * unat len)"
    using fresh_disjoint [OF live1 insertI1 _ _ lk j] src m1(4) by auto
  from compile_loop_lines [OF src1 fits _ this, of "unat ?n" 0 0 0, unfolded lines_outcome_def] obtain bs kk where "length bs \<le> 6 * unat len"
    "compile_loop source (unat len) ins (unat (sizeof_Instruction * len)) 0 0 0 (ram s1) =
      (case assemble (source_lines cs) of
         None \<Rightarrow> Inr (False, kk, write_bytes (ram s1) ins bs)
       | Some is \<Rightarrow> Inr (True, length is, write_bytes (ram s1) ins (code_bytes is)))"
    using n by (auto simp: source_lines_rest cong: option.case_cong)
  with m1 j show ?thesis using that by blast
qed

text \<open>Writing the instructions and copying them to a block of their own.\<close>

lemma compile_second_half:
  assumes asm: "assemble (source_lines cs) = Some is" and cs: "length cs = unat len" "len \<noteq> 0"
    and fits: "6 * unat len < 2 ^ 32" and live: "heap_live s1 (insert (ins, j) L)" and new: "(ins, j) \<notin> L"
    and j: "6 * unat len \<le> unat j" and slack: "heap_slack (12 + 6 * unat len + x) s1"
  defines "c \<equiv> code_bytes is" and "n \<equiv> of_nat (length is) * sizeof_Instruction"
  defines "s2 \<equiv> s1\<lparr>ram := write_bytes (ram s1) ins c\<rparr>"
  obtains b i s3 s4 where "unat n = length c" "malloc n s2 = Some (b, s3)" "b \<noteq> 0" "n \<le> i" "(b, i) \<notin> L"
    "free ins (s3\<lparr>ram := fst (memcpy b ins n (ram s3))\<rparr>) = Some s4"
    "heap_keeps s1 s4 L (insert (b, i) L)" "bytes_at (ram s4) b (length c) = c" "heap_slack x s4"
proof -
  let ?L1 = "insert (ins, j) L"
  have "source_lines cs \<noteq> []" using cs by (intro source_lines_not_Nil) (auto simp: unat_eq_zero)
  moreover have lc: "length is = length (source_lines cs)" "length c = 6 * length is"
    using length_code_bytes [OF asm] by (simp_all add: c_def)
  moreover have "length (source_lines cs) \<le> unat len"
    using length_rest_lines [of "[]" cs] cs by (auto simp: source_lines_rest)
  ultimately have c: "0 < length is" "length c \<le> 6 * unat len" by auto
  have n: "unat n = length c"
    using unat_of_nat32 [of "6 * length is"] c(2) lc(2) fits
    by (simp add: n_def sizeof_Instruction_def mult.commute)
  then have n0: "n \<noteq> 0" using c(1) lc(2) by (metis mult_is_0 nat_neq_iff unat_0 zero_neq_numeral)
  have cj: "length c \<le> unat j" using c(2) j by simp
  note fw = fresh_write [OF live new cj, folded s2_def]
  have k2: "heap_keeps s1 s2 L ?L1" unfolding s2_def by (rule keeps_write [OF live new cj])
  have sl: "heap_slack (12 + unat n + x) s2" by (rule heap_slack_mono [OF fw(2) [OF slack]]) (use c(2) n in simp)
  have at: "bytes_at (ram s2) ins (unat n) = c" using fw(4) n by simp
  have nj: "unat n \<le> unat j" using cj n by simp
  from copy_block [OF fw(1) insertI1 n0 nj sl at] obtain b i s3 where
    b: "malloc n s2 = Some (b, s3)" "b \<noteq> 0" "n \<le> i" "(b, i) \<notin> ?L1"
    "fst (memcpy b ins n (ram s3)) = write_bytes (ram s3) b c"
    "heap_keeps s2 (s3\<lparr>ram := write_bytes (ram s3) b c\<rparr>) ?L1 (insert (b, i) ?L1)"
    "bytes_at (write_bytes (ram s3) b c) b (unat n) = c" "heap_slack x (s3\<lparr>ram := write_bytes (ram s3) b c\<rparr>)" .
  let ?t = "s3\<lparr>ram := write_bytes (ram s3) b c\<rparr>"
  have live4: "heap_live ?t (insert (b, i) ?L1)" using b(6) by (simp add: heap_keeps_def)
  have "(ins, j) \<in> insert (b, i) ?L1" by simp
  note ins = this
  from free_keeps [OF live4 ins] obtain s4 where f: "free ins ?t = Some s4"
    "heap_keeps ?t s4 (insert (b, i) ?L1) (insert (b, i) ?L1 - {(ins, j)})" .
  have "insert (b, i) ?L1 - {(ins, j)} = insert (b, i) L" using new b(4) by auto
  then have "heap_keeps s1 s4 L (insert (b, i) L)"
    using keeps_chain [OF keeps_chain [OF k2 b(6)] f(2)] by auto
  moreover have "unat n \<le> unat i" using b(3) by (simp add: word_le_nat_alt)
  with keeps_bytes [OF f(2) insertI1 this] have "bytes_at (ram s4) b (length c) = c" using b(7) n by simp
  moreover have "heap_slack x s4" by (rule heap_slack_free [OF live4 ins b(8) f(1)])
  ultimately show ?thesis using that n b(1-4) f(1) b(5) by auto
qed

lemma compile_code_lines:
  assumes live: "heap_live s L" and src: "(source, k) \<in> L" and len: "len \<noteq> 0" "len \<le> k"
    and slack: "heap_slack (24 + 12 * unat len + x) s" and fits: "6 * unat len < 2 ^ 32"
    and cs: "bytes_at (ram s) source (unat len) = cs"
  shows "\<exists>r s'. compile_code source len s = Some (Inr (r, s')) \<and> compiled cs L s r s' \<and> heap_slack x s'"
proof -
  obtain ins j s1 bs kk where h: "malloc (sizeof_Instruction * len) s = Some (ins, s1)" "ins \<noteq> 0"
    "6 * unat len \<le> unat j" "(ins, j) \<notin> L" "heap_keeps s s1 L (insert (ins, j) L)"
    "heap_slack (12 + 6 * unat len + x) s1" "length bs \<le> 6 * unat len"
    "compile_loop source (unat len) ins (unat (sizeof_Instruction * len)) 0 0 0 (ram s1) =
      (case assemble (source_lines cs) of
         None \<Rightarrow> Inr (False, kk, write_bytes (ram s1) ins bs)
       | Some is \<Rightarrow> Inr (True, length is, write_bytes (ram s1) ins (code_bytes is)))"
    by (rule compile_first_half [OF assms])
  let ?L1 = "insert (ins, j) L"
  have live1: "heap_live s1 ?L1" using h(5) by (simp add: heap_keeps_def)
  show ?thesis
  proof (cases "assemble (source_lines cs)")
    case None
    let ?s2 = "s1\<lparr>ram := write_bytes (ram s1) ins bs\<rparr>"
    have k2: "heap_keeps s1 ?s2 L ?L1" using h(3,7) by (intro keeps_write [OF live1 h(4)]) simp
    then have live2: "heap_live ?s2 ?L1" by (simp add: heap_keeps_def)
    from free_keeps [OF live2 insertI1] obtain s3 where
      f: "free ins ?s2 = Some s3" "heap_keeps ?s2 s3 ?L1 (?L1 - {(ins, j)})" .
    have "?L1 - {(ins, j)} = L" using h(4) by simp
    with f(2) keeps_chain [OF keeps_chain [OF h(5) k2 subset_refl] f(2)] have "heap_keeps s s3 L L" by auto
    moreover have "heap_slack (12 + 6 * unat len + x) ?s2"
      by (rule fresh_write(2) [OF live1 h(4) _ h(6)]) (use h(3,7) in simp)
    then have "heap_slack x ?s2" by (rule heap_slack_mono) simp
    then have "heap_slack x s3" by (rule heap_slack_free [OF live2 insertI1 _ f(1)])
    ultimately show ?thesis
      using None h(1,2,8) f(1)
      by (simp add: compile_code_def memory_allocate_def memory_free_def compiled_def)
  next
    case (Some "is")
    let ?n = "of_nat (length is) * sizeof_Instruction"
    have "length cs = unat len" using cs by auto
    from compile_second_half [OF Some this len(1) fits live1 h(4,3,6)] obtain b i s3 s4 where
      b: "unat ?n = length (code_bytes is)"
      "malloc ?n (s1\<lparr>ram := write_bytes (ram s1) ins (code_bytes is)\<rparr>) = Some (b, s3)" "b \<noteq> 0" "?n \<le> i"
      "(b, i) \<notin> L" "free ins (s3\<lparr>ram := fst (memcpy b ins ?n (ram s3))\<rparr>) = Some s4"
      "heap_keeps s1 s4 L (insert (b, i) L)" "bytes_at (ram s4) b (length (code_bytes is)) = code_bytes is" "heap_slack x s4" .
    have "heap_keeps s s4 L (insert (b, i) L)" by (rule keeps_chain [OF h(5) b(7) subset_refl])
    then show ?thesis
      using Some h(1,2,8) b
      by (auto simp: compile_code_def memory_allocate_def memory_free_def compiled_def Let_def)
  qed
qed

text \<open>Compiling changes the memory only.\<close>

lemma compile_code_ram:
  assumes start: "heap_start s \<noteq> 0" and run: "compile_code source len s = Some (Inr (r, s'))"
  shows "\<exists>m. s' = s\<lparr>ram := m\<rparr>"
proof -
  have malloc: "\<exists>m. t = s\<lparr>ram := m\<rparr>" if "malloc n (s\<lparr>ram := x\<rparr>) = Some (p, t)" for n x p t
    using malloc_changes_ram [OF _ that] start by auto
  have free: "\<exists>m. t = s\<lparr>ram := m\<rparr>" if "free p (s\<lparr>ram := x\<rparr>) = Some t" for p x t
    using free_ram [OF that] that by (cases "p = 0") (auto simp: free_def)
  from run obtain ins s1 where i: "malloc (sizeof_Instruction * len) s = Some (ins, s1)"
    by (auto simp: compile_code_def memory_allocate_def bind_eq_Some_conv)
  obtain m1 where s1: "s1 = s\<lparr>ram := m1\<rparr>" using malloc_changes_ram [OF start i] by blast
  note run = run [unfolded compile_code_def memory_allocate_def memory_free_def i s1]
  show ?thesis
  proof (cases "ins = 0")
    case True
    then show ?thesis using run by auto
  next
    case False
    obtain ok k m where loop: "compile_loop source (unat len) ins (unat (sizeof_Instruction * len)) 0 0 0 m1 = Inr (ok, k, m)"
      using run False by (cases "compile_loop source (unat len) ins (unat (sizeof_Instruction * len)) 0 0 0 m1") auto
    show ?thesis
    proof (cases ok)
      case False
      then show ?thesis using run \<open>ins \<noteq> 0\<close> loop free by (auto simp: bind_eq_Some_conv)
    next
      case True
      then obtain b t where b: "malloc (of_nat k * sizeof_Instruction) (s\<lparr>ram := m\<rparr>) = Some (b, t)"
        using run False loop by (auto simp: bind_eq_Some_conv Let_def)
      obtain m2 where t: "t = s\<lparr>ram := m2\<rparr>" using malloc [OF b] by blast
      show ?thesis
        using run False loop True b free by (cases "b = 0") (auto simp: bind_eq_Some_conv Let_def t)
    qed
  qed
qed

text \<open>No line of any source makes the tokenizer leave the line buffer.\<close>

lemma line_buffer_tokenized: "\<exists>x. tokenize_line (line_buffer m source st cur) = Inr x"
proof -
  let ?l = "bytes_at m (source + of_nat st) (cur - st)"
  have "line_buffer m source st cur = take 255 ?l @ replicate (256 - length (take 255 ?l)) 0"
    by (auto simp: line_buffer_def Let_def take_bytes_at min_def)
  then show ?thesis using tokenize_buffer [of ?l] by auto
qed

lemma compile_loop_no_fault:
  "count \<le> cur \<Longrightarrow> 6 * len \<le> room \<Longrightarrow> \<exists>x. compile_loop source len ins room st cur count m = Inr x"
proof (induction source len ins room st cur count m rule: compile_loop.induct)
  case (1 source len ins room st cur count m)
  obtain ok i where tok: "tokenize_line (line_buffer m source st cur) = Inr (ok, i)"
    using line_buffer_tokenized by force
  consider "len \<le> cur" | "cur < len" "m (source + of_nat cur) = 10 \<or> cur = len - 1"
    | "cur < len" "\<not> (m (source + of_nat cur) = 10 \<or> cur = len - 1)" by linarith
  then show ?case
  proof cases
    case 2
    then have "\<not> room < unat sizeof_Instruction * (count + 1)"
      using "1.prems" by (simp add: sizeof_Instruction_def)
    then show ?thesis
      using tok 1(1) [OF 2] 2 "1.prems" by (subst compile_loop.simps) (cases ok, auto simp: Let_def)
  next
    case 3
    then show ?thesis using 1(2) [OF 3] "1.prems" by (subst compile_loop.simps) simp
  qed (subst compile_loop.simps, auto)
qed

text \<open>
  When the loop does leave the instruction array: it stores the instructions of the lines that fit,
  and the first line that no longer fits is the fault, unless one of those before it is refused.
\<close>

lemma compile_loop_fault:
  fixes ins source :: u32
  assumes src: "bytes_at m source len = cs" and apart: "\<forall>i < len. \<not> in_run (source + of_nat i) ins room"
    and pos: "6 * count \<le> room" "start \<le> cur" "cur \<le> len" and room: "room < 2 ^ 32"
  defines "ls \<equiv> rest_lines (take (cur - start) (drop start cs)) (drop cur cs)"
  shows "compile_loop source len ins room start cur count m = Inl e \<longleftrightarrow>
    e = OutOfBounds \<and> room < 6 * (count + length ls) \<and> assemble (take (room div 6 - count) ls) \<noteq> None"
  using src pos unfolding ls_def
proof (induction "len - cur" arbitrary: start cur count m)
  case 0
  then have "drop cur cs = []" "\<not> cur < len" by auto
  then show ?case
    using 0 by (subst compile_loop.simps) (simp add: rest_lines_def)
next
  case (Suc d)
  let ?line = "take (cur - start) (drop start cs)"
  have cur: "cur < len" "d = len - Suc cur" using Suc.hyps(2) by auto
  show ?case
  proof (cases "cs ! cur = 10 \<or> cur = len - 1")
    case True
    let ?rest = "rest_lines [] (drop (Suc cur) cs)"
    obtain instr where instr: "length (instr_bytes instr) = 6"
        "\<forall>i. parse_line (line_text ?line) = Some i \<longrightarrow> instr = i"
      and step: "compile_loop source len ins room start cur count m =
        (if room < 6 * Suc count then Inl OutOfBounds
         else let m1 = write_bytes m (ins + 6 * of_nat count) (instr_bytes instr) in
         if parse_line (line_text ?line) = None then Inr (False, count, m1)
         else compile_loop source len ins room (Suc cur) (Suc cur) (Suc count) m1)"
      and rest: "rest_lines ?line (drop cur cs) = ?line # ?rest"
      using compile_loop_end_of_line [OF Suc.prems(1,3) cur(1) True] by blast
    show ?thesis
    proof (cases "room < 6 * Suc count")
      case True
      then have "room div 6 - count = 0" by simp
      then show ?thesis using True step rest by auto
    next
      case False
      then have fits: "6 * count + 6 \<le> room" "room div 6 - count = Suc (room div 6 - Suc count)" by auto
      let ?m1 = "write_bytes m (ins + 6 * of_nat count) (instr_bytes instr)"
      have "?m1 x = m x" if "\<not> in_run x ins room" for x
        using outside_slot [OF that fits(1) room] instr(1) by (intro write_bytes_outside) simp
      then have "bytes_at ?m1 source len = cs"
        using Suc.prems(1) apart bytes_at_cong [of len ?m1 source m] by simp
      then have "compile_loop source len ins room (Suc cur) (Suc cur) (Suc count) ?m1 = Inl e \<longleftrightarrow>
          e = OutOfBounds \<and> room < 6 * (Suc count + length ?rest) \<and>
          assemble (take (room div 6 - Suc count) ?rest) \<noteq> None"
        using Suc.hyps(1) [OF cur(2), of ?m1 "Suc count" "Suc cur"] cur(1) fits(1) by simp
      then show ?thesis
        using False step rest fits(2) by (cases "parse_line (line_text ?line)") (auto simp: Let_def)
    qed
  next
    case False
    show ?thesis
      using compile_loop_within_line [OF Suc.prems(1,3) cur(1) False]
        Suc.hyps(1) [OF cur(2) Suc.prems(1,2)] cur Suc.prems(3) by simp
  qed
qed

text \<open>The call faults exactly where its loop does.\<close>

lemma compile_code_fault_loop:
  "compile_code source len s = Some (Inl e) \<longleftrightarrow>
    (\<exists>ins s1. malloc (sizeof_Instruction * len) s = Some (ins, s1) \<and> ins \<noteq> 0 \<and>
      compile_loop source (unat len) ins (unat (sizeof_Instruction * len)) 0 0 0 (ram s1) = Inl e)"
proof (cases "malloc (sizeof_Instruction * len) s")
  case (Some x)
  obtain ins s1 where x: "x = (ins, s1)" by (cases x)
  let ?loop = "compile_loop source (unat len) ins (unat (sizeof_Instruction * len)) 0 0 0 (ram s1)"
  show ?thesis
  proof (cases ?loop)
    case (Inr r)
    obtain ok n m where "r = (ok, n, m)" by (cases r)
    then show ?thesis
      using Some x Inr
      by (auto simp: compile_code_def memory_allocate_def Let_def bind_eq_Some_conv split: if_splits)
  qed (use Some x in \<open>auto simp: compile_code_def memory_allocate_def\<close>)
qed (simp add: compile_code_def memory_allocate_def)

lemma execute_binary_copy:
  assumes live: "heap_live s L" and b: "(b, k) \<in> L" and sz: "sz \<noteq> 0" "sz \<le> k"
    and slack: "heap_slack (12 + unat sz) s"
  shows "\<exists>e j s'. (e, j) \<notin> L \<and> sz \<le> j \<and> heap_keeps s s' L (insert (e, j) L) \<and>
    bytes_at (ram s') e (unat sz) = bytes_at (ram s) b (unat sz) \<and>
    execute_binary call b sz s =
      do { s1 \<leftarrow> call e s'; s2 \<leftarrow> memory_free e s1; Some (True, s2) }"
proof -
  let ?c = "bytes_at (ram s) b (unat sz)"
  have "unat sz \<le> unat k" "heap_slack (12 + unat sz + 0) s" using sz(2) slack by (simp_all add: word_le_nat_alt)
  from copy_block [OF live b sz(1) this refl] obtain e j s' where
    m: "malloc sz s = Some (e, s')" "e \<noteq> 0" "sz \<le> j" "(e, j) \<notin> L"
    "fst (memcpy e b sz (ram s')) = write_bytes (ram s') e ?c"
    "heap_keeps s (s'\<lparr>ram := write_bytes (ram s') e ?c\<rparr>) L (insert (e, j) L)"
    "bytes_at (write_bytes (ram s') e ?c) e (unat sz) = ?c" .
  have "execute_binary call b sz s = do { s1 \<leftarrow> call e (s'\<lparr>ram := write_bytes (ram s') e ?c\<rparr>);
      s2 \<leftarrow> memory_free e s1; Some (True, s2) }"
    using m(1,2,5) heap.live_bounds [OF live b] sz(1) by (simp add: execute_binary_def memory_allocate_def)
  then show ?thesis
    using m(3,4,6,7) by (intro exI [of _ e] exI [of _ j] exI [of _ "s'\<lparr>ram := write_bytes (ram s') e ?c\<rparr>"]) simp
qed

subsection \<open>Properties\<close>

text \<open>
  C20. What \<^verbatim>\<open>tokenize_line\<close> makes of a terminated line. Leading blanks and tabs are
  skipped; what follows decides by its prefix alone: the end of the line, a comment sign or
  \<^verbatim>\<open>nop\<close> gives a no-op, \<^verbatim>\<open>push\<close> takes the decimal digits after it and further
  blanks (none count as zero) modulo 256, \<^verbatim>\<open>ret\<close> has no operand. Whatever comes behind the
  keyword or the digits is ignored, so that \<^verbatim>\<open>nopx\<close>, \<^verbatim>\<open>return\<close> and
  \<^verbatim>\<open>push 300 x\<close> are accepted. A line that starts with none of these is refused with a
  cleared instruction.
\<close>

theorem tokenize_line_parses:
  assumes "0 \<notin> set l"
  shows "tokenize_line (l @ 0 # r) = Inr (case parse_line l of
      None \<Rightarrow> (False, empty_instruction) | Some i \<Rightarrow> (True, i))"
  using assms by (rule tokenize_line_eq)

theorem tokenize_line_parses_witness:
  "tokenize_line (chars '' push 300 x'' @ 0 # [7]) = Inr (True, push_instruction 44) \<and>
   tokenize_line (chars ''return'' @ [0]) = Inr (True, plain_instruction 7) \<and>
   tokenize_line (chars ''add'' @ [0]) = Inr (False, empty_instruction)"
proof -
  have "0 \<notin> set (chars '' push 300 x'')" "0 \<notin> set (chars ''return'')" "0 \<notin> set (chars ''add'')" by simp_all
  from tokenize_line_parses [OF this(1), of "[7]"] tokenize_line_parses [OF this(2), of "[]"]
    tokenize_line_parses [OF this(3), of "[]"] show ?thesis
    by (simp add: parse_line_def Let_def blank_char_def digit_def operand_value_def push_instruction_def)
qed

text \<open>
  C9. \<^verbatim>\<open>compile_code\<close> implements the assembler: when every line of a non-empty source in
  a live block is accepted, and the heap has room behind its last block for the instruction array
  and the binary, it returns, succeeds, and the result is a new live block that holds
  the six-byte encodings of the instructions of the lines, in order; the instruction array
  is given back and every older block keeps its contents. The last character of the source
  is never part of a line, whatever it is.
\<close>

theorem compile_code_assembles:
  assumes "heap_live s L" and "(source, k) \<in> L" and "len \<noteq> 0" and "len \<le> k"
    and "heap_slack (24 + 12 * unat len) s" and "6 * unat len < 2 ^ 32"
    and "assemble (source_lines (bytes_at (ram s) source (unat len))) = Some is"
  shows "\<exists>r s' j. compile_code source len s = Some (Inr (r, s')) \<and> success r \<and>
    unat (binary_size r) = 6 * length is \<and>
    bytes_at (ram s') (binary r) (6 * length is) = code_bytes is \<and>
    binary_size r \<le> j \<and> (binary r, j) \<notin> L \<and> heap_keeps s s' L (insert (binary r, j) L)"
proof -
  from compile_code_lines [where x = 0, unfolded add_0_right, OF assms(1-6) refl] obtain r s' where
    "compile_code source len s = Some (Inr (r, s'))"
    "compiled (bytes_at (ram s) source (unat len)) L s r s'" by blast
  then show ?thesis using length_code_bytes [OF assms(7)] by (auto simp: compiled_def assms(7))
qed

text \<open>A source without a final line feed loses its last digit: this one pushes 1.\<close>

theorem compile_code_assembles_witness:
  "\<exists>(s :: heap) p r s'. bytes_at (ram s) p 7 = chars ''push 10'' \<and>
     compile_code p 7 s = Some (Inr (r, s')) \<and> success r \<and>
     bytes_at (ram s') (binary r) 6 = [1, 1, 0, 0, 0, 1]"
proof -
  let ?src = "chars ''push 10''"
  obtain s :: heap and p k where s: "heap_live s {(p, k)}" "1000 \<le> k" "heap_slack 100000 s"
    "bytes_at (ram s) p 7 = ?src"
    using heap_with_bytes [of ?src 7] by auto
  have asm: "assemble (source_lines ?src) = Some [push_instruction 1]"
    by (simp add: source_lines_def line_text_def cname_def parse_line_def Let_def blank_char_def
        digit_def operand_value_def)
  have "heap_slack (24 + 12 * unat (7 :: u32)) s"
    using s(3) unfolding heap_slack_def by fastforce
  moreover have "7 \<le> k" using s(2) by (rule order_trans [rotated]) simp
  ultimately have "\<exists>r s' j. compile_code p 7 s = Some (Inr (r, s')) \<and> success r \<and>
      bytes_at (ram s') (binary r) 6 = code_bytes [push_instruction 1]"
    using compile_code_assembles [OF s(1), of p k 7 "[push_instruction 1]"] s(4) asm by auto
  then show ?thesis
    using s(4) by (auto simp: code_bytes_def instr_bytes_def push_instruction_def)
qed

text \<open>
  C18. Error path of \<^verbatim>\<open>compile_code\<close>: when a line of a non-empty source in a live block is
  refused, and the heap has room for the instruction array and a binary, the call returns the
  failure with its (cut) message and no binary, gives the instruction array back and leaves
  the contents of every live block as they were.
\<close>

theorem compile_code_refuses:
  assumes "heap_live s L" and "(source, k) \<in> L" and "len \<noteq> 0" and "len \<le> k"
    and "heap_slack (24 + 12 * unat len) s" and "6 * unat len < 2 ^ 32"
    and "assemble (source_lines (bytes_at (ram s) source (unat len))) = None"
  shows "\<exists>r s'. compile_code source len s = Some (Inr (r, s')) \<and> \<not> success r \<and> binary r = 0 \<and>
    cname (error_message r) = chars ''Invalid instructio'' \<and> heap_keeps s s' L L"
proof -
  from compile_code_lines [where x = 0, unfolded add_0_right, OF assms(1-6) refl] obtain r s' where
    "compile_code source len s = Some (Inr (r, s'))"
    "compiled (bytes_at (ram s) source (unat len)) L s r s'" by blast
  moreover have "cname (error_message (compile_failure 18 ''Invalid instruction'')) = chars ''Invalid instructio''"
    by (simp add: compile_failure_def lit_def cname_def)
  ultimately show ?thesis by (auto simp: compiled_def assms(7) compile_failure_def)
qed

theorem compile_code_refuses_witness:
  "\<exists>(s :: heap) p r s'. bytes_at (ram s) p 9 = chars ''nop'' @ [10] @ chars ''add'' @ [10, 10] \<and>
     compile_code p 9 s = Some (Inr (r, s')) \<and> \<not> success r"
proof -
  let ?src = "chars ''nop'' @ [10] @ chars ''add'' @ [10, 10]"
  obtain s :: heap and p k where s: "heap_live s {(p, k)}" "1000 \<le> k" "heap_slack 100000 s"
    "bytes_at (ram s) p 9 = ?src"
    using heap_with_bytes [of ?src 9] by auto
  have asm: "assemble (source_lines ?src) = None"
    by (simp add: source_lines_def line_text_def cname_def parse_line_def Let_def blank_char_def)
  have "heap_slack (24 + 12 * unat (9 :: u32)) s"
    using s(3) unfolding heap_slack_def by fastforce
  moreover have "9 \<le> k" using s(2) by (rule order_trans [rotated]) simp
  ultimately have "\<exists>r s'. compile_code p 9 s = Some (Inr (r, s')) \<and> \<not> success r"
    using compile_code_refuses [OF s(1), of p k 9] s(4) asm by auto
  with s(4) show ?thesis by blast
qed

text \<open>
  C19. Array accesses of the compiler. The line buffer, the keyword literals and the instruction
  array are checked, the source is read below its length only. When six times the length of the
  source does not wrap around, no access leaves its array, whatever the source and the state of the
  heap. When it wraps, the instruction array is too small: on a source in a live block, with room
  for that array, the call runs off the array exactly when the source has more lines than the array
  has slots and the lines that fit are all accepted.
\<close>

theorem compile_code_array_bounds:
  "(6 * unat len < 2 ^ 32 \<longrightarrow> compile_code source len s \<noteq> Some (Inl e)) \<and>
   (let room = unat (sizeof_Instruction * len); ls = source_lines (bytes_at (ram s) source (unat len))
    in heap_live s L \<and> (source, k) \<in> L \<and> len \<noteq> 0 \<and> len \<le> k \<and> heap_slack (12 + room) s \<longrightarrow>
      (compile_code source len s = Some (Inl e) \<longleftrightarrow>
        e = OutOfBounds \<and> 0 < room \<and> room < 6 * length ls \<and> assemble (take (room div 6) ls) \<noteq> None))"
  unfolding Let_def
proof (intro conjI impI)
  let ?n = "sizeof_Instruction * len"
  assume "6 * unat len < 2 ^ 32"
  then have "6 * unat len \<le> unat ?n" by (simp add: sizeof_Instruction_def unat_word_ariths)
  then show "compile_code source len s \<noteq> Some (Inl e)"
    using compile_loop_no_fault [of 0 0 "unat len" "unat ?n"] unfolding compile_code_fault_loop
    by (metis le_refl sum.distinct(1))
next
  let ?n = "sizeof_Instruction * len" and ?ls = "source_lines (bytes_at (ram s) source (unat len))"
  assume a: "heap_live s L \<and> (source, k) \<in> L \<and> len \<noteq> 0 \<and> len \<le> k \<and> heap_slack (12 + unat ?n) s"
  show "compile_code source len s = Some (Inl e) \<longleftrightarrow> e = OutOfBounds \<and> 0 < unat ?n \<and>
      unat ?n < 6 * length ?ls \<and> assemble (take (unat ?n div 6) ?ls) \<noteq> None"
  proof (cases "?n = 0")
    case True
    then show ?thesis by (simp add: compile_code_fault_loop malloc_def)
  next
    case False
    have "heap_live s L" "heap_slack (12 + unat ?n + 0) s" using a by simp_all
    from malloc_keeps [OF this(1) False this(2)] obtain ins j s1 where
      m: "malloc ?n s = Some (ins, s1)" "ins \<noteq> 0" "?n \<le> j" "(ins, j) \<notin> L"
      "heap_keeps s s1 L (insert (ins, j) L)" .
    have live1: "heap_live s1 (insert (ins, j) L)" using m(5) by (simp add: heap_keeps_def)
    have le: "unat len \<le> unat k" "unat ?n \<le> unat j" using a m(3) by (simp_all add: word_le_nat_alt)
    have src: "bytes_at (ram s1) source (unat len) = bytes_at (ram s) source (unat len)"
      using keeps_bytes [OF m(5) _ le(1)] a by blast
    have "\<forall>i < unat len. \<not> in_run (source + of_nat i) ins (unat ?n)"
      using fresh_disjoint [OF live1 insertI1 _ _ le] a m(4) by auto
    moreover have "0 < unat ?n" "unat ?n < 2 ^ 32" using False unsigned_less [of ?n] by (simp_all add: unat_gt_0)
    ultimately show ?thesis
      using compile_loop_fault [OF src, where ins = ins and room = "unat ?n" and start = 0 and cur = 0
          and count = 0 and e = e] m(1,2)
      by (simp add: compile_code_fault_loop source_lines_rest)
  qed
qed

text \<open>
  Nine bytes are always safe; a source of 0x2AAAAAAB bytes gets an array of two bytes, too small
  for the instruction of its first line.
\<close>

theorem compile_code_array_bounds_witness:
  "(\<forall>p t. compile_code p 9 (t :: heap) \<noteq> Some (Inl OutOfBounds)) \<and>
   (\<exists>(s :: heap) q. compile_code q 0x2AAAAAAB s = Some (Inl OutOfBounds))"
proof -
  let ?len = "0x2AAAAAAB :: u32" and ?k = "HEAP_SIZE - sizeof_block_meta"
  let ?s0 = "memory_init blank_heap :: heap"
  have live0: "heap_live ?s0 {}" using heap_liveI [OF memory_init_ok, of blank_heap] by simp
  have "heap_slack (12 + unat ?len + 14) ?s0"
    by (rule heap_slackI [OF memory_init_ok]) (simp add: HEAP_START_def HEAP_SIZE_def sizeof_block_meta_def)
  note slack = this
  have "?len \<noteq> 0" by simp
  from malloc_keeps [OF live0 this slack] obtain q j s where
    "malloc ?len ?s0 = Some (q, s)" "q \<noteq> 0" and m: "?len \<le> j" "(q, j) \<notin> {}"
      "heap_keeps ?s0 s {} {(q, j)}" "heap_slack 14 s" .
  have live: "heap_live s {(q, j)}" using m(3) by (simp add: heap_keeps_def)
  have room: "unat (sizeof_Instruction * ?len) = 2" by (simp add: sizeof_Instruction_def)
  let ?ls = "source_lines (bytes_at (ram s) q (unat ?len))"
  have "bytes_at (ram s) q (unat ?len) \<noteq> []" by (subst length_greater_0_conv [symmetric]) simp
  then have "2 < 6 * length ?ls" using source_lines_not_Nil by (cases ?ls) auto
  then have "compile_code q ?len s = Some (Inl OutOfBounds)"
    using compile_code_array_bounds [of ?len q s OutOfBounds "{(q, j)}" j] live m(1,4)
    unfolding Let_def room by simp
  moreover have "compile_code p 9 t \<noteq> Some (Inl OutOfBounds)" for p and t :: heap
    using compile_code_array_bounds [of 9 p t OutOfBounds] by simp
  ultimately show ?thesis by blast
qed

text \<open>
  \<^verbatim>\<open>execute_binary\<close> runs a copy: for a live binary it calls a new live block
  with the same bytes, and all older blocks unchanged, and gives that block back when the
  code returns; it refuses a null pointer and an empty binary.
\<close>

lemma execute_binary_runs_copy:
  assumes "heap_live s L" and "(b, k) \<in> L" and "sz \<noteq> 0" and "sz \<le> k"
    and "heap_slack (12 + unat sz) s"
  shows "\<exists>e j s'. (e, j) \<notin> L \<and> sz \<le> j \<and> heap_keeps s s' L (insert (e, j) L) \<and>
    bytes_at (ram s') e (unat sz) = bytes_at (ram s) b (unat sz) \<and>
    execute_binary call b sz s =
      do { s1 \<leftarrow> call e s'; s2 \<leftarrow> memory_free e s1; Some (True, s2) } \<and>
    execute_binary call 0 sz s = Some (False, s) \<and> execute_binary call b 0 s = Some (False, s)"
proof -
  have "execute_binary call 0 sz s = Some (False, s)" "execute_binary call b 0 s = Some (False, s)"
    by (simp_all add: execute_binary_def)
  with execute_binary_copy [OF assms, of call] show ?thesis by blast
qed

lemma execute_binary_runs_copy_witness:
  "\<exists>(s :: heap) p s'. bytes_at (ram s) p 1 = [0xC3] \<and> execute_binary (\<lambda>e s. Some s) p 1 s = Some (True, s')"
proof -
  obtain s :: heap and p k where s: "heap_live s {(p, k)}" "1000 \<le> k" "heap_slack 100000 s"
    "bytes_at (ram s) p 1 = [0xC3]"
    using heap_with_bytes [of "[0xC3]" 1] by auto
  have "1 \<le> k" using s(2) by (rule order_trans [rotated]) simp
  moreover have "heap_slack (12 + unat (1 :: u32)) s" by (rule heap_slack_mono [OF s(3)]) simp
  ultimately obtain e j s' where e: "heap_keeps s s' {(p, k)} (insert (e, j) {(p, k)})"
    "execute_binary (\<lambda>e s. Some s) p 1 s = do { s2 \<leftarrow> memory_free e s'; Some (True, s2) }"
    using execute_binary_runs_copy [OF s(1), of p k 1 "\<lambda>e s. Some s"] by auto
  then obtain s2 where "memory_free e s' = Some s2"
    using free_keeps [of s' "insert (e, j) {(p, k)}" e j] unfolding heap_keeps_def memory_free_def by auto
  with e(2) s(4) show ?thesis by auto
qed

end
