(* ===== verification/Editor.thy ===== *)
theory Editor
  imports Compiler
begin

text \<open>
  The editor of \<^verbatim>\<open>kernel/editor.cpp\<close>: the static structure \<^verbatim>\<open>E\<close>, its text in a
  heap block, the screen refresh and the key commands. Results are
  \<^verbatim>\<open>(fault + _) option\<close>, \<^const>\<open>None\<close> for a call that does not return. The second
  half abstracts the editor to its text and cursor and shows what typing does.
\<close>

subsection \<open>State\<close>

text \<open>\<^verbatim>\<open>filename\<close> is the bytes of the name with its terminator, or null.\<close>

record editor = compiler +
  E_buffer :: u32
  E_buffer_size :: u32
  E_cursor_x :: u32
  E_cursor_y :: u32
  E_filename :: "u8 list option"
  E_screen_rows :: u32
  E_screen_cols :: u32
  E_is_modified :: bool

definition editor_init :: "'a editor_scheme \<Rightarrow> 'a editor_scheme" where
  "editor_init s =
     (let s = s\<lparr>E_buffer := 0, E_buffer_size := 0, E_cursor_x := 0, E_cursor_y := 0,
                E_filename := None\<rparr>;
          (rows, cols) = terminal_get_size;
          s = s\<lparr>E_screen_rows := rows, E_screen_cols := cols\<rparr>;
          s = (if E_screen_rows s = 0 then s\<lparr>E_screen_rows := 24\<rparr> else s);
          s = (if E_screen_cols s = 0 then s\<lparr>E_screen_cols := 80\<rparr> else s);
          s = s\<lparr>E_screen_rows := E_screen_rows s - 1\<rparr>;
          s = s\<lparr>E_is_modified := False\<rparr>
      in compiler_init s)"

text \<open>\<^verbatim>\<open>read_file\<close> is the \<^verbatim>\<open>extern "C"\<close> reader, see \<^const>\<open>read_file_c\<close>.\<close>

definition editor_open :: "u8 list option \<Rightarrow> 'a editor_scheme \<Rightarrow> 'a editor_scheme option" where
  "editor_open filename s =
     (let s = s\<lparr>E_filename := filename\<rparr>;
          data = read_file_c filename s
      in if data \<noteq> 0
         then do {
           n \<leftarrow> strlen (ram s) data;
           Some (s\<lparr>E_buffer := data, E_buffer_size := n\<rparr>)
         }
         else Some s)"

subsection \<open>Editing\<close>

definition editor_insert_char :: "u8 \<Rightarrow> 'a editor_scheme \<Rightarrow> 'a editor_scheme option" where
  "editor_insert_char c s =
     do {
       let new_size = E_buffer_size s + 2;
       (new_buffer, s) \<leftarrow> malloc new_size s;
       if new_buffer \<noteq> 0 then do {
         s \<leftarrow> (if E_buffer s \<noteq> 0
               then free (E_buffer s)
                 (s\<lparr>ram := fst (memcpy new_buffer (E_buffer s) (E_buffer_size s) (ram s))\<rparr>)
               else Some s);
         let s = s\<lparr>ram := (ram s)(new_buffer + E_buffer_size s := c)\<rparr>;
         let s = s\<lparr>ram := (ram s)(new_buffer + (E_buffer_size s + 1) := 0)\<rparr>;
         let s = s\<lparr>E_buffer := new_buffer, E_buffer_size := new_size - 1\<rparr>;
         let s = s\<lparr>E_cursor_x := E_cursor_x s + 1\<rparr>;
         if E_cursor_x s \<ge> E_screen_cols s
         then Some (s\<lparr>E_cursor_x := 0, E_cursor_y := E_cursor_y s + 1\<rparr>)
         else Some s
       }
       else Some s
     }"

definition editor_delete_char :: "'a editor_scheme \<Rightarrow> 'a editor_scheme option" where
  "editor_delete_char s =
     (if E_buffer_size s > 0 \<and> E_cursor_x s > 0 then do {
        let new_size = E_buffer_size s;
        (new_buffer, s) \<leftarrow> malloc new_size s;
        if new_buffer \<noteq> 0 then do {
          let s = s\<lparr>ram := fst (memcpy new_buffer (E_buffer s) (E_cursor_x s - 1) (ram s))\<rparr>;
          let s = (if E_cursor_x s < E_buffer_size s
                   then s\<lparr>ram := fst (memcpy (new_buffer + E_cursor_x s - 1) (E_buffer s + E_cursor_x s)
                                  (E_buffer_size s - E_cursor_x s) (ram s))\<rparr>
                   else s);
          s \<leftarrow> free (E_buffer s) s;
          Some (s\<lparr>E_buffer := new_buffer, E_buffer_size := new_size - 1,
                  E_cursor_x := E_cursor_x s - 1\<rparr>)
        }
        else Some s
      }
      else Some s)"

subsection \<open>The screen\<close>

abbreviation crlf :: string where "crlf \<equiv> [CHR 0x0D, CHR 0x0A]"

text \<open>The end of the line at \<^verbatim>\<open>pos\<close>.\<close>

function line_end_loop :: "mem \<Rightarrow> u32 \<Rightarrow> u32 \<Rightarrow> u32 \<Rightarrow> u32" where
  "line_end_loop m buffer sz line_end =
     (if line_end < sz \<and> m (buffer + line_end) \<noteq> 10
      then line_end_loop m buffer sz (line_end + 1) else line_end)"
  by auto
termination
proof (relation "measure (\<lambda>(m, buffer, sz, line_end). unat (sz - line_end))")
  fix m buffer and sz line_end :: u32
  assume "line_end < sz \<and> m (buffer + line_end) \<noteq> (10 :: u8)"
  then have "sz - line_end \<noteq> 0" by auto
  then show "((m, buffer, sz, line_end + 1), m, buffer, sz, line_end)
      \<in> measure (\<lambda>(m :: u32 \<Rightarrow> u8, buffer :: u32, sz, line_end). unat (sz - line_end))"
    using unat_Suc_pred [of "sz - line_end"] by (simp add: diff_diff_eq)
qed simp

text \<open>
  One visible line, and the loop over them; the fields of \<^verbatim>\<open>E\<close> that they read are
  arguments.
\<close>

definition refresh_line :: "u32 \<Rightarrow> u32 \<Rightarrow> u32 \<Rightarrow> u32 \<Rightarrow> 'a terminal_scheme \<Rightarrow> 'a terminal_scheme" where
  "refresh_line buffer cols pos line_end s =
     (let line_length = line_end - pos;
          line_length = (if line_length > cols then cols else line_length);
          s = terminal_write (buffer + pos) line_length s
      in terminal_write_string (lit crlf) s)"

function refresh_lines ::
  "u32 \<Rightarrow> u32 \<Rightarrow> u32 \<Rightarrow> u32 \<Rightarrow> u32 \<Rightarrow> u32 \<Rightarrow> 'a terminal_scheme \<Rightarrow> 'a terminal_scheme" where
  "refresh_lines buffer sz rows cols pos row s =
     (if pos < sz \<and> row < rows then
        refresh_lines buffer sz rows cols (line_end_loop (ram s) buffer sz pos + 1) (row + 1)
          (refresh_line buffer cols pos (line_end_loop (ram s) buffer sz pos) s)
      else s)"
  by pat_completeness auto
termination
proof (relation "measure (\<lambda>(buffer, sz, rows, cols, pos, row, s). unat (rows - row))")
  fix buffer sz rows cols pos row :: u32 and s :: "'a terminal_scheme"
  assume "pos < sz \<and> row < rows"
  then have "rows - row \<noteq> 0" by auto
  then have "unat (rows - (row + 1)) < unat (rows - row)"
    using unat_Suc_pred [of "rows - row"] by (simp add: diff_diff_eq)
  then show "((buffer, sz, rows, cols, line_end_loop (ram s) buffer sz pos + 1, row + 1,
        refresh_line buffer cols pos (line_end_loop (ram s) buffer sz pos) s),
      buffer, sz, rows, cols, pos, row, s)
      \<in> measure (\<lambda>(buffer, sz, rows, cols, pos, row, s). unat (rows - row))"
    by simp
qed simp

declare line_end_loop.simps [simp del] refresh_lines.simps [simp del]

definition show_welcome :: "u32 \<Rightarrow> 'a terminal_scheme \<Rightarrow> fault + 'a terminal_scheme" where
  "show_welcome cols s =
     (let welcome = lit ''Editor -- version 2.0.0'' in
      rbind (arr_strlen welcome) (\<lambda>n.
        let welcomelen = of_nat n;
            welcomelen = (if welcomelen > cols then cols else welcomelen);
            padding = (cols - welcomelen) div 2;
            (padding, s) = (if padding \<noteq> 0
                            then (padding - 1, terminal_write_char (of_char CHR ''~'') s)
                            else (padding, s));
            s = fold (\<lambda>i. terminal_write_char (of_char CHR '' '')) [0..<unat padding] s
        in Inr (terminal_write_string welcome s)))"

text \<open>
  The length that \<^verbatim>\<open>snprintf\<close> returns is only assigned to a variable that nothing
  reads.
\<close>

definition editor_refresh_screen :: "'a editor_scheme \<Rightarrow> fault + 'a editor_scheme" where
  "editor_refresh_screen s =
     (let s = terminal_clear s in
      rbind (if E_buffer s \<noteq> 0
             then Inr (refresh_lines (E_buffer s) (E_buffer_size s) (E_screen_rows s)
                         (E_screen_cols s) 0 0 s)
             else if E_screen_rows s > 2 then show_welcome (E_screen_cols s) s
             else Inr s) (\<lambda>s.
      rbind (snprintf (Some (replicate 80 0)) 80 (Some (lit ''%.20s - %zu bytes %zu,%zu''))
               [VStr (Some (case E_filename s of Some f \<Rightarrow> cname f | None \<Rightarrow> chars ''[No Name]'')),
                VInt (E_buffer_size s), VInt (E_cursor_y s + 1), VInt (E_cursor_x s + 1)])
        (\<lambda>(status, len). case status of
            None \<Rightarrow> Inl NullPointer
          | Some status \<Rightarrow>
              (let s = terminal_movecursor 0 (E_screen_rows s) s;
                   s = terminal_write_string status s
               in Inr (terminal_movecursor (E_cursor_x s) (E_cursor_y s) s)))))"

subsection \<open>Running the text\<close>

text \<open>\<^verbatim>\<open>call\<close> is what jumping to an address does, as in \<^const>\<open>execute_binary\<close>.\<close>

definition editor_compile_and_run ::
  "(u32 \<Rightarrow> 'a editor_scheme \<Rightarrow> 'a editor_scheme option) \<Rightarrow> 'a editor_scheme \<Rightarrow>
   (fault + 'a editor_scheme) option" where
  "editor_compile_and_run call s =
     (if E_buffer s = 0 \<or> E_buffer_size s = 0
      then Some (Inr (terminal_write_string (lit (crlf @ ''No code to compile!'' @ crlf)) s))
      else do {
        r \<leftarrow> compile_code (E_buffer s) (E_buffer_size s) s;
        case r of Inl e \<Rightarrow> Some (Inl e)
        | Inr (result, s) \<Rightarrow>
            if \<not> success result then
              Some (Inr
                (let s = terminal_write_string (lit (crlf @ ''Compilation failed: '')) s;
                     s = terminal_write_string (error_message result) s
                 in terminal_write_string (lit crlf) s))
            else do {
              let s = terminal_write_string
                        (lit (crlf @ ''Compilation successful. Running...'' @ crlf)) s;
              (ok, s) \<leftarrow> execute_binary call (binary result) (binary_size result) s;
              let s = (if \<not> ok then terminal_write_string (lit (''Execution failed!'' @ crlf)) s else s);
              s \<leftarrow> (if binary result \<noteq> 0 then free (binary result) s else Some s);
              Some (Inr s)
            }
      })"

subsection \<open>Keys\<close>

text \<open>
  The cases of the switch; \<^const>\<open>Halted\<close> is the \<^verbatim>\<open>hlt\<close> loop after the second
  Ctrl-Q, which does not end.
\<close>

definition editor_key ::
  "(u32 \<Rightarrow> 'a editor_scheme \<Rightarrow> 'a editor_scheme option) \<Rightarrow> u8 \<Rightarrow> 'a editor_scheme \<Rightarrow>
   (fault + 'a editor_scheme run) option" where
  "editor_key call c s =
     (if c = 13 \<or> c = 10 then do {
        s \<leftarrow> editor_insert_char 10 s;
        Some (Inr (Running (s\<lparr>E_cursor_x := 0, E_cursor_y := E_cursor_y s + 1, E_is_modified := True\<rparr>)))
      }
      else if c = 8 then do {
        s \<leftarrow> editor_delete_char s;
        Some (Inr (Running (s\<lparr>E_is_modified := True\<rparr>)))
      }
      else if c = 17 then
        if E_is_modified s then
          Some (Inr (Running ((terminal_write_string (lit (crlf @
            ''Warning: Unsaved changes! Press Ctrl-Q again to quit.'' @ crlf)) s)\<lparr>E_is_modified := False\<rparr>)))
        else
          Some (Inr (Halted
            (let s = terminal_clear s;
                 s = terminal_write_string (lit (''Exiting editor...'' @ [CHR 0x0A])) s
             in s\<lparr>events := events s @ [Hlt]\<rparr>)))
      else if c = 19 then
        if E_filename s \<noteq> None \<and> E_buffer s \<noteq> 0 then
          (case write_file_c (E_filename s) (E_buffer s) (E_buffer_size s) of _ \<Rightarrow>
            Some (Inr (Running ((terminal_write_string (lit (crlf @ ''File saved.'' @ crlf)) s)
              \<lparr>E_is_modified := False\<rparr>))))
        else Some (Inr (Running s))
      else if c = 18 then
        map_option (map_sum id Running) (editor_compile_and_run call s)
      else if 32 \<le> c \<and> c < 127 then do {
        s \<leftarrow> editor_insert_char c s;
        Some (Inr (Running (s\<lparr>E_is_modified := True\<rparr>)))
      }
      else Some (Inr (Running s)))"

definition editor_process_keypress ::
  "(u32 \<Rightarrow> 'a editor_scheme \<Rightarrow> 'a editor_scheme option) \<Rightarrow> 'a editor_scheme \<Rightarrow>
   (fault + 'a editor_scheme run) option" where
  "editor_process_keypress call s =
     (let (c, s) = keyboard_getchar s in
      if c = 0 then Some (Inr (Running s))
      else do {
        r \<leftarrow> editor_key call c s;
        case r of
          Inr (Running s) \<Rightarrow> Some (map_sum id Running (editor_refresh_screen s))
        | _ \<Rightarrow> Some r
      })"

subsection \<open>The abstract editor\<close>

text \<open>
  The text and the cursor fields. A character is always appended, wherever the cursor is, and
  a backspace removes the character whose index in the whole text is one below the cursor's
  column.
\<close>

type_synonym ed = "u8 list \<times> u32 \<times> u32"

fun ed_insert :: "u32 \<Rightarrow> u8 \<Rightarrow> ed \<Rightarrow> ed" where
  "ed_insert cols c (t, x, y) = (if x + 1 \<ge> cols then (t @ [c], 0, y + 1) else (t @ [c], x + 1, y))"

fun ed_delete :: "ed \<Rightarrow> ed" where
  "ed_delete (t, x, y) =
     (if t \<noteq> [] \<and> x \<noteq> 0 then (take (unat x - 1) t @ drop (unat x) t, x - 1, y) else (t, x, y))"

fun ed_newline :: "ed \<Rightarrow> ed" where
  "ed_newline (t, x, y) = (t, 0, y + 1)"

definition ed_press :: "u32 \<Rightarrow> u8 \<Rightarrow> ed \<Rightarrow> ed" where
  "ed_press cols c e =
     (if c = 13 \<or> c = 10 then ed_newline (ed_insert cols 10 e)
      else if c = 8 then ed_delete e
      else if 32 \<le> c \<and> c < 127 then ed_insert cols c e
      else e)"

definition ed_text :: "'a editor_scheme \<Rightarrow> u8 list" where
  "ed_text s = bytes_at (ram s) (E_buffer s) (unat (E_buffer_size s))"

definition ed_view :: "'a editor_scheme \<Rightarrow> ed" where
  "ed_view s = (ed_text s, E_cursor_x s, E_cursor_y s)"

text \<open>
  The text is in a live block of its own, next to the live blocks \<^term>\<open>L\<close> of others; the
  cursor column is at most the length of the text.
\<close>

definition ed_blocks :: "'a editor_scheme \<Rightarrow> (u32 \<times> u32) set \<Rightarrow> (u32 \<times> u32) set \<Rightarrow> bool" where
  "ed_blocks s L L' \<longleftrightarrow> (if E_buffer s = 0 then E_buffer_size s = 0 \<and> L' = L
     else \<exists>k. (E_buffer s, k) \<notin> L \<and> E_buffer_size s \<le> k \<and> L' = insert (E_buffer s, k) L)"

definition ed_ok :: "'a editor_scheme \<Rightarrow> (u32 \<times> u32) set \<Rightarrow> bool" where
  "ed_ok s L \<longleftrightarrow> (\<exists>L'. ed_blocks s L L' \<and> heap_live s L') \<and> E_cursor_x s \<le> E_buffer_size s"

definition kept :: "(u32 \<times> u32) set \<Rightarrow> 'a heap_scheme \<Rightarrow> 'a heap_scheme \<Rightarrow> bool" where
  "kept L s s' \<longleftrightarrow> (\<forall>(q, j) \<in> L. bytes_at (ram s') q (unat j) = bytes_at (ram s) q (unat j))"

lemma kept_trans: "kept L s s1 \<Longrightarrow> kept L s1 s2 \<Longrightarrow> kept L s s2"
  unfolding kept_def by fastforce

lemma keeps_kept: "heap_keeps s s' L L' \<Longrightarrow> K \<subseteq> L \<Longrightarrow> kept K s s'"
  unfolding heap_keeps_def kept_def by blast

text \<open>A block that was just allocated lies apart from every other live block.\<close>

lemma apart_distance:
  assumes "heap_live s L" and "(p, j) \<in> L" and "(q, i) \<in> L" and "(p, j) \<noteq> (q, i)" and "0 < unat j"
  shows "unat i \<le> unat (p - q)"
proof -
  have "in_run (p + of_nat 0) p (unat j)" using assms(5) by (rule heap.in_own_run [OF assms(1,2)])
  then have "\<not> in_run p q (unat i)" using heap.live_disjoint [OF assms(1-4)] by simp
  then show ?thesis by (simp add: in_run_def)
qed

text \<open>Filling a new block and releasing an old one.\<close>

lemma replace_block:
  assumes live: "heap_live s (insert (p, j) L)" and new: "(p, j) \<notin> L" and old: "L = insert (q, k) K"
    and q: "(q, k) \<notin> K" and ys: "length ys \<le> unat j" and slack: "heap_slack n s"
  obtains m where "free q (s\<lparr>ram := write_bytes (ram s) p ys\<rparr>) = Some (s\<lparr>ram := m\<rparr>)"
    "heap_live (s\<lparr>ram := m\<rparr>) (insert (p, j) K)" "bytes_at m p (length ys) = ys"
    "kept K s (s\<lparr>ram := m\<rparr>)" "heap_slack n (s\<lparr>ram := m\<rparr>)"
proof -
  let ?t = "s\<lparr>ram := write_bytes (ram s) p ys\<rparr>" and ?L = "insert (p, j) L"
  have k1: "heap_keeps s ?t L ?L" by (rule keeps_write [OF live new ys])
  then have live1: "heap_live ?t ?L" by (simp add: heap_keeps_def)
  have qL: "(q, k) \<in> ?L" using old by simp
  obtain u where f: "free q ?t = Some u" "heap_keeps ?t u ?L (?L - {(q, k)})"
    by (rule free_keeps [OF live1 qL])
  have "q \<noteq> 0" using heap.live_bounds [OF live1 qL] by simp
  then obtain m where u: "u = s\<lparr>ram := m\<rparr>" using free_ram [OF f(1)] by auto
  have L: "?L - {(q, k)} = insert (p, j) K" using old new q by auto
  have "heap_slack n u"
    using heap_slack_free [OF live1 qL _ f(1)] fresh_write(2) [OF live new ys slack] by blast
  moreover have "bytes_at (ram u) p (length ys) = ys"
    using keeps_bytes [OF f(2) insertI1 ys] fresh_write(4) [OF live new ys] by simp
  moreover have "kept K s u"
    using kept_trans [OF keeps_kept [OF k1, of K] keeps_kept [OF f(2), of K]] old by auto
  moreover have "heap_live u (insert (p, j) K)" using f(2) L by (simp add: heap_keeps_def)
  ultimately show ?thesis using that f(1) u by auto
qed

lemma ed_blocks_ram [simp]: "ed_blocks (s\<lparr>ram := m\<rparr>) L L' = ed_blocks s L L'"
  by (simp add: ed_blocks_def)

lemma write_two_after:
  assumes "n + 2 \<le> 2 ^ 32"
  shows "m(p + of_nat n := c, p + (of_nat n + 1) := d) = write_bytes m p (bytes_at m p n @ [c, d])"
proof -
  have "write_bytes m p (bytes_at m p n @ [c, d]) = write_bytes m (p + of_nat n) [c, d]"
    using write_bytes_append [of "bytes_at m p n" "[c, d]" m p] assms by (simp add: write_bytes_id)
  also have "\<dots> = m(p + of_nat n := c, p + (of_nat n + 1) := d)"
    by (auto simp: write_bytes_Cons add.assoc fun_upd_twist)
  finally show ?thesis ..
qed

text \<open>What the editing operations may change.\<close>

definition ed_only :: "'a editor_scheme \<Rightarrow> 'a editor_scheme \<Rightarrow> bool" where
  "ed_only s s' \<longleftrightarrow> (\<exists>m b n x y. s' = s\<lparr>ram := m, E_buffer := b, E_buffer_size := n,
     E_cursor_x := x, E_cursor_y := y\<rparr>)"

lemma ed_okE:
  assumes "ed_ok s L"
  obtains L' where "ed_blocks s L L'" "heap_live s L'" "L \<subseteq> L'" "E_cursor_x s \<le> E_buffer_size s"
proof -
  obtain L' where L': "ed_blocks s L L'" "heap_live s L'" "E_cursor_x s \<le> E_buffer_size s"
    using assms unfolding ed_ok_def by blast
  moreover have "L \<subseteq> L'" using L'(1) by (auto simp: ed_blocks_def split: if_splits)
  ultimately show ?thesis by (intro that)
qed

lemma ed_okI:
  assumes "E_buffer s \<noteq> 0" and "(E_buffer s, j) \<notin> L" and "E_buffer_size s \<le> j"
    and "heap_live s (insert (E_buffer s, j) L)" and "E_cursor_x s \<le> E_buffer_size s"
  shows "ed_ok s L"
  using assms unfolding ed_ok_def ed_blocks_def by auto

text \<open>The first half of an insertion: the new block holds the old text.\<close>

lemma insert_first_half:
  assumes blocks: "ed_blocks s L L'" and live: "heap_live s L'"
    and slack: "heap_slack (14 + unat (E_buffer_size s) + k) s"
  obtains p j m m' where "malloc (E_buffer_size s + 2) s = Some (p, s\<lparr>ram := m\<rparr>)" "p \<noteq> 0"
    "unat (E_buffer_size s) + 2 \<le> unat j" "(p, j) \<notin> L" "heap_live (s\<lparr>ram := m'\<rparr>) (insert (p, j) L)"
    "(if E_buffer s \<noteq> 0
      then free (E_buffer s) (s\<lparr>ram := fst (memcpy p (E_buffer s) (E_buffer_size s) m)\<rparr>)
      else Some (s\<lparr>ram := m\<rparr>)) = Some (s\<lparr>ram := m'\<rparr>)"
    "bytes_at m' p (unat (E_buffer_size s)) = ed_text s" "kept L s (s\<lparr>ram := m'\<rparr>)"
    "heap_slack k (s\<lparr>ram := m'\<rparr>)"
proof -
  let ?n = "unat (E_buffer_size s)" and ?b = "E_buffer s"
  obtain bs where "heap_ok s bs" using live unfolding heap_live_def by blast
  then have "14 + ?n + k < 2 ^ 32" using slack unfolding heap_slack_def by fastforce
  then have n2: "unat (E_buffer_size s + 2) = ?n + 2" using unat_plus_nowrap [of "E_buffer_size s" 2] by simp
  then have n0: "E_buffer_size s + 2 \<noteq> 0" by auto
  obtain p j s1 where m1: "malloc (E_buffer_size s + 2) s = Some (p, s1)" "p \<noteq> 0"
    "E_buffer_size s + 2 \<le> j" "(p, j) \<notin> L'" "heap_keeps s s1 L' (insert (p, j) L')" "heap_slack k s1"
    by (rule malloc_keeps [OF live n0, of k]) (use slack n2 in \<open>simp_all add: add.commute add.left_commute\<close>)
  obtain m where s1: "s1 = s\<lparr>ram := m\<rparr>" by (rule malloc_ram [OF live m1(1)])
  have j: "?n + 2 \<le> unat j" using m1(3) n2 by (simp add: word_le_nat_alt)
  have live1: "heap_live s1 (insert (p, j) L')" using m1(5) by (simp add: heap_keeps_def)
  show ?thesis
  proof (cases "?b = 0")
    case True
    then have "L' = L" "?n = 0" using blocks by (simp_all add: ed_blocks_def)
    then show ?thesis
      using m1 s1 j live1 True keeps_kept [OF m1(5), of L] by (intro that [of p m j m]) (simp_all add: ed_text_def)
  next
    case False
    then obtain kb where b: "(?b, kb) \<notin> L" "E_buffer_size s \<le> kb" "L' = insert (?b, kb) L"
      using blocks by (auto simp: ed_blocks_def)
    then have kb: "?n \<le> unat kb" by (simp add: word_le_nat_alt)
    have old: "bytes_at m ?b ?n = ed_text s"
      using keeps_bytes [OF m1(5) _ kb, of ?b] b(3) s1 by (simp add: ed_text_def)
    have "(p, j) \<noteq> (?b, kb)" using m1(4) b(3) by auto
    then have "unat kb \<le> unat (p - ?b)" using j b(3) by (intro apart_distance [OF live1]) auto
    then have cpy: "fst (memcpy p ?b (E_buffer_size s) m) = write_bytes (ram s1) p (ed_text s)"
      using kb old s1 by (simp add: memcpy_def memcpy_loop_eq)
    have "length (ed_text s) \<le> unat j" using j by (simp add: ed_text_def)
    from replace_block [OF live1 m1(4) b(3,1) this m1(6)] obtain m' where m':
      "free ?b (s1\<lparr>ram := write_bytes (ram s1) p (ed_text s)\<rparr>) = Some (s1\<lparr>ram := m'\<rparr>)"
      "heap_live (s1\<lparr>ram := m'\<rparr>) (insert (p, j) L)"
      "bytes_at m' p (length (ed_text s)) = ed_text s" "kept L s1 (s1\<lparr>ram := m'\<rparr>)"
      "heap_slack k (s1\<lparr>ram := m'\<rparr>)" .
    have "length (ed_text s) = ?n" by (simp add: ed_text_def)
    with m' show ?thesis
      using m1 s1 j b False cpy kept_trans [OF keeps_kept [OF m1(5), of L] m'(4)]
      by (intro that [of p m j m']) auto
  qed
qed

lemma editor_insert:
  assumes ok: "ed_ok s L" and slack: "heap_slack (14 + unat (E_buffer_size s) + k) s"
  obtains s' where "editor_insert_char c s = Some s'" "ed_ok s' L" "heap_slack k s'" "kept L s s'"
    "ed_view s' = ed_insert (E_screen_cols s) c (ed_view s)" "ed_only s s'"
proof -
  let ?n = "unat (E_buffer_size s)"
  obtain L' where L': "ed_blocks s L L'" "heap_live s L'" "E_cursor_x s \<le> E_buffer_size s"
    using ok by (rule ed_okE)
  from insert_first_half [OF L'(1,2) slack] obtain p j m m' where h:
    "malloc (E_buffer_size s + 2) s = Some (p, s\<lparr>ram := m\<rparr>)" "p \<noteq> 0"
    "?n + 2 \<le> unat j" "(p, j) \<notin> L" "heap_live (s\<lparr>ram := m'\<rparr>) (insert (p, j) L)"
    "(if E_buffer s \<noteq> 0
      then free (E_buffer s) (s\<lparr>ram := fst (memcpy p (E_buffer s) (E_buffer_size s) m)\<rparr>)
      else Some (s\<lparr>ram := m\<rparr>)) = Some (s\<lparr>ram := m'\<rparr>)"
    "bytes_at m' p ?n = ed_text s" "kept L s (s\<lparr>ram := m'\<rparr>)" "heap_slack k (s\<lparr>ram := m'\<rparr>)" .
  have nb: "?n + 2 < 2 ^ 32" using h(3) unat_lt_32 [of j] by simp
  let ?m = "write_bytes m' p (ed_text s @ [c, 0])"
  have m2: "m'(p + E_buffer_size s := c, p + (E_buffer_size s + 1) := 0) = ?m"
    using write_two_after [of ?n m' p c 0] nb h(7) by simp
  let ?s = "s\<lparr>ram := ?m\<rparr>"
  let ?x = "E_cursor_x s + 1" and ?y = "E_cursor_y s" and ?c = "E_screen_cols s"
  define s' where "s' = s\<lparr>ram := ?m, E_buffer := p, E_buffer_size := E_buffer_size s + 1,
     E_cursor_x := (if ?x \<ge> ?c then 0 else ?x), E_cursor_y := (if ?x \<ge> ?c then ?y + 1 else ?y)\<rparr>"
  have run: "editor_insert_char c s = Some s'"
    using h(1,2,6) m2 by (cases "E_buffer s = 0") (simp_all add: editor_insert_char_def s'_def Let_def)
  have len: "length (ed_text s @ [c, 0]) \<le> unat j" using h(3) by (simp add: ed_text_def)
  note fw = fresh_write [OF h(5,4) len]
  have size1: "unat (E_buffer_size s + 1) = ?n + 1"
    using nb unat_plus_nowrap [of "E_buffer_size s" 1] by simp
  have lv: "heap_live s' (insert (p, j) L)"
    by (rule heap_live_above(1) [OF fw(1)]) (simp_all add: s'_def)
  have "E_buffer_size s + 1 \<le> j" using h(3) size1 by (simp add: word_le_nat_alt)
  moreover have "(if ?x \<ge> ?c then 0 else ?x) \<le> E_buffer_size s + 1"
    using L'(3) size1 unat_plus_nowrap [of "E_cursor_x s" 1] nb by (auto simp: word_le_nat_alt)
  ultimately have ok': "ed_ok s' L"
    using lv h(2,4) by (intro ed_okI [of s' j]) (simp_all add: s'_def)
  have sl: "heap_slack k s'"
    by (rule heap_slack_above [OF fw(1) _ _ fw(2) [OF h(9)]]) (simp_all add: s'_def)
  have "kept L (s\<lparr>ram := m'\<rparr>) s'" using fw(3) by (auto simp: kept_def s'_def)
  then have kp: "kept L s s'" by (rule kept_trans [OF h(8)])
  have "bytes_at ?m p (?n + 1) = ed_text s @ [c]"
    using arg_cong [OF fw(4), of "take (?n + 1)"]
    by (simp add: take_bytes_at min_absorb1 ed_text_def)
  then have vw: "ed_view s' = ed_insert ?c c (ed_view s)"
    using size1 by (simp add: ed_view_def ed_text_def s'_def)
  have "ed_only s s'" unfolding ed_only_def s'_def by blast
  with run ok' sl kp vw show ?thesis by (rule that)
qed

lemma drop_bytes_at: "drop k (bytes_at m p n) = bytes_at m (p + of_nat k) (n - k)"
  by (rule nth_equalityI) (auto simp: add.assoc)

text \<open>The two copies of a deletion, from a block to one that lies apart from it.\<close>

lemma delete_copies:
  assumes t: "bytes_at m b (unat n) = t" and x: "0 < x" "x \<le> n"
    and apart: "unat n \<le> unat (p - b)" and apart2: "\<And>i ys. i < unat n \<Longrightarrow> length ys < unat n \<Longrightarrow>
      write_bytes m p ys (b + of_nat i) = m (b + of_nat i)"
  defines "w \<equiv> fst (memcpy p b (x - 1) m)"
  shows "(if x < n then fst (memcpy (p + x - 1) (b + x) (n - x) w) else w)
    = write_bytes m p (take (unat x - 1) t @ drop (unat x) t)"
proof -
  have ux: "0 < unat x" "unat x \<le> unat n" "unat (x - 1) = unat x - 1"
    using x unat_pred [of x] by (auto simp: word_le_nat_alt unat_gt_0)
  have len: "length t = unat n" using t by auto
  have "bytes_at m b (unat x - 1) = take (unat x - 1) t"
    using ux unfolding t [symmetric] by (simp add: take_bytes_at min_absorb1)
  moreover have "unat (x - 1) \<le> unat (p - b)" using ux apart by linarith
  ultimately have w: "w = write_bytes m p (take (unat x - 1) t)"
    using ux memcpy_loop_eq [of p b "x - 1" m] by (simp add: w_def memcpy_def)
  show ?thesis
  proof (cases "x < n")
    case True
    have nx: "unat (n - x) = unat n - unat x" using x(2) by (simp add: unat_sub word_le_nat_alt)
    have lt: "length (take (unat x - 1) t) < unat n" using ux len by simp
    have "bytes_at w (b + x) (unat n - unat x) = bytes_at m (b + x) (unat n - unat x)"
    proof (rule bytes_at_cong)
      fix i assume "i < unat n - unat x"
      then have "w (b + of_nat (unat x + i)) = m (b + of_nat (unat x + i))"
        unfolding w by (intro apart2 [OF _ lt]) simp
      then show "w (b + x + of_nat i) = m (b + x + of_nat i)" by (simp add: add.assoc)
    qed
    also have "\<dots> = drop (unat x) t"
      unfolding t [symmetric] drop_bytes_at by simp
    finally have src: "bytes_at w (b + x) (unat n - unat x) = drop (unat x) t" .
    have "unat (p - b - 1) = unat (p - b) - 1" using apart ux by (intro unat_pred) auto
    then have "unat (n - x) \<le> unat (p - b - 1)" using nx apart ux by linarith
    moreover have "p + x - 1 - (b + x) = p - b - 1" by simp
    ultimately have "unat (n - x) \<le> unat (p + x - 1 - (b + x))" by (simp only:)
    then have "fst (memcpy (p + x - 1) (b + x) (n - x) w) = write_bytes w (p + x - 1) (drop (unat x) t)"
      using src nx by (simp add: memcpy_def memcpy_loop_eq)
    moreover have "write_bytes w (p + x - 1) (drop (unat x) t)
        = write_bytes m p (take (unat x - 1) t @ drop (unat x) t)"
    proof -
      have "p + of_nat (length (take (unat x - 1) t)) = p + x - 1"
        using ux len by (simp add: of_nat_diff min_absorb1)
      note at = this
      have "length (take (unat x - 1) t) + length (drop (unat x) t) \<le> 2 ^ 32"
        using len ux unat_lt_32 [of n] by simp
      from write_bytes_append [OF this, of m p] show ?thesis unfolding w at .
    qed
    ultimately show ?thesis using True by simp
  next
    case False
    then show ?thesis using w x len by simp
  qed
qed

text \<open>The first half of a deletion: the new block holds the text without one character.\<close>

lemma delete_first_half:
  assumes ok: "ed_ok s L" and slack: "heap_slack (12 + unat (E_buffer_size s) + k) s"
    and pos: "E_buffer_size s > 0" "E_cursor_x s > 0"
  defines "n \<equiv> E_buffer_size s" and "x \<equiv> E_cursor_x s" and "b \<equiv> E_buffer s"
  defines "ys \<equiv> take (unat x - 1) (ed_text s) @ drop (unat x) (ed_text s)"
  obtains p j m m' where "malloc n s = Some (p, s\<lparr>ram := m\<rparr>)" "p \<noteq> 0" "unat n \<le> unat j" "(p, j) \<notin> L"
    "(if x < n then fst (memcpy (p + x - 1) (b + x) (n - x) (fst (memcpy p b (x - 1) m)))
      else fst (memcpy p b (x - 1) m)) = write_bytes m p ys"
    "free b (s\<lparr>ram := write_bytes m p ys\<rparr>) = Some (s\<lparr>ram := m'\<rparr>)"
    "heap_live (s\<lparr>ram := m'\<rparr>) (insert (p, j) L)" "bytes_at m' p (length ys) = ys"
    "kept L s (s\<lparr>ram := m'\<rparr>)" "heap_slack k (s\<lparr>ram := m'\<rparr>)" "length ys = unat n - 1"
proof -
  have len: "length (ed_text s) = unat n" by (simp add: ed_text_def n_def)
  obtain L' where L': "ed_blocks s L L'" "heap_live s L'" "x \<le> n" unfolding x_def n_def using ok by (rule ed_okE)
  have "b \<noteq> 0" using L'(1) pos by (auto simp: ed_blocks_def b_def)
  then obtain kb where kb: "(b, kb) \<notin> L" "n \<le> kb" "L' = insert (b, kb) L"
    using L'(1) by (auto simp: ed_blocks_def b_def n_def)
  have n0: "n \<noteq> 0" using pos by (auto simp: n_def)
  obtain p j s1 where m1: "malloc n s = Some (p, s1)" "p \<noteq> 0" "n \<le> j" "(p, j) \<notin> L'"
    "heap_keeps s s1 L' (insert (p, j) L')" "heap_slack k s1"
    by (rule malloc_keeps [OF L'(2) n0 slack [folded n_def]])
  obtain m where s1: "s1 = s\<lparr>ram := m\<rparr>" by (rule malloc_ram [OF L'(2) m1(1)])
  have live1: "heap_live s1 (insert (p, j) L')" using m1(5) by (simp add: heap_keeps_def)
  have le: "unat n \<le> unat j" "unat n \<le> unat kb" "0 < unat n"
    using m1(3) kb(2) n0 by (simp_all add: word_le_nat_alt unat_gt_0)
  have t: "bytes_at m b (unat n) = ed_text s"
    using keeps_bytes [OF m1(5) _ le(2), of b] kb(3) s1 by (simp add: ed_text_def b_def n_def)
  have ne: "(p, j) \<noteq> (b, kb)" using m1(4) kb(3) by auto
  have ap: "unat kb \<le> unat (p - b)" using le kb(3) by (intro apart_distance [OF live1 insertI1 _ ne]) auto
  have ap2: "write_bytes m p zs (b + of_nat i) = m (b + of_nat i)" if "i < unat n" "length zs < unat n" for i zs
    using fresh_disjoint [OF live1 insertI1 _ ne le(2), of "length zs" i] kb(3) that le(1)
    by (intro write_bytes_outside) auto
  have x: "0 < unat x" "unat x \<le> unat n" using pos(2) L'(3) by (auto simp: word_le_nat_alt unat_gt_0 x_def)
  have copies: "(if x < n then fst (memcpy (p + x - 1) (b + x) (n - x) (fst (memcpy p b (x - 1) m)))
      else fst (memcpy p b (x - 1) m)) = write_bytes m p ys"
    unfolding ys_def using delete_copies [OF t _ L'(3) _ ap2] pos(2) ap le(2) by (simp add: x_def)
  have ly: "length ys = unat n - 1" "length ys \<le> unat j" using len x le(1) by (simp_all add: ys_def)
  obtain m' where m': "free b (s1\<lparr>ram := write_bytes (ram s1) p ys\<rparr>) = Some (s1\<lparr>ram := m'\<rparr>)"
    "heap_live (s1\<lparr>ram := m'\<rparr>) (insert (p, j) L)" "bytes_at m' p (length ys) = ys"
    "kept L s1 (s1\<lparr>ram := m'\<rparr>)" "heap_slack k (s1\<lparr>ram := m'\<rparr>)"
    by (rule replace_block [OF live1 m1(4) kb(3,1) ly(2) m1(6)])
  have "kept L s (s1\<lparr>ram := m'\<rparr>)" using kept_trans [OF keeps_kept [OF m1(5)] m'(4)] kb(3) by blast
  then show ?thesis using that [of p m j m'] m1(1,2,4) m' le(1) kb(3) copies ly(1) s1 by simp
qed

lemma ed_only_refl: "ed_only s s"
proof -
  have "s = s\<lparr>ram := ram s, E_buffer := E_buffer s, E_buffer_size := E_buffer_size s,
     E_cursor_x := E_cursor_x s, E_cursor_y := E_cursor_y s\<rparr>" by simp
  then show ?thesis unfolding ed_only_def by blast
qed

lemma editor_delete:
  assumes ok: "ed_ok s L" and slack: "heap_slack (12 + unat (E_buffer_size s) + k) s"
  obtains s' where "editor_delete_char s = Some s'" "ed_ok s' L" "heap_slack k s'" "kept L s s'"
    "ed_view s' = ed_delete (ed_view s)" "ed_only s s'"
proof -
  let ?n = "E_buffer_size s" and ?x = "E_cursor_x s" and ?b = "E_buffer s"
  have len: "length (ed_text s) = unat ?n" by (simp add: ed_text_def)
  show ?thesis
  proof (cases "?n > 0 \<and> ?x > 0")
    case False
    then have "ed_delete (ed_view s) = ed_view s"
      using len by (auto simp: ed_view_def word_gt_0)
    moreover have "editor_delete_char s = Some s" unfolding editor_delete_char_def using False by (rule if_not_P)
    ultimately show ?thesis
      using ok heap_slack_mono [OF slack, of k] ed_only_refl by (intro that) (simp_all add: kept_def)
  next
    case True
    let ?ys = "take (unat ?x - 1) (ed_text s) @ drop (unat ?x) (ed_text s)"
    from True have pos: "?n > 0" "?x > 0" by simp_all
    obtain p j m m' where h: "malloc ?n s = Some (p, s\<lparr>ram := m\<rparr>)" "p \<noteq> 0" "unat ?n \<le> unat j" "(p, j) \<notin> L"
      "(if ?x < ?n then fst (memcpy (p + ?x - 1) (?b + ?x) (?n - ?x) (fst (memcpy p ?b (?x - 1) m)))
        else fst (memcpy p ?b (?x - 1) m)) = write_bytes m p ?ys"
      "free ?b (s\<lparr>ram := write_bytes m p ?ys\<rparr>) = Some (s\<lparr>ram := m'\<rparr>)"
      "heap_live (s\<lparr>ram := m'\<rparr>) (insert (p, j) L)" "bytes_at m' p (length ?ys) = ?ys"
      "kept L s (s\<lparr>ram := m'\<rparr>)" "heap_slack k (s\<lparr>ram := m'\<rparr>)" "length ?ys = unat ?n - 1"
      by (rule delete_first_half [OF ok slack pos])
    define s' where "s' = s\<lparr>ram := m', E_buffer := p, E_buffer_size := ?n - 1, E_cursor_x := ?x - 1\<rparr>"
    have run: "editor_delete_char s = Some s'"
      using True h(1,2,5,6) unfolding editor_delete_char_def s'_def by (cases "?x < ?n") simp_all
    have lv: "heap_live s' (insert (p, j) L)"
      by (rule heap_live_above(1) [OF h(7)]) (simp_all add: s'_def)
    have "?x \<le> ?n" using ok by (rule ed_okE)
    then have "unat (?n - 1) = unat ?n - 1" "unat (?x - 1) = unat ?x - 1" "unat ?x \<le> unat ?n"
      using True unat_pred [of ?x] unat_pred [of ?n] by (auto simp: word_le_nat_alt)
    note u = this
    have "?n - 1 \<le> j" "?x - 1 \<le> ?n - 1" using u h(3) by (simp_all add: word_le_nat_alt)
    then have ok': "ed_ok s' L"
      using lv h(2,4) by (intro ed_okI [of s' j]) (simp_all add: s'_def)
    have sl: "heap_slack k s'" by (rule heap_slack_above [OF h(7) _ _ h(10)]) (simp_all add: s'_def)
    have kp: "kept L s s'" using h(9) by (simp add: kept_def s'_def)
    have "ed_text s' = bytes_at m' p (unat (?n - 1))" by (simp add: ed_text_def s'_def)
    then have "ed_text s' = ?ys" using h(8) unfolding h(11) u(1) by (rule trans)
    moreover have "ed_text s \<noteq> []" using len True by (auto simp: word_gt_0 unat_eq_zero)
    ultimately have vw: "ed_view s' = ed_delete (ed_view s)"
      using True by (simp add: ed_view_def word_gt_0) (simp add: s'_def)
    have "ed_only s s'" unfolding ed_only_def s'_def
      by (intro exI [of _ m'] exI [of _ p] exI [of _ "?n - 1"] exI [of _ "?x - 1"] exI [of _ "E_cursor_y s"]) simp
    with run ok' sl kp vw show ?thesis by (rule that)
  qed
qed

end
