(* ===== verification/Session.thy ===== *)
theory Session
  imports Editor
begin

text \<open>
  The editor at work: what a refresh of the screen shows, what one key press does to text,
  screen, heap and key queue together, and what a whole run of the main loop does. The
  second part covers where the keys come from.
\<close>

subsection \<open>What a refresh shows\<close>

text \<open>Writing from memory, where the source is not in the VGA window.\<close>

lemma terminal_write_view:
  assumes "term_ok s" and "\<And>i. i < unat n \<Longrightarrow> \<not> in_run (data + of_nat i) (terminal_buffer s) 4000"
  shows "view (terminal_write data n s) =
      fold (scr_write (terminal_color s)) (bytes_at (ram s) data (unat n)) (view s)"
    and "term_ok (terminal_write data n s)" and "term_only s (terminal_write data n s)"
proof -
  let ?f = "\<lambda>k. fold (\<lambda>i s. terminal_write_char (ram s (data + of_nat i)) s) [0..<k] s"
  have "view (?f k) = fold (scr_write (terminal_color s)) (bytes_at (ram s) data k) (view s) \<and>
      term_ok (?f k) \<and> term_only s (?f k)" if "k \<le> unat n" for k
    using that
  proof (induction k)
    case (Suc k)
    then have IH: "view (?f k) = fold (scr_write (terminal_color s)) (bytes_at (ram s) data k) (view s)"
      "term_ok (?f k)" "term_only s (?f k)" by simp_all
    have "ram (?f k) (data + of_nat k) = ram s (data + of_nat k)"
      using Suc.prems assms(2) [of k] by (intro term_only_fields(4) [OF IH(3)]) simp
    then show ?case
      using terminal_write_char_view [OF IH(2)] term_only_fields(1) [OF IH(3)] IH
        term_only_trans [OF IH(3)] by (simp add: bytes_at_snoc)
  qed (use assms(1) in simp)
  from this [OF order_refl] show
    "view (terminal_write data n s) =
      fold (scr_write (terminal_color s)) (bytes_at (ram s) data (unat n)) (view s)"
    "term_ok (terminal_write data n s)" "term_only s (terminal_write data n s)"
    by (simp_all add: terminal_write_def)
qed

lemma line_end_loop_eq:
  "e \<le> sz \<Longrightarrow> unat (line_end_loop m b sz e)
    = unat e + length (takeWhile (\<lambda>c. c \<noteq> 10) (drop (unat e) (bytes_at m b (unat sz))))"
proof (induction m b sz e rule: line_end_loop.induct)
  case (1 m b sz e)
  show ?case
  proof (cases "e < sz")
    case True
    then have lt: "unat e < unat sz" by (simp add: word_less_nat_alt)
    then have e1: "unat (e + 1) = Suc (unat e)"
      using unat_plus_nowrap [of e 1] unat_lt_32 [of sz] by simp
    have d: "drop (unat e) (bytes_at m b (unat sz))
        = m (b + e) # drop (Suc (unat e)) (bytes_at m b (unat sz))"
      using lt by (simp flip: Cons_nth_drop_Suc)
    have "e + 1 \<le> sz" using lt e1 by (simp add: word_le_nat_alt)
    then show ?thesis
      using 1 True d e1 by (subst line_end_loop.simps) auto
  next
    case False
    then have "e = sz" using 1(2) by simp
    then show ?thesis by (subst line_end_loop.simps) simp
  qed
qed

text \<open>
  The characters that a refresh writes for a text, at most \<^term>\<open>n\<close> lines of at most
  \<^term>\<open>w\<close> characters. The carriage return is a character like any other.
\<close>

primrec shown :: "nat \<Rightarrow> nat \<Rightarrow> u8 list \<Rightarrow> u8 list" where
  "shown 0 w t = []"
| "shown (Suc n) w t = (if t = [] then [] else
     (let l = takeWhile (\<lambda>c. c \<noteq> 10) t
      in take w l @ [13, 10] @ shown n w (drop (Suc (length l)) t)))"

lemma shown_Nil [simp]: "shown n w [] = []"
  by (cases n) simp_all

lemma refresh_line_view:
  fixes cols :: u32
  assumes ok: "term_ok s" and t: "bytes_at (ram s) b (unat sz) = t"
    and apart: "\<And>i. i < unat sz \<Longrightarrow> \<not> in_run (b + of_nat i) (terminal_buffer s) 4000"
    and pos: "pos < sz"
  defines "l \<equiv> takeWhile (\<lambda>c. c \<noteq> 10) (drop (unat pos) t)"
  defines "s' \<equiv> refresh_line b cols pos (line_end_loop (ram s) b sz pos) s"
  shows "view s' = fold (scr_write (terminal_color s)) (take (unat cols) l @ [13, 10]) (view s)"
    and "term_ok s'" and "term_only s s'"
proof -
  let ?e = "line_end_loop (ram s) b sz pos"
  have e: "unat ?e = unat pos + length l"
    using line_end_loop_eq [of pos sz "ram s" b] pos t by (simp add: l_def)
  have len: "length t = unat sz" using t by auto
  have ll: "length l \<le> unat sz - unat pos"
    using length_takeWhile_le [of "\<lambda>c. c \<noteq> 10" "drop (unat pos) t"] len by (simp add: l_def)
  have d: "unat (?e - pos) = length l" using e by (simp add: unat_sub_if')
  let ?n = "if ?e - pos > cols then cols else ?e - pos"
  have n: "unat ?n = min (unat cols) (length l)" using d by (auto simp: word_less_nat_alt)
  have "bytes_at (ram s) (b + pos) (unat ?n) = take (unat cols) l"
  proof -
    have "bytes_at (ram s) (b + pos) (unat sz - unat pos) = drop (unat pos) t"
      unfolding t [symmetric] drop_bytes_at by simp
    from arg_cong [OF this, of "take (length l)"]
    have "bytes_at (ram s) (b + pos) (length l) = l"
      using ll by (simp add: take_bytes_at min_absorb1 l_def takeWhile_eq_take [symmetric])
    from arg_cong [OF this, of "take (unat cols)"] show ?thesis by (simp add: take_bytes_at n)
  qed
  moreover have "\<not> in_run (b + pos + of_nat i) (terminal_buffer s) 4000" if "i < unat ?n" for i
  proof -
    have "i < length l" using that unfolding n by simp
    then have "unat pos + i < unat sz" using ll by linarith
    from apart [OF this] show ?thesis by (simp add: add.assoc)
  qed
  note w = terminal_write_view [where data = "b + pos" and n = ?n, OF ok this]
  let ?s = "terminal_write (b + pos) ?n s"
  have s': "s' = terminal_write_string (lit crlf) ?s" by (simp add: s'_def refresh_line_def Let_def)
  have crlf: "takeWhile (\<lambda>c. c \<noteq> 0) (lit crlf) = [13, 10]" by (simp add: lit_def)
  ultimately show "view s' = fold (scr_write (terminal_color s)) (take (unat cols) l @ [13, 10]) (view s)"
    "term_ok s'" "term_only s s'"
    using terminal_write_string_view [OF w(2), where data = "lit crlf"] w term_only_fields(1) [OF w(3)]
      term_only_trans [OF w(3)] unfolding s' crlf by simp_all
qed

lemma refresh_lines_view:
  assumes "term_ok s" and "bytes_at (ram s) b (unat sz) = t"
    and "\<And>i. i < unat sz \<Longrightarrow> \<not> in_run (b + of_nat i) (terminal_buffer s) 4000"
    and "unat sz + 1 < 2 ^ 32"
  shows "view (refresh_lines b sz rows cols pos row s) =
      fold (scr_write (terminal_color s)) (shown (unat rows - unat row) (unat cols) (drop (unat pos) t)) (view s) \<and>
    term_ok (refresh_lines b sz rows cols pos row s) \<and> term_only s (refresh_lines b sz rows cols pos row s)"
  using assms
proof (induction "unat rows - unat row" arbitrary: pos row s)
  case 0
  then have "\<not> row < rows" by (simp add: word_less_nat_alt)
  then show ?case using 0 by (subst (1 2 3) refresh_lines.simps) simp
next
  case (Suc n)
  have len: "length t = unat sz" using Suc.prems(2) by auto
  show ?case
  proof (cases "pos < sz")
    case False
    then have "drop (unat pos) t = []" using len by (simp add: word_less_nat_alt)
    then show ?thesis using False Suc.prems(1) by (subst (1 2 3) refresh_lines.simps) simp
  next
    case True
    have row: "row < rows" "unat (row + 1) = unat row + 1"
      using Suc.hyps(2) unat_plus_nowrap [of row 1] unat_lt_32 [of rows] by (simp_all add: word_less_nat_alt)
    let ?l = "takeWhile (\<lambda>c. c \<noteq> 10) (drop (unat pos) t)" and ?e = "line_end_loop (ram s) b sz pos"
    let ?s = "refresh_line b cols pos ?e s"
    note v = refresh_line_view [OF Suc.prems(1,2,3) True, of cols]
    have e: "unat ?e = unat pos + length ?l"
      using line_end_loop_eq [of pos sz "ram s" b] True Suc.prems(2) by simp
    have "length ?l \<le> unat sz - unat pos"
      using length_takeWhile_le [of "\<lambda>c. c \<noteq> 10" "drop (unat pos) t"] len by simp
    then have e1: "unat (?e + 1) = Suc (unat pos + length ?l)"
      using e Suc.prems(4) True unat_plus_nowrap [of ?e 1] by (simp add: word_less_nat_alt)
    have "bytes_at (ram ?s) b (unat sz) = bytes_at (ram s) b (unat sz)"
      by (rule bytes_at_cong) (use term_only_fields(4) [OF v(3)] Suc.prems(3) in simp)
    then have t: "bytes_at (ram ?s) b (unat sz) = t" using Suc.prems(2) by simp
    have "n = unat rows - unat (row + 1)" using Suc.hyps(2) row by simp
    note IH = Suc.hyps(1) [OF this v(2) t, of "?e + 1"]
    have "drop (unat pos) t \<noteq> []" using True len by (simp add: word_less_nat_alt)
    moreover have "drop (unat (?e + 1)) t = drop (Suc (length ?l)) (drop (unat pos) t)"
      using e1 by (simp add: add.commute)
    moreover have "unat rows - unat (row + 1) = n" "unat rows - unat row = Suc n"
      using Suc.hyps(2) row by simp_all
    moreover have "refresh_lines b sz rows cols pos row s = refresh_lines b sz rows cols (?e + 1) (row + 1) ?s"
      using True row by (subst refresh_lines.simps) simp
    ultimately show ?thesis
      using IH Suc.prems(3,4) term_only_fields(1,2) [OF v(3)] v term_only_trans [OF v(3)]
      by (simp add: Let_def)
  qed
qed

text \<open>
  The status line. None of the directives of its format is one that \<^verbatim>\<open>vsnprintf\<close> knows, so
  the arguments do not show.
\<close>

definition status_text :: "u8 list" where "status_text = chars ''.20s - zu bytes zu,zu''"

lemma snprintf_status:
  "\<exists>r k. snprintf (Some (replicate 80 0)) 80 (Some (lit ''%.20s - %zu bytes %zu,%zu'')) args
    = Inr (Some (status_text @ 0 # r), k)"
proof -
  let ?fmt = "chars ''%.20s - %zu bytes %zu,%zu''"
  have r: "render ?fmt args = status_text" by (simp add: status_text_def)
  have "args_ok 31 ?fmt args" and "0 \<notin> set ?fmt" by simp_all
  from vsnprintf_text [OF _ _ _ this(2,1), of 80 "replicate 80 0"]
  show ?thesis unfolding r lit_def snprintf_def by (simp add: status_text_def)
qed

definition welcome_text :: "u32 \<Rightarrow> u8 list" where
  "welcome_text cols =
     (let pad = unat (cols - min 23 cols) div 2
      in (if pad = 0 then [] else 126 # replicate (pad - 1) 32) @ chars ''Editor -- version 2.0.0'')"

definition editor_text :: "'a editor_scheme \<Rightarrow> u8 list" where
  "editor_text s =
     (if E_buffer s \<noteq> 0 then shown (unat (E_screen_rows s)) (unat (E_screen_cols s)) (ed_text s)
      else if E_screen_rows s > 2 then welcome_text (E_screen_cols s)
      else []) @ status_text"

lemma write_chars_view:
  "term_ok s \<Longrightarrow>
   view (fold terminal_write_char cs s) = fold (scr_write (terminal_color s)) cs (view s) \<and>
   term_ok (fold terminal_write_char cs s) \<and> term_only s (fold terminal_write_char cs s)"
proof (induction cs arbitrary: s)
  case (Cons c cs)
  note w = terminal_write_char_view [OF Cons.prems, of c]
  from Cons.IH [OF w(2)] w term_only_fields(1) [OF w(3)] term_only_trans [OF w(3)] show ?case by simp
qed simp

lemma show_welcome_view:
  assumes ok: "term_ok s"
  shows "\<exists>s'. show_welcome cols s = Inr s' \<and> term_ok s' \<and> term_only s s' \<and>
    view s' = fold (scr_write (terminal_color s)) (welcome_text cols) (view s)"
proof -
  let ?w = "chars ''Editor -- version 2.0.0''"
  let ?p = "(cols - min 23 cols) div 2"
  let ?cs = "if ?p = 0 then [] else 126 # replicate (unat ?p - 1) 32"
  have nz: "0 \<notin> set ?w" "takeWhile (\<lambda>c. c \<noteq> 0) (lit ''Editor -- version 2.0.0'') = ?w"
    by (simp_all add: lit_def)
  define w where "w = lit ''Editor -- version 2.0.0''"
  have len: "arr_strlen w = Inr 23" using arr_strlen_cstr [OF nz(1), of "[]"] by (simp add: w_def lit_def)
  have m: "(if of_nat 23 > cols then cols else of_nat 23) = min 23 cols" by (auto simp: min_def)
  have blanks: "fold (\<lambda>i. terminal_write_char 32) [0..<n] t = fold terminal_write_char (replicate n 32) t" for n t
    by (induction n arbitrary: t) (simp_all flip: replicate_append_same)
  have "show_welcome cols s = Inr (terminal_write_string w (fold terminal_write_char ?cs s))"
    unfolding show_welcome_def w_def [symmetric] len rbind_simps Let_def m
    using unat_pred [of ?p] by (cases "?p = 0") (simp_all add: blanks)
  moreover have "welcome_text cols = ?cs @ ?w"
    by (simp add: welcome_text_def Let_def unat_div unat_eq_zero [symmetric])
  moreover note v = write_chars_view [OF ok, of ?cs]
  ultimately show ?thesis
    using terminal_write_string_view [of "fold terminal_write_char ?cs s" w]
      v term_only_fields(1) [of s "fold terminal_write_char ?cs s"]
      term_only_trans [of s "fold terminal_write_char ?cs s"] nz(2)
    unfolding w_def [symmetric] by auto
qed

lemma movecursor_view [simp]:
  "view (terminal_movecursor x y s) = view s" "term_ok (terminal_movecursor x y s) = term_ok s"
  "terminal_color (terminal_movecursor x y s) = terminal_color s"
  by (simp_all add: view_def term_ok_def terminal_movecursor_eq)

text \<open>The text block lies in the heap, above the VGA window.\<close>

definition text_apart :: "'a editor_scheme \<Rightarrow> bool" where
  "text_apart s \<longleftrightarrow> E_buffer s \<noteq> 0 \<longrightarrow> unat (E_buffer_size s) + 1 < 2 ^ 32 \<and>
     (\<forall>i < unat (E_buffer_size s). \<not> in_run (E_buffer s + of_nat i) (terminal_buffer s) 4000)"

lemma term_only_editor:
  assumes "term_only s s'"
  shows "E_buffer s' = E_buffer s" "E_buffer_size s' = E_buffer_size s" "E_cursor_x s' = E_cursor_x s"
    "E_cursor_y s' = E_cursor_y s" "E_filename s' = E_filename s" "E_screen_rows s' = E_screen_rows s"
    "E_screen_cols s' = E_screen_cols s" "E_is_modified s' = E_is_modified s"
    "keyboard_buffer s' = keyboard_buffer s" "buffer_start s' = buffer_start s"
    "buffer_end s' = buffer_end s"
  using assms by (auto simp: term_only_def)

lemma editor_refresh_view:
  assumes ok: "term_ok s" and apart: "text_apart s"
  obtains s' where "editor_refresh_screen s = Inr s'" "term_ok s'" "term_only s s'"
    "view s' = fold (scr_write (terminal_color s)) (editor_text s)
       (unat (terminal_row s), unat (terminal_column s), replicate cell_count (blank s))"
proof -
  let ?c = "terminal_clear s" and ?f = "scr_write (terminal_color s)"
  note so = terminal_clear_screen_only [of s]
  have c: "term_only s ?c" "term_ok ?c" "terminal_color ?c = terminal_color s"
    "view ?c = (unat (terminal_row s), unat (terminal_column s), replicate cell_count (blank s))"
    using screen_only_term_only [OF so] screen_only_fields [OF so] ok
    by (simp_all add: term_ok_def view_def cells_terminal_clear)
  note E = term_only_editor [OF c(1)]
  let ?body = "if E_buffer s \<noteq> 0 then shown (unat (E_screen_rows s)) (unat (E_screen_cols s)) (ed_text s)
      else if E_screen_rows s > 2 then welcome_text (E_screen_cols s) else []"
  define r where "r = (if E_buffer ?c \<noteq> 0
      then Inr (refresh_lines (E_buffer ?c) (E_buffer_size ?c) (E_screen_rows ?c) (E_screen_cols ?c) 0 0 ?c)
      else if E_screen_rows ?c > 2 then show_welcome (E_screen_cols ?c) ?c else Inr ?c)"
  obtain t where t: "r = Inr t" "term_ok t" "term_only ?c t" "view t = fold ?f ?body (view ?c)"
  proof (cases "E_buffer s = 0")
    case True
    show ?thesis
    proof (cases "E_screen_rows s > 2")
      case rows: True
      then show ?thesis
        using show_welcome_view [OF c(2), of "E_screen_cols s"] True E that c(3) by (auto simp: r_def)
    qed (use True E that [of ?c] c in \<open>simp add: r_def\<close>)
  next
    case False
    then have a: "unat (E_buffer_size s) + 1 < 2 ^ 32"
      "\<And>i. i < unat (E_buffer_size s) \<Longrightarrow> \<not> in_run (E_buffer s + of_nat i) (terminal_buffer s) 4000"
      using apart by (auto simp: text_apart_def)
    have "bytes_at (ram ?c) (E_buffer s) (unat (E_buffer_size s)) = ed_text s"
      unfolding ed_text_def by (rule bytes_at_cong) (use term_only_fields(4) [OF c(1)] a(2) in simp)
    from refresh_lines_view [OF c(2) this _ a(1), of "E_screen_rows s" "E_screen_cols s" 0 0]
    show ?thesis
      using False a(2) E c(3) that screen_only_fields(4) [OF so] by (simp add: r_def)
  qed
  have col: "terminal_color t = terminal_color s" using term_only_fields(1) [OF t(3)] c(3) by simp
  obtain rest k where st: "snprintf (Some (replicate 80 0)) 80 (Some (lit ''%.20s - %zu bytes %zu,%zu''))
      [VStr (Some (case E_filename t of Some f \<Rightarrow> cname f | None \<Rightarrow> chars ''[No Name]'')),
       VInt (E_buffer_size t), VInt (E_cursor_y t + 1), VInt (E_cursor_x t + 1)]
    = Inr (Some (status_text @ 0 # rest), k)"
    using snprintf_status by blast
  define u where "u = terminal_movecursor 0 (E_screen_rows t) t"
  define v where "v = terminal_write_string (status_text @ 0 # rest) u"
  have u: "term_ok u" "term_only t u" "view u = view t" "terminal_color u = terminal_color s"
    using t(2) col by (simp_all add: u_def)
  have "takeWhile (\<lambda>c. c \<noteq> 0) (status_text @ 0 # rest) = status_text"
    by (subst takeWhile_append2) (auto simp: status_text_def)
  then have v: "view v = fold ?f status_text (view t)" "term_ok v" "term_only u v"
    using terminal_write_string_view [OF u(1), of "status_text @ 0 # rest"] u by (simp_all add: v_def)
  let ?s' = "terminal_movecursor (E_cursor_x v) (E_cursor_y v) v"
  have "editor_refresh_screen s = Inr ?s'"
    unfolding editor_refresh_screen_def Let_def r_def [symmetric] t(1) rbind_simps st u_def v_def by simp
  moreover have "term_only s ?s'"
    using term_only_trans [OF c(1) term_only_trans [OF t(3) term_only_trans [OF u(2)
      term_only_trans [OF v(3) terminal_movecursor_only]]]] .
  moreover have "view ?s' = fold ?f (editor_text s) (view ?c)"
    using v(1) t(4) by (simp add: editor_text_def)
  ultimately show ?thesis using v(2) c(4) by (intro that [of ?s']) simp_all
qed

subsection \<open>Key presses\<close>

text \<open>The state between two key presses.\<close>

definition session_ok :: "'a editor_scheme \<Rightarrow> (u32 \<times> u32) set \<Rightarrow> bool" where
  "session_ok s L \<longleftrightarrow> ed_ok s L \<and> term_ok s \<and> terminal_buffer s = VGA_MEMORY \<and> kb_ok s"

definition command_key :: "u8 \<Rightarrow> bool" where
  "command_key c \<longleftrightarrow> c = 17 \<or> c = 18 \<or> c = 19"

lemma above_window: "unat HEAP_START \<le> unat x \<Longrightarrow> \<not> in_run x VGA_MEMORY 4000"
  using run_bounds(2) [of x VGA_MEMORY 4000] by (auto simp: VGA_MEMORY_def HEAP_START_def)

lemma session_text_apart:
  assumes "session_ok s L"
  shows "text_apart s"
  unfolding text_apart_def
proof (rule impI, rule conjI)
  assume b: "E_buffer s \<noteq> 0"
  have "ed_ok s L" using assms by (simp add: session_ok_def)
  then obtain L' where L': "ed_blocks s L L'" "heap_live s L'" by (rule ed_okE)
  then obtain k where k: "(E_buffer s, k) \<in> L'" "E_buffer_size s \<le> k"
    using b by (auto simp: ed_blocks_def)
  have k': "unat (E_buffer_size s) \<le> unat k" using k(2) by (simp add: word_le_nat_alt)
  have "E_buffer s \<noteq> 0 \<and> unat (E_buffer s) + unat k < 2 ^ 32" by (rule heap.live_bounds [OF L'(2) k(1)])
  then show "unat (E_buffer_size s) + 1 < 2 ^ 32" using k' unat_gt_0 [of "E_buffer s"] by simp
  show "\<forall>i < unat (E_buffer_size s). \<not> in_run (E_buffer s + of_nat i) (terminal_buffer s) 4000"
  proof (intro allI impI)
    fix i assume "i < unat (E_buffer_size s)"
    then have r: "in_run (E_buffer s + of_nat i) (E_buffer s) (unat k)"
      using k' by (intro heap.in_own_run [OF L'(2) k(1)]) simp
    obtain bs where "heap_ok s bs" "L' = used HEAP_START bs" using L'(2) unfolding heap_live_def by blast
    then have "unat HEAP_START \<le> unat (E_buffer s + of_nat i)"
      using used_bounds [OF _ _ r, of HEAP_START bs] k(1) heap_ok_bound [of s bs] by auto
    then show "\<not> in_run (E_buffer s + of_nat i) (terminal_buffer s) 4000"
      using assms above_window by (simp add: session_ok_def)
  qed
qed

text \<open>Terminal output leaves the session as it is.\<close>

lemma term_only_session:
  assumes only: "term_only s s'" and ok: "session_ok s L" and "term_ok s'"
  shows "session_ok s' L" and "kept L s s'" and "heap_slack k s \<Longrightarrow> heap_slack k s'"
    and "ed_view s' = ed_view s" and "kb_queue s' = kb_queue s"
proof -
  note E = term_only_editor [OF only]
  have buf: "terminal_buffer s = VGA_MEMORY" using ok by (simp add: session_ok_def)
  have same: "ram s' x = ram s x" if "unat HEAP_START \<le> unat x" for x
    using term_only_fields(4) [OF only] above_window [OF that] buf by simp
  note start = term_only_fields(3) [OF only]
  have "ed_ok s L" using ok by (simp add: session_ok_def)
  then obtain L' where L': "ed_blocks s L L'" "heap_live s L'" "L \<subseteq> L'" "E_cursor_x s \<le> E_buffer_size s"
    by (rule ed_okE)
  have live: "heap_live s' L'" by (rule heap_live_above(1) [OF L'(2) start same])
  have "ed_blocks s' L L'" using L'(1) E(1,2) by (simp only: ed_blocks_def)
  then have "ed_ok s' L" using L'(4) live E(2,3) unfolding ed_ok_def by auto
  moreover show q: "kb_queue s' = kb_queue s" using E by (simp add: kb_queue_def)
  ultimately show "session_ok s' L"
    using ok assms(3) E term_only_fields(2) [OF only] by (simp add: session_ok_def kb_ok_def)
  show "kept L s s'"
    unfolding kept_def using heap_live_above(2) [OF L'(2) start same] L'(3) by blast
  show "heap_slack k s'" if "heap_slack k s" by (rule heap_slack_above [OF L'(2) start same that])
  have "ed_text s' = ed_text s"
  proof (cases "E_buffer s = 0")
    case True
    then show ?thesis using L'(1) E by (simp add: ed_text_def ed_blocks_def)
  next
    case False
    then have "\<not> in_run (E_buffer s + of_nat i) (terminal_buffer s) 4000" if "i < unat (E_buffer_size s)" for i
      using session_text_apart [OF ok] that by (simp add: text_apart_def)
    then show ?thesis
      unfolding ed_text_def E by (intro bytes_at_cong term_only_fields(4) [OF only]) simp
  qed
  then show "ed_view s' = ed_view s" using E by (simp add: ed_view_def)
qed

text \<open>The fields that editing and refreshing leave alone.\<close>

lemma ed_only_fields:
  assumes "ed_only s s'"
  shows "terminal_row s' = terminal_row s" "terminal_column s' = terminal_column s"
    "terminal_buffer s' = terminal_buffer s" "terminal_color s' = terminal_color s"
    "E_screen_cols s' = E_screen_cols s" "E_screen_rows s' = E_screen_rows s" "E_filename s' = E_filename s"
    "kb_ok s' = kb_ok s" "kb_queue s' = kb_queue s"
  using assms by (auto simp: ed_only_def kb_ok_def kb_queue_def)

lemma ed_only_session:
  "ed_only s s' \<Longrightarrow> session_ok s L \<Longrightarrow> ed_ok s' L \<Longrightarrow> session_ok s' L"
  by (simp add: session_ok_def term_ok_def ed_only_fields)

text \<open>Changes of the cursor and of the modified flag.\<close>

lemma cursor_fields:
  assumes s': "s' = s\<lparr>E_cursor_x := x, E_cursor_y := y, E_is_modified := b\<rparr>" and "x \<le> E_buffer_size s"
  shows "session_ok s L \<Longrightarrow> session_ok s' L" and "kept L s s'" and "heap_slack k s \<Longrightarrow> heap_slack k s'"
    and "ed_view s' = (ed_text s, x, y)" and "kb_queue s' = kb_queue s"
proof -
  have live: "heap_live s' L' = heap_live s L'" and sl: "heap_slack k s' = heap_slack k s"
    and bl: "ed_blocks s' L L' = ed_blocks s L L'" for L L'
    by (simp_all add: s' heap_live_def heap_ok_def heap_slack_def ed_blocks_def)
  show q: "kb_queue s' = kb_queue s" by (simp add: s' kb_queue_def)
  show "session_ok s' L" if "session_ok s L"
    using that q assms(2)
    by (simp add: session_ok_def ed_ok_def kb_ok_def term_ok_def live bl) (simp add: s')
  show "kept L s s'" by (simp add: kept_def s')
  show "heap_slack k s \<Longrightarrow> heap_slack k s'" using sl by simp
  show "ed_view s' = (ed_text s, x, y)" by (simp add: s' ed_view_def ed_text_def)
qed

text \<open>What editing leaves alone: geometry, cursor and colour of the terminal, the window of the editor.\<close>

definition same_window :: "'a editor_scheme \<Rightarrow> 'a editor_scheme \<Rightarrow> bool" where
  "same_window s s' \<longleftrightarrow> terminal_row s' = terminal_row s \<and> terminal_column s' = terminal_column s \<and>
     terminal_color s' = terminal_color s \<and> E_screen_cols s' = E_screen_cols s \<and>
     E_screen_rows s' = E_screen_rows s \<and> E_filename s' = E_filename s \<and> kb_queue s' = kb_queue s"

lemma edit_then_flag:
  assumes ed: "ed_ok s1 L" "heap_slack k s1" "kept L s s1" "ed_only s s1" and ok: "session_ok s L"
    and s': "s' = s1\<lparr>E_cursor_x := x, E_cursor_y := y, E_is_modified := b\<rparr>" and "x \<le> E_buffer_size s1"
  shows "session_ok s' L" "kept L s s'" "heap_slack k s'" "ed_view s' = (ed_text s1, x, y)" "same_window s s'"
proof -
  note F = ed_only_fields [OF ed(4)] and C = cursor_fields [OF assms(6,7)]
  have s1: "session_ok s1 L" by (rule ed_only_session [OF ed(4) ok ed(1)])
  show "session_ok s' L" "heap_slack k s'" using C(1) [OF s1] C(3) [OF ed(2)] by simp_all
  show "kept L s s'" by (rule kept_trans [OF ed(3) C(2)])
  show "ed_view s' = (ed_text s1, x, y)" by (rule C(4))
  show "same_window s s'" unfolding same_window_def C(5) using F by (simp add: s')
qed

lemma editor_key_press:
  assumes ok: "session_ok s L" and c: "\<not> command_key c"
    and slack: "heap_slack (14 + unat (E_buffer_size s) + k) s"
  obtains s' where "editor_key call c s = Some (Inr (Running s'))" "session_ok s' L" "kept L s s'"
    "heap_slack k s'" "ed_view s' = ed_press (E_screen_cols s) c (ed_view s)" "same_window s s'"
proof -
  have ed: "ed_ok s L" using ok by (simp add: session_ok_def)
  have c': "c \<noteq> 17" "c \<noteq> 18" "c \<noteq> 19" using c by (simp_all add: command_key_def)
  consider "c = 13 \<or> c = 10" | "c = 8" | "c \<noteq> 13" "c \<noteq> 10" "c \<noteq> 8" "32 \<le> c \<and> c < 127"
    | "c \<noteq> 13" "c \<noteq> 10" "c \<noteq> 8" "\<not> (32 \<le> c \<and> c < 127)" by blast
  then show ?thesis
  proof cases
    case 1
    obtain s1 where s1: "editor_insert_char 10 s = Some s1" "ed_ok s1 L" "heap_slack k s1" "kept L s s1"
      "ed_view s1 = ed_insert (E_screen_cols s) 10 (ed_view s)" "ed_only s s1"
      by (rule editor_insert [OF ed slack])
    define s' where "s' = s1\<lparr>E_cursor_x := 0, E_cursor_y := E_cursor_y s1 + 1, E_is_modified := True\<rparr>"
    note r = edit_then_flag [OF s1(2,3,4,6) ok s'_def]
    have "editor_key call c s = Some (Inr (Running s'))" using 1 s1(1) by (simp add: editor_key_def s'_def)
    moreover have "ed_press (E_screen_cols s) c (ed_view s) = ed_newline (ed_view s1)"
      unfolding ed_press_def s1(5) using 1 by simp
    ultimately show ?thesis using r by (intro that [of s']) (simp_all add: ed_view_def)
  next
    case 2
    have "heap_slack (12 + unat (E_buffer_size s) + k) s" by (rule heap_slack_mono [OF slack]) simp
    from editor_delete [OF ed this] obtain s1 where s1: "editor_delete_char s = Some s1" "ed_ok s1 L"
      "heap_slack k s1" "kept L s s1" "ed_view s1 = ed_delete (ed_view s)" "ed_only s s1" .
    define s' where "s' = s1\<lparr>E_cursor_x := E_cursor_x s1, E_cursor_y := E_cursor_y s1, E_is_modified := True\<rparr>"
    have "E_cursor_x s1 \<le> E_buffer_size s1" using s1(2) by (rule ed_okE)
    note r = edit_then_flag [OF s1(2,3,4,6) ok s'_def this]
    have "editor_key call c s = Some (Inr (Running s'))" using 2 s1(1) by (simp add: editor_key_def s'_def)
    moreover have "ed_press (E_screen_cols s) c (ed_view s) = ed_view s1"
      unfolding ed_press_def s1(5) using 2 by simp
    ultimately show ?thesis using r by (intro that [of s']) (simp_all add: ed_view_def)
  next
    case 3
    obtain s1 where s1: "editor_insert_char c s = Some s1" "ed_ok s1 L" "heap_slack k s1" "kept L s s1"
      "ed_view s1 = ed_insert (E_screen_cols s) c (ed_view s)" "ed_only s s1"
      by (rule editor_insert [OF ed slack])
    define s' where "s' = s1\<lparr>E_cursor_x := E_cursor_x s1, E_cursor_y := E_cursor_y s1, E_is_modified := True\<rparr>"
    have "E_cursor_x s1 \<le> E_buffer_size s1" using s1(2) by (rule ed_okE)
    note r = edit_then_flag [OF s1(2,3,4,6) ok s'_def this]
    have "editor_key call c s = Some (Inr (Running s'))" using 3 c' s1(1) by (simp add: editor_key_def s'_def)
    moreover have "ed_press (E_screen_cols s) c (ed_view s) = ed_view s1"
      unfolding ed_press_def s1(5) using 3 by simp
    ultimately show ?thesis using r by (intro that [of s']) (simp_all add: ed_view_def)
  next
    case 4
    have "editor_key call c s = Some (Inr (Running s))"
      using 4 c' unfolding editor_key_def by auto
    moreover have "ed_press (E_screen_cols s) c (ed_view s) = ed_view s"
      unfolding ed_press_def using 4 by auto
    ultimately show ?thesis
      using ok heap_slack_mono [OF slack, of k]
      by (intro that [of s]) (simp_all add: kept_def same_window_def)
  qed
qed

text \<open>Taking a key out of the queue.\<close>

lemma getchar_session:
  assumes ok: "session_ok s L" and q: "kb_queue s = c # cs"
  obtains s1 where "keyboard_getchar s = (c, s1)" "c \<noteq> 0" "session_ok s1 L" "kept L s s1"
    "\<forall>k. heap_slack k s \<longrightarrow> heap_slack k s1" "ed_view s1 = ed_view s" "E_buffer_size s1 = E_buffer_size s"
    "same_window s (s1\<lparr>buffer_start := buffer_start s\<rparr>)" "kb_queue s1 = cs"
proof -
  have kb: "kb_ok s" using ok by (simp add: session_ok_def)
  note g = keyboard_getchar_queue [OF kb]
  let ?s1 = "snd (keyboard_getchar s)"
  have "buffer_start s \<noteq> buffer_end s" using keyboard_getchar_empty [OF kb] q by auto
  then obtain x where x: "?s1 = s\<lparr>buffer_start := x\<rparr>" by (auto simp: keyboard_getchar_def Let_def)
  have "heap_live ?s1 L' = heap_live s L'" "heap_slack k ?s1 = heap_slack k s"
    "ed_blocks ?s1 L L' = ed_blocks s L L'" for k L'
    by (simp_all add: x heap_live_def heap_ok_def heap_slack_def ed_blocks_def)
  note same = this
  have "session_ok ?s1 L"
    using ok g(3) by (simp add: session_ok_def ed_ok_def term_ok_def same) (simp add: x)
  moreover have "keyboard_getchar s = (c, ?s1)" using g(2) [OF q] by (metis prod.collapse)
  moreover have "c \<noteq> 0" using kb q by (simp add: kb_ok_def)
  moreover have "ed_view ?s1 = ed_view s" by (simp add: x ed_view_def ed_text_def)
  ultimately show ?thesis
    using g(2) [OF q] same by (intro that [of ?s1]) (simp_all add: x kept_def same_window_def kb_queue_def)
qed

text \<open>One turn of the main loop with a key waiting.\<close>

lemma keypress_session:
  assumes ok: "session_ok s L" and q: "kb_queue s = c # cs" and c: "\<not> command_key c"
    and slack: "heap_slack (14 + unat (E_buffer_size s) + k) s"
  obtains s' where "editor_process_keypress call s = Some (Inr (Running s'))" "session_ok s' L"
    "kept L s s'" "heap_slack k s'" "ed_view s' = ed_press (E_screen_cols s) c (ed_view s)"
    "kb_queue s' = cs" "E_screen_cols s' = E_screen_cols s"
    "view s' = fold (scr_write (terminal_color s)) (editor_text s')
       (unat (terminal_row s), unat (terminal_column s), replicate cell_count (blank s))"
proof -
  obtain s1 where s1: "keyboard_getchar s = (c, s1)" "c \<noteq> 0" "session_ok s1 L" "kept L s s1"
    "\<forall>k. heap_slack k s \<longrightarrow> heap_slack k s1" "ed_view s1 = ed_view s" "E_buffer_size s1 = E_buffer_size s"
    "same_window s (s1\<lparr>buffer_start := buffer_start s\<rparr>)" "kb_queue s1 = cs"
    by (rule getchar_session [OF ok q])
  have w1: "terminal_row s1 = terminal_row s" "terminal_column s1 = terminal_column s"
    "terminal_color s1 = terminal_color s" "E_screen_cols s1 = E_screen_cols s"
    using s1(8) by (simp_all add: same_window_def)
  have "heap_slack (14 + unat (E_buffer_size s1) + k) s1" using s1(5,7) slack by simp
  from editor_key_press [OF s1(3) c this] obtain s2 where
    s2: "editor_key call c s1 = Some (Inr (Running s2))" "session_ok s2 L" "kept L s1 s2"
    "heap_slack k s2" "ed_view s2 = ed_press (E_screen_cols s1) c (ed_view s1)" "same_window s1 s2" .
  have w2: "terminal_row s2 = terminal_row s" "terminal_column s2 = terminal_column s"
    "terminal_color s2 = terminal_color s" "E_screen_cols s2 = E_screen_cols s" "kb_queue s2 = cs"
    using s2(6) w1 s1(9) by (simp_all add: same_window_def)
  have "term_ok s2" using s2(2) by (simp add: session_ok_def)
  then obtain s' where s': "editor_refresh_screen s2 = Inr s'" "term_ok s'" "term_only s2 s'"
    "view s' = fold (scr_write (terminal_color s2)) (editor_text s2)
       (unat (terminal_row s2), unat (terminal_column s2), replicate cell_count (blank s2))"
    by (rule editor_refresh_view [OF _ session_text_apart [OF s2(2)]])
  note t = term_only_session [OF s'(3) s2(2) s'(2)] and E = term_only_editor [OF s'(3)]
  have "editor_text s' = editor_text s2"
    using t(4) E by (simp add: editor_text_def ed_view_def)
  then have vw: "view s' = fold (scr_write (terminal_color s)) (editor_text s')
       (unat (terminal_row s), unat (terminal_column s), replicate cell_count (blank s))"
    using s'(4) w2 by simp
  have run: "editor_process_keypress call s = Some (Inr (Running s'))"
    using s1(1,2) s2(1) s'(1) by (simp add: editor_process_keypress_def)
  show ?thesis
  proof (rule that [OF run t(1) _ t(3) [OF s2(4)] _ _ _ vw])
    show "kept L s s'" by (rule kept_trans [OF s1(4) kept_trans [OF s2(3) t(2)]])
    show "ed_view s' = ed_press (E_screen_cols s) c (ed_view s)" using t(4) s2(5) s1(6) w1 by simp
    show "kb_queue s' = cs" "E_screen_cols s' = E_screen_cols s" using t(5) w2 E by simp_all
  qed
qed

subsection \<open>The main loop\<close>

text \<open>Some turns of the loop \<^verbatim>\<open>while(1) editor_process_keypress()\<close> of \<^verbatim>\<open>kernel_main\<close>.\<close>

primrec main_loop ::
  "(u32 \<Rightarrow> 'a editor_scheme \<Rightarrow> 'a editor_scheme option) \<Rightarrow> nat \<Rightarrow> 'a editor_scheme \<Rightarrow>
   (fault + 'a editor_scheme run) option" where
  "main_loop call 0 s = Some (Inr (Running s))"
| "main_loop call (Suc n) s =
     do {
       r \<leftarrow> editor_process_keypress call s;
       case r of Inr (Running s) \<Rightarrow> main_loop call n s | _ \<Rightarrow> Some r
     }"

lemma ed_press_length: "length (fst (ed_press cols c e)) \<le> Suc (length (fst e))"
  by (cases e) (auto simp: ed_press_def)

lemma length_ed_view: "length (fst (ed_view s)) = unat (E_buffer_size s)"
  by (simp add: ed_view_def ed_text_def)

lemma main_loop_session:
  assumes "session_ok s L" and "kb_queue s = cs" and "\<forall>c \<in> set cs. \<not> command_key c"
    and "heap_slack (length cs * (15 + unat (E_buffer_size s) + length cs) + k) s"
  shows "\<exists>s'. main_loop call (length cs) s = Some (Inr (Running s')) \<and> session_ok s' L \<and> kept L s s' \<and>
    heap_slack k s' \<and> ed_view s' = fold (ed_press (E_screen_cols s)) cs (ed_view s) \<and> kb_queue s' = []"
  using assms
proof (induction cs arbitrary: s)
  case Nil
  then show ?case by (simp add: kept_def)
next
  case (Cons c cs)
  let ?n = "length cs" and ?z = "unat (E_buffer_size s)"
  have le: "14 + ?z + (?n * (16 + ?z + ?n) + k) \<le> length (c # cs) * (15 + ?z + length (c # cs)) + k"
    by (simp add: algebra_simps)
  have nc: "\<not> command_key c" using Cons.prems(3) by simp
  from keypress_session [OF Cons.prems(1,2) nc heap_slack_mono [OF Cons.prems(4) le]]
  obtain s1 where s1: "editor_process_keypress call s = Some (Inr (Running s1))" "session_ok s1 L"
    "kept L s s1" "heap_slack (?n * (16 + ?z + ?n) + k) s1" "ed_view s1 = ed_press (E_screen_cols s) c (ed_view s)"
    "kb_queue s1 = cs" "E_screen_cols s1 = E_screen_cols s" by metis
  have "unat (E_buffer_size s1) \<le> Suc ?z"
    using ed_press_length [of "E_screen_cols s" c "ed_view s"] s1(5) by (metis length_ed_view)
  then have "?n * (15 + unat (E_buffer_size s1) + ?n) + k \<le> ?n * (16 + ?z + ?n) + k" by simp
  note sl = heap_slack_mono [OF s1(4) this]
  have "\<forall>c \<in> set cs. \<not> command_key c" using Cons.prems(3) by simp
  from Cons.IH [OF s1(2,6) this sl] s1 show ?case using kept_trans [OF s1(3)] by auto
qed

subsection \<open>Where keys come from\<close>

text \<open>The characters that the keyboard can produce: backspace, tab, line feed and printable ones.\<close>

definition typable :: "u8 \<Rightarrow> bool" where
  "typable c \<longleftrightarrow> c = 8 \<or> c = 9 \<or> c = 10 \<or> (32 \<le> c \<and> c < 127)"

lemma typable_no_command: "typable c \<Longrightarrow> \<not> command_key c"
  by (auto simp: typable_def command_key_def)

lemma tables_typable:
  "list_all (\<lambda>c. c = 0 \<or> typable c \<and> (is_lower c \<longrightarrow> typable (c - 32))) scancode_to_ascii"
  "list_all (\<lambda>c. c = 0 \<or> typable c) scancode_to_ascii_shift"
  by (simp_all add: scancode_to_ascii_def scancode_to_ascii_shift_def typable_def is_lower_def)

lemma key_char_typable:
  assumes "unat v < 58" and "key_char shift caps v \<noteq> 0"
  shows "typable (key_char shift caps v)"
proof -
  have "scancode_to_ascii ! unat v = 0 \<or> typable (scancode_to_ascii ! unat v) \<and>
      (is_lower (scancode_to_ascii ! unat v) \<longrightarrow> typable (scancode_to_ascii ! unat v - 32))"
    and "scancode_to_ascii_shift ! unat v = 0 \<or> typable (scancode_to_ascii_shift ! unat v)"
    using tables_typable assms(1) by (simp_all add: list_all_length)
  then show ?thesis using assms(2) unfolding key_char_def by (auto simp: Let_def is_lower_def)
qed

lemma key_press_typable:
  "\<forall>c \<in> set q. typable c \<Longrightarrow> key_press v (sh, ca, q) = (sh', ca', q') \<Longrightarrow> \<forall>c \<in> set q'. typable c"
  using key_char_typable [of v sh ca] by (auto split: if_splits)

lemma handler_typable:
  assumes "kb_ok s" and "\<forall>c \<in> set (kb_queue s). typable c"
  shows "\<forall>c \<in> set (kb_queue (keyboard_handler s)). typable c"
  by (rule key_press_typable [OF assms(2)
        keyboard_handler_view(1) [OF assms(1), unfolded kbd_view_def, symmetric]])

text \<open>What an interrupt may change, and that the session does not depend on it.\<close>

definition irq_only :: "'a editor_scheme \<Rightarrow> 'a editor_scheme \<Rightarrow> bool" where
  "irq_only s s' \<longleftrightarrow> (\<exists>es kb be sh ca tk. s' = s\<lparr>events := es, keyboard_buffer := kb, buffer_end := be,
     shift_pressed := sh, caps_lock := ca, tick := tk\<rparr>)"

lemma irq_onlyI:
  "s' = s\<lparr>events := es, keyboard_buffer := kb, buffer_end := be, shift_pressed := sh, caps_lock := ca,
     tick := tk\<rparr> \<Longrightarrow> irq_only s s'"
  unfolding irq_only_def by blast

lemma irq_only_trans: "irq_only s t \<Longrightarrow> irq_only t u \<Longrightarrow> irq_only s u"
  unfolding irq_only_def by fastforce

lemma irq_only_refl: "irq_only s s"
  by (rule irq_onlyI [where es = "events s" and kb = "keyboard_buffer s" and be = "buffer_end s"
    and sh = "shift_pressed s" and ca = "caps_lock s" and tk = "tick s"]) simp

lemma irq_only_fields:
  "irq_only s (s\<lparr>events := es\<rparr>)" "irq_only s (s\<lparr>shift_pressed := b\<rparr>)" "irq_only s (s\<lparr>caps_lock := b\<rparr>)"
  "irq_only s (s\<lparr>tick := n\<rparr>)" "irq_only s (s\<lparr>keyboard_buffer := kb, buffer_end := be\<rparr>)"
proof -
  show "irq_only s (s\<lparr>events := es\<rparr>)"
    by (rule irq_onlyI [where es = es and kb = "keyboard_buffer s" and be = "buffer_end s"
      and sh = "shift_pressed s" and ca = "caps_lock s" and tk = "tick s"]) simp
  show "irq_only s (s\<lparr>shift_pressed := b\<rparr>)"
    by (rule irq_onlyI [where es = "events s" and kb = "keyboard_buffer s" and be = "buffer_end s"
      and sh = b and ca = "caps_lock s" and tk = "tick s"]) simp
  show "irq_only s (s\<lparr>caps_lock := b\<rparr>)"
    by (rule irq_onlyI [where es = "events s" and kb = "keyboard_buffer s" and be = "buffer_end s"
      and sh = "shift_pressed s" and ca = b and tk = "tick s"]) simp
  show "irq_only s (s\<lparr>tick := n\<rparr>)"
    by (rule irq_onlyI [where es = "events s" and kb = "keyboard_buffer s" and be = "buffer_end s"
      and sh = "shift_pressed s" and ca = "caps_lock s" and tk = n]) simp
  show "irq_only s (s\<lparr>keyboard_buffer := kb, buffer_end := be\<rparr>)"
    by (rule irq_onlyI [where es = "events s" and kb = kb and be = be
      and sh = "shift_pressed s" and ca = "caps_lock s" and tk = "tick s"]) simp
qed

lemma irq_handler_only: "irq_only s (irq_handler regs s)"
proof -
  have kb: "irq_only t (keyboard_handler t)" for t :: "'a editor_scheme"
  proof -
    define v where "v = device t (events t) KEYBOARD_DATA_PORT"
    let ?t = "t\<lparr>events := events t @ [In KEYBOARD_DATA_PORT v]\<rparr>"
    have put: "irq_only ?t (buffer_put c ?t)" for c
      by (simp add: buffer_put_def Let_def irq_only_fields irq_only_refl)
    have "irq_only ?t (keyboard_handler t)"
      using put by (simp add: keyboard_handler_def inb_def Let_def v_def [symmetric] irq_only_fields irq_only_refl)
    then show ?thesis by (rule irq_only_trans [OF irq_only_fields(1)])
  qed
  let ?n = "int_no regs s"
  define t where "t = outb 0x20 0x20 (if ?n \<ge> 40 then outb 0xA0 0x20 s else s)"
  have t: "irq_only s t"
    by (simp add: t_def outb_def irq_only_fields)
  have "irq_handler regs s = (if ?n - 32 = 0 then timer_handler t
      else if ?n - 32 = 1 then keyboard_handler t else t)"
    by (simp add: irq_handler_def Let_def t_def)
  then show ?thesis
    using t irq_only_trans [OF t kb] irq_only_trans [OF t irq_only_fields(4)]
    by (simp add: timer_handler_def)
qed

lemma irq_handler_queue:
  assumes "kb_ok s" and "\<forall>c \<in> set (kb_queue s). typable c"
  shows "kb_ok (irq_handler regs s)" and "\<forall>c \<in> set (kb_queue (irq_handler regs s)). typable c"
proof -
  let ?n = "int_no regs s"
  define t where "t = outb 0x20 0x20 (if ?n \<ge> 40 then outb 0xA0 0x20 s else s)"
  have t: "kb_ok t" "kb_queue t = kb_queue s"
    using assms(1) by (simp_all add: t_def outb_def kb_ok_def kb_queue_def)
  have h: "irq_handler regs s = (if ?n - 32 = 0 then t\<lparr>tick := tick t + 1\<rparr>
      else if ?n - 32 = 1 then keyboard_handler t else t)"
    by (simp add: irq_handler_def Let_def t_def timer_handler_def)
  show "kb_ok (irq_handler regs s)"
    unfolding h using t(1) keyboard_handler_view(2) [OF t(1)] by (simp add: kb_ok_def kb_queue_def)
  show "\<forall>c \<in> set (kb_queue (irq_handler regs s)). typable c"
    unfolding h using handler_typable [OF t(1)] assms(2) t(2) by (simp add: kb_queue_def)
qed

definition sys_ok :: "'a editor_scheme \<Rightarrow> (u32 \<times> u32) set \<Rightarrow> bool" where
  "sys_ok s L \<longleftrightarrow> session_ok s L \<and> (\<forall>c \<in> set (kb_queue s). typable c)"

lemma irq_sys_ok:
  fixes regs :: u32
  assumes ok: "sys_ok s L"
  defines "s' \<equiv> irq_handler regs s"
  shows "sys_ok s' L" and "kept L s s'" and "heap_slack k s \<Longrightarrow> heap_slack k s'" and "ed_view s' = ed_view s"
    and "E_buffer_size s' = E_buffer_size s"
proof -
  have kb: "kb_ok s" "\<forall>c \<in> set (kb_queue s). typable c" using ok by (simp_all add: sys_ok_def session_ok_def)
  obtain es kb' be sh ca tk where s': "s' = s\<lparr>events := es, keyboard_buffer := kb', buffer_end := be,
     shift_pressed := sh, caps_lock := ca, tick := tk\<rparr>"
    using irq_handler_only [of s regs] unfolding irq_only_def s'_def by blast
  have same: "heap_live s' L' = heap_live s L'" "heap_slack j s' = heap_slack j s"
    "ed_blocks s' L L' = ed_blocks s L L'" for L' j
    by (simp_all add: s' heap_live_def heap_ok_def heap_slack_def ed_blocks_def)
  have "ed_ok s' L = ed_ok s L" "term_ok s' = term_ok s" "terminal_buffer s' = terminal_buffer s"
    unfolding ed_ok_def same by (simp_all add: s' term_ok_def)
  then show "sys_ok s' L"
    using ok irq_handler_queue [OF kb, of regs] by (simp add: sys_ok_def session_ok_def s'_def)
  show "kept L s s'" "heap_slack k s \<Longrightarrow> heap_slack k s'" "ed_view s' = ed_view s"
    "E_buffer_size s' = E_buffer_size s"
    using same by (simp_all add: s' kept_def ed_view_def ed_text_def)
qed

text \<open>One turn with whatever is in the queue.\<close>

lemma turn_sys_ok:
  assumes ok: "sys_ok s L" and slack: "heap_slack (14 + unat (E_buffer_size s) + k) s"
  shows "\<exists>s'. (\<forall>call. editor_process_keypress call s = Some (Inr (Running s'))) \<and> sys_ok s' L \<and>
    kept L s s' \<and> heap_slack k s' \<and> unat (E_buffer_size s') \<le> Suc (unat (E_buffer_size s))"
proof (cases "kb_queue s")
  case Nil
  have "keyboard_getchar s = (0, s)"
    using ok Nil keyboard_getchar_queue(1) [of s] by (simp add: sys_ok_def session_ok_def)
  then have "editor_process_keypress call s = Some (Inr (Running s))" for call
    by (simp add: editor_process_keypress_def)
  then show ?thesis using ok heap_slack_mono [OF slack, of k] by (intro exI [of _ s]) (simp add: kept_def)
next
  case (Cons c cs)
  have ses: "session_ok s L" and ty: "typable c" "\<forall>c \<in> set cs. typable c"
    using ok Cons by (simp_all add: sys_ok_def)
  have any: "editor_process_keypress call s = editor_process_keypress call' s" for call call'
  proof -
    have "fst (keyboard_getchar s) = c"
      using keyboard_getchar_queue(2) [OF _ Cons] ses by (simp add: session_ok_def)
    then obtain s1 where "keyboard_getchar s = (c, s1)" by (metis prod.collapse)
    moreover have "editor_key call c s1 = editor_key call' c s1"
      using typable_no_command [OF ty(1)] unfolding editor_key_def command_key_def by auto
    ultimately show ?thesis by (simp add: editor_process_keypress_def)
  qed
  from keypress_session [OF ses Cons typable_no_command [OF ty(1)] slack, of "\<lambda>_. Some"] obtain t where
    t: "editor_process_keypress (\<lambda>_. Some) s = Some (Inr (Running t))" "session_ok t L" "kept L s t"
    "heap_slack k t" "ed_view t = ed_press (E_screen_cols s) c (ed_view s)" "kb_queue t = cs" by metis
  have "unat (E_buffer_size t) \<le> Suc (unat (E_buffer_size s))"
    using ed_press_length [of "E_screen_cols s" c "ed_view s"] t(5) by (metis length_ed_view)
  moreover have "editor_process_keypress call s = Some (Inr (Running t))" for call
    using any [of call "\<lambda>_. Some"] t(1) by simp
  ultimately show ?thesis using t ty(2) by (intro exI [of _ t]) (simp add: sys_ok_def)
qed

subsection \<open>Properties\<close>

text \<open>A freshly initialised editor on a fresh heap, with some keys waiting.\<close>

definition blank_editor :: "u8 list \<Rightarrow> editor" where
  "blank_editor cs = memory_init (compiler.extend (interrupts.extend
      (blank_interrupts\<lparr>keyboard_buffer := cs @ replicate (KEYBOARD_BUFFER_SIZE - length cs) 0,
         buffer_end := length cs\<rparr>) \<lparr>output_buffer = 0, output_size = 0\<rparr>)
    \<lparr>E_buffer = 0, E_buffer_size = 0, E_cursor_x = 0, E_cursor_y = 0, E_filename = None,
     E_screen_rows = 24, E_screen_cols = 80, E_is_modified = False\<rparr>)"

lemma blank_editor_fields:
  "E_buffer (blank_editor cs) = 0" "E_buffer_size (blank_editor cs) = 0" "E_cursor_x (blank_editor cs) = 0"
  "E_cursor_y (blank_editor cs) = 0" "E_screen_cols (blank_editor cs) = 80" "E_screen_rows (blank_editor cs) = 24"
  "terminal_row (blank_editor cs) = 0" "terminal_column (blank_editor cs) = 0"
  "terminal_buffer (blank_editor cs) = VGA_MEMORY" "buffer_start (blank_editor cs) = 0"
  "terminal_color (blank_editor cs) = 7"
  "buffer_end (blank_editor cs) = length cs"
  "keyboard_buffer (blank_editor cs) = cs @ replicate (KEYBOARD_BUFFER_SIZE - length cs) 0"
  by (simp_all add: blank_editor_def memory_init_def compiler.defs interrupts.defs blank_interrupts_def
      filesystem.defs blank_filesystem_def keyboard.defs blank_keyboard_def)

lemma blank_editor_ok:
  assumes "length cs < 256" and "0 \<notin> set cs"
  shows "session_ok (blank_editor cs) {}" and "kb_queue (blank_editor cs) = cs"
    and "k \<le> 0xF0000000 \<Longrightarrow> heap_slack k (blank_editor cs)"
proof -
  note f = blank_editor_fields [of cs]
  show q: "kb_queue (blank_editor cs) = cs"
    unfolding kb_queue_def f ring_contents_def ring_length_def
    by (rule nth_equalityI) (use assms(1) in \<open>simp_all add: KEYBOARD_BUFFER_SIZE_def nth_append\<close>)
  have "kb_ok (blank_editor cs)" using assms q f by (simp add: kb_ok_def KEYBOARD_BUFFER_SIZE_def)
  moreover have "heap_live (blank_editor cs) {}" unfolding blank_editor_def by (rule memory_init_live)
  ultimately show "session_ok (blank_editor cs) {}"
    using f by (simp add: session_ok_def ed_ok_def ed_blocks_def term_ok_def VGA_WIDTH_def VGA_HEIGHT_def)
  show "heap_slack k (blank_editor cs)" if "k \<le> 0xF0000000"
    unfolding blank_editor_def using that by (rule memory_init_slack)
qed

text \<open>
  C2. The main loop implements the abstract editor: with some keys waiting in the ring, none of
  them a command, and room in the heap for that many insertions, as many turns of the loop
  return, take exactly these keys, and leave text and cursor as folding the abstract key
  function over them gives; the text is in a live block, the blocks of others are unchanged.
\<close>

theorem editor_session:
  assumes "session_ok s L" and "\<forall>c \<in> set (kb_queue s). \<not> command_key c"
    and "heap_slack (length (kb_queue s) * (15 + unat (E_buffer_size s) + length (kb_queue s))) s"
  shows "\<exists>s'. main_loop call (length (kb_queue s)) s = Some (Inr (Running s')) \<and> session_ok s' L \<and>
    kept L s s' \<and> ed_view s' = fold (ed_press (E_screen_cols s)) (kb_queue s) (ed_view s) \<and>
    kb_queue s' = []"
proof -
  have "heap_slack (length (kb_queue s) * (15 + unat (E_buffer_size s) + length (kb_queue s)) + 0) s"
    using assms(3) by simp
  from main_loop_session [OF assms(1) refl assms(2) this] show ?thesis by blast
qed

text \<open>
  Typing \<^verbatim>\<open>ab\<close>, a line feed and \<^verbatim>\<open>c\<close>, then one backspace: not the
  \<^verbatim>\<open>c\<close> is gone but the \<^verbatim>\<open>a\<close>.
\<close>

theorem editor_session_witness:
  "\<exists>s'. main_loop (\<lambda>_. Some) 5 (blank_editor [97, 98, 10, 99, 8]) = Some (Inr (Running s')) \<and>
     ed_text s' = [98, 10, 99]"
proof -
  let ?s = "blank_editor [97, 98, 10, 99, 8]"
  have ok: "session_ok ?s {}" "kb_queue ?s = [97, 98, 10, 99, 8]" by (rule blank_editor_ok; simp)+
  have "heap_slack 1000 ?s" by (rule blank_editor_ok(3)) simp_all
  then have "heap_slack (length (kb_queue ?s) * (15 + unat (E_buffer_size ?s) + length (kb_queue ?s))) ?s"
    by (rule heap_slack_mono) (simp add: ok(2) blank_editor_fields)
  moreover have "\<forall>c \<in> set (kb_queue ?s). \<not> command_key c" by (simp add: ok(2) command_key_def)
  ultimately obtain s' where
    m: "main_loop (\<lambda>_. Some) (length (kb_queue ?s)) ?s = Some (Inr (Running s'))"
    and v: "ed_view s' = fold (ed_press (E_screen_cols ?s)) (kb_queue ?s) (ed_view ?s)"
    using editor_session [OF ok(1)] by blast
  have "ed_view ?s = ([], 0, 0)" by (simp add: ed_view_def ed_text_def blank_editor_fields)
  then have "ed_view s' = ([98, 10, 99], 0, 1)"
    unfolding v ok(2) blank_editor_fields by (simp add: ed_press_def word_le_nat_alt)
  then have "ed_text s' = [98, 10, 99]" by (simp add: ed_view_def)
  moreover have "length (kb_queue ?s) = 5" by (simp add: ok(2))
  ultimately show ?thesis using m by auto
qed

text \<open>
  C10. \<^verbatim>\<open>editor_refresh_screen\<close> returns without a fault, and what it shows is a blank
  screen on which the visible part of the text (at most 24 lines cut to the width, or the
  welcome line) and the status text are written from the position that the terminal cursor
  happened to have, which clearing does not reset. Text, cursor, heap and keys are unchanged.
\<close>

theorem editor_refresh_shows:
  assumes "session_ok s L"
  shows "\<exists>s'. editor_refresh_screen s = Inr s' \<and>
    view s' = fold (scr_write (terminal_color s)) (editor_text s)
      (unat (terminal_row s), unat (terminal_column s), replicate cell_count (make_vgaentry 32 (terminal_color s))) \<and>
    session_ok s' L \<and> kept L s s' \<and> ed_view s' = ed_view s \<and> kb_queue s' = kb_queue s"
proof -
  have "term_ok s" using assms by (simp add: session_ok_def)
  then obtain s' where s': "editor_refresh_screen s = Inr s'" "term_ok s'" "term_only s s'"
    "view s' = fold (scr_write (terminal_color s)) (editor_text s)
       (unat (terminal_row s), unat (terminal_column s), replicate cell_count (blank s))"
    by (rule editor_refresh_view [OF _ session_text_apart [OF assms]])
  with term_only_session [OF s'(3) assms s'(2)] show ?thesis by auto
qed

theorem editor_refresh_shows_witness:
  "\<exists>s'. editor_refresh_screen (blank_editor [97]) = Inr s' \<and> kb_queue s' = [97] \<and>
     view s' = fold (scr_write 7) (126 # replicate 27 32 @ chars ''Editor -- version 2.0.0.20s - zu bytes zu,zu'')
       (0, 0, replicate cell_count 0x720)"
proof -
  have "0 \<notin> set [97 :: u8]" "length [97 :: u8] < 256" by simp_all
  note ok = blank_editor_ok(1,2) [OF this(2,1)]
  have t: "editor_text (blank_editor [97])
      = 126 # replicate 27 32 @ chars ''Editor -- version 2.0.0.20s - zu bytes zu,zu''"
    by (simp add: editor_text_def blank_editor_fields welcome_text_def status_text_def)
  have e: "make_vgaentry 32 7 = 0x720" by (simp add: make_vgaentry_def)
  from editor_refresh_shows [OF ok(1)] show ?thesis
    unfolding t ok(2) blank_editor_fields e unat_0 by blast
qed

end
