(* ===== verification/Preemption.thy ===== *)
theory Preemption
  imports Session
begin

text \<open>
  Interrupts inside a turn of the main loop. The operations of a turn are written out a second
  time with interrupts between their statements: in \<^verbatim>\<open>keyboard_getchar\<close>, in the editing of the
  text, and in the refresh of the screen. The handler works on the key ring, the modifier flags, the
  tick counter and the ports, which no other operation of a turn reads, so a turn does the same
  with and without interrupts in it; the keys that arrive meanwhile wait behind the others.
\<close>

subsection \<open>Points\<close>

text \<open>
  At a point of the program any number of interrupts: \<^term>\<open>fr n\<close> lists the frames of those
  that come at point \<^term>\<open>n\<close>. The routines on memory alone (allocator, string routines) and the
  single outputs of the terminal are one step each.
\<close>

definition irqs :: "u32 list \<Rightarrow> 'a interrupts_scheme \<Rightarrow> 'a interrupts_scheme" where
  "irqs frames s = fold irq_handler frames s"

text \<open>\<^verbatim>\<open>keyboard_getchar\<close>: the test, the load and the store of the index.\<close>

definition keyboard_getchar_p :: "(nat \<Rightarrow> u32 list) \<Rightarrow> 'a interrupts_scheme \<Rightarrow> u8 \<times> 'a interrupts_scheme" where
  "keyboard_getchar_p fr s =
     (if buffer_start s = buffer_end s then (0, irqs (fr 0) s)
      else
        let s = irqs (fr 0) s;
            c = keyboard_buffer s ! buffer_start s;
            s = irqs (fr 1) s;
            s = s\<lparr>buffer_start := (buffer_start s + 1) mod KEYBOARD_BUFFER_SIZE\<rparr>
        in (c, irqs (fr 2) s))"

text \<open>\<^verbatim>\<open>editor_insert_char\<close> in three parts: the old text moves, the character goes in, the cursor on.\<close>

definition move_text_p :: "(nat \<Rightarrow> u32 list) \<Rightarrow> u32 \<Rightarrow> 'a editor_scheme \<Rightarrow> 'a editor_scheme option" where
  "move_text_p fr new_buffer s =
     (if E_buffer s \<noteq> 0
      then free (E_buffer s)
        (irqs (fr 5) (s\<lparr>ram := fst (memcpy new_buffer (E_buffer s) (E_buffer_size s) (ram s))\<rparr>))
      else Some s)"

definition advance_cursor_p :: "(nat \<Rightarrow> u32 list) \<Rightarrow> 'a editor_scheme \<Rightarrow> 'a editor_scheme" where
  "advance_cursor_p fr s =
     (let s = irqs (fr 11) (s\<lparr>E_cursor_x := E_cursor_x s + 1\<rparr>) in
      if E_cursor_x s \<ge> E_screen_cols s
      then let s = irqs (fr 12) (s\<lparr>E_cursor_x := 0\<rparr>)
           in irqs (fr 13) (s\<lparr>E_cursor_y := E_cursor_y s + 1\<rparr>)
      else s)"

definition put_char_p ::
  "(nat \<Rightarrow> u32 list) \<Rightarrow> u8 \<Rightarrow> u32 \<Rightarrow> u32 \<Rightarrow> 'a editor_scheme \<Rightarrow> 'a editor_scheme" where
  "put_char_p fr c new_buffer new_size s =
     (let s = irqs (fr 6) s;
          s = irqs (fr 7) (s\<lparr>ram := (ram s)(new_buffer + E_buffer_size s := c)\<rparr>);
          s = irqs (fr 8) (s\<lparr>ram := (ram s)(new_buffer + (E_buffer_size s + 1) := 0)\<rparr>);
          s = irqs (fr 9) (s\<lparr>E_buffer := new_buffer\<rparr>);
          s = irqs (fr 10) (s\<lparr>E_buffer_size := new_size - 1\<rparr>)
      in advance_cursor_p fr s)"

definition editor_insert_char_p ::
  "(nat \<Rightarrow> u32 list) \<Rightarrow> u8 \<Rightarrow> 'a editor_scheme \<Rightarrow> 'a editor_scheme option" where
  "editor_insert_char_p fr c s =
     do {
       let new_size = E_buffer_size s + 2;
       (new_buffer, s) \<leftarrow> malloc new_size (irqs (fr 3) s);
       let s = irqs (fr 4) s;
       if new_buffer \<noteq> 0
       then map_option (put_char_p fr c new_buffer new_size) (move_text_p fr new_buffer s)
       else Some s
     }"

text \<open>\<^verbatim>\<open>editor_delete_char\<close>: the two copies, then the new block replaces the old one.\<close>

definition close_gap_p :: "(nat \<Rightarrow> u32 list) \<Rightarrow> u32 \<Rightarrow> 'a editor_scheme \<Rightarrow> 'a editor_scheme" where
  "close_gap_p fr new_buffer s =
     (let s = irqs (fr 5) (s\<lparr>ram := fst (memcpy new_buffer (E_buffer s) (E_cursor_x s - 1) (ram s))\<rparr>) in
      if E_cursor_x s < E_buffer_size s
      then irqs (fr 6) (s\<lparr>ram := fst (memcpy (new_buffer + E_cursor_x s - 1) (E_buffer s + E_cursor_x s)
             (E_buffer_size s - E_cursor_x s) (ram s))\<rparr>)
      else s)"

definition take_block_p ::
  "(nat \<Rightarrow> u32 list) \<Rightarrow> u32 \<Rightarrow> u32 \<Rightarrow> 'a editor_scheme \<Rightarrow> 'a editor_scheme" where
  "take_block_p fr new_buffer new_size s =
     (let s = irqs (fr 7) s;
          s = irqs (fr 8) (s\<lparr>E_buffer := new_buffer\<rparr>);
          s = irqs (fr 9) (s\<lparr>E_buffer_size := new_size - 1\<rparr>)
      in irqs (fr 10) (s\<lparr>E_cursor_x := E_cursor_x s - 1\<rparr>))"

definition editor_delete_char_p :: "(nat \<Rightarrow> u32 list) \<Rightarrow> 'a editor_scheme \<Rightarrow> 'a editor_scheme option" where
  "editor_delete_char_p fr s =
     (if E_buffer_size s > 0 \<and> E_cursor_x s > 0 then do {
        let new_size = E_buffer_size s;
        (new_buffer, s) \<leftarrow> malloc new_size (irqs (fr 3) s);
        let s = irqs (fr 4) s;
        if new_buffer \<noteq> 0 then
          (let s = close_gap_p fr new_buffer s
           in map_option (take_block_p fr new_buffer new_size) (free (E_buffer s) s))
        else Some s
      }
      else Some s)"

text \<open>The keys that edit; for a command the switch is one step.\<close>

definition editor_key_p ::
  "(u32 \<Rightarrow> 'a editor_scheme \<Rightarrow> 'a editor_scheme option) \<Rightarrow> (nat \<Rightarrow> u32 list) \<Rightarrow> u8 \<Rightarrow> 'a editor_scheme \<Rightarrow>
   (fault + 'a editor_scheme run) option" where
  "editor_key_p call fr c s =
     (if c = 13 \<or> c = 10 then do {
        s \<leftarrow> editor_insert_char_p fr 10 s;
        let s = irqs (fr 14) s;
        let s = irqs (fr 15) (s\<lparr>E_cursor_x := 0\<rparr>);
        let s = irqs (fr 16) (s\<lparr>E_cursor_y := E_cursor_y s + 1\<rparr>);
        Some (Inr (Running (s\<lparr>E_is_modified := True\<rparr>)))
      }
      else if c = 8 then do {
        s \<leftarrow> editor_delete_char_p fr s;
        Some (Inr (Running ((irqs (fr 14) s)\<lparr>E_is_modified := True\<rparr>)))
      }
      else if command_key c then editor_key call c s
      else if 32 \<le> c \<and> c < 127 then do {
        s \<leftarrow> editor_insert_char_p fr c s;
        Some (Inr (Running ((irqs (fr 14) s)\<lparr>E_is_modified := True\<rparr>)))
      }
      else Some (Inr (Running s)))"

text \<open>The refresh, with interrupts after every line.\<close>

function refresh_lines_p ::
  "(nat \<Rightarrow> u32 list) \<Rightarrow> u32 \<Rightarrow> u32 \<Rightarrow> u32 \<Rightarrow> u32 \<Rightarrow> u32 \<Rightarrow> u32 \<Rightarrow> 'a editor_scheme \<Rightarrow> 'a editor_scheme" where
  "refresh_lines_p fr buffer sz rows cols pos row s =
     (if pos < sz \<and> row < rows then
        refresh_lines_p fr buffer sz rows cols (line_end_loop (ram s) buffer sz pos + 1) (row + 1)
          (irqs (fr (100 + unat row)) (refresh_line buffer cols pos (line_end_loop (ram s) buffer sz pos) s))
      else s)"
  by pat_completeness auto
termination
proof (relation "measure (\<lambda>(fr, buffer, sz, rows, cols, pos, row, s). unat (rows - row))")
  fix fr and buffer sz rows cols pos row :: u32 and s :: "'a editor_scheme"
  assume "pos < sz \<and> row < rows"
  then have "rows - row \<noteq> 0" by auto
  then have "unat (rows - (row + 1)) < unat (rows - row)"
    using unat_Suc_pred [of "rows - row"] by (simp add: diff_diff_eq)
  then show "((fr, buffer, sz, rows, cols, line_end_loop (ram s) buffer sz pos + 1, row + 1,
        irqs (fr (100 + unat row)) (refresh_line buffer cols pos (line_end_loop (ram s) buffer sz pos) s)),
      fr, buffer, sz, rows, cols, pos, row, s)
      \<in> measure (\<lambda>(fr, buffer, sz, rows, cols, pos, row, s). unat (rows - row))"
    by simp
qed simp

declare refresh_lines_p.simps [simp del]

definition show_text_p :: "(nat \<Rightarrow> u32 list) \<Rightarrow> 'a editor_scheme \<Rightarrow> fault + 'a editor_scheme" where
  "show_text_p fr s =
     (if E_buffer s \<noteq> 0
      then Inr (refresh_lines_p fr (E_buffer s) (E_buffer_size s) (E_screen_rows s) (E_screen_cols s) 0 0 s)
      else if E_screen_rows s > 2 then show_welcome (E_screen_cols s) s
      else Inr s)"

definition write_status_p :: "(nat \<Rightarrow> u32 list) \<Rightarrow> u8 list \<Rightarrow> 'a editor_scheme \<Rightarrow> 'a editor_scheme" where
  "write_status_p fr status s =
     (let s = irqs (fr 21) (terminal_movecursor 0 (E_screen_rows s) s);
          s = irqs (fr 22) (terminal_write_string status s)
      in irqs (fr 23) (terminal_movecursor (E_cursor_x s) (E_cursor_y s) s))"

definition show_status_p :: "(nat \<Rightarrow> u32 list) \<Rightarrow> 'a editor_scheme \<Rightarrow> fault + 'a editor_scheme" where
  "show_status_p fr s =
     rbind (snprintf (Some (replicate 80 0)) 80 (Some (lit ''%.20s - %zu bytes %zu,%zu''))
              [VStr (Some (case E_filename s of Some f \<Rightarrow> cname f | None \<Rightarrow> chars ''[No Name]'')),
               VInt (E_buffer_size s), VInt (E_cursor_y s + 1), VInt (E_cursor_x s + 1)])
       (\<lambda>(status, len). case status of
           None \<Rightarrow> Inl NullPointer
         | Some status \<Rightarrow> Inr (write_status_p fr status (irqs (fr 20) s)))"

definition editor_refresh_screen_p ::
  "(nat \<Rightarrow> u32 list) \<Rightarrow> 'a editor_scheme \<Rightarrow> fault + 'a editor_scheme" where
  "editor_refresh_screen_p fr s =
     rbind (show_text_p fr (irqs (fr 18) (terminal_clear (irqs (fr 17) s))))
       (\<lambda>s. show_status_p fr (irqs (fr 19) s))"

definition preempted_turn ::
  "(u32 \<Rightarrow> 'a editor_scheme \<Rightarrow> 'a editor_scheme option) \<Rightarrow> (nat \<Rightarrow> u32 list) \<Rightarrow> 'a editor_scheme \<Rightarrow>
   (fault + 'a editor_scheme run) option" where
  "preempted_turn call fr s =
     (let (c, s) = keyboard_getchar_p fr s in
      if c = 0 then Some (Inr (Running s))
      else do {
        r \<leftarrow> editor_key_p call fr c s;
        case r of
          Inr (Running s) \<Rightarrow> Some (map_sum id Running (editor_refresh_screen_p fr s))
        | _ \<Rightarrow> Some r
      })"

text \<open>Without interrupts these are the operations themselves.\<close>

lemma irqs_Nil [simp]: "irqs [] s = s"
  by (simp add: irqs_def)

lemma no_interrupts_lines:
  "refresh_lines_p (\<lambda>_. []) buffer sz rows cols pos row s = refresh_lines buffer sz rows cols pos row s"
proof (induction buffer sz rows cols pos row s rule: refresh_lines.induct)
  case (1 buffer sz rows cols pos row s)
  then show ?case
    by (subst refresh_lines_p.simps, subst refresh_lines.simps) simp
qed

lemma no_interrupts_insert: "editor_insert_char_p (\<lambda>_. []) c s = editor_insert_char c s"
proof -
  have put: "put_char_p (\<lambda>_. []) c p n s = (let
      s = s\<lparr>ram := (ram s)(p + E_buffer_size s := c)\<rparr>;
      s = s\<lparr>ram := (ram s)(p + (E_buffer_size s + 1) := 0)\<rparr>;
      s = s\<lparr>E_buffer := p, E_buffer_size := n - 1\<rparr>;
      s = s\<lparr>E_cursor_x := E_cursor_x s + 1\<rparr>
    in if E_cursor_x s \<ge> E_screen_cols s then s\<lparr>E_cursor_x := 0, E_cursor_y := E_cursor_y s + 1\<rparr> else s)"
    for p n and s :: "'a editor_scheme"
    by (simp add: put_char_p_def advance_cursor_p_def Let_def)
  have bind: "map_option f m = Option.bind m (\<lambda>s. Some (f s))" for f :: "'a editor_scheme \<Rightarrow> 'a editor_scheme" and m
    by (cases m) simp_all
  show ?thesis
    unfolding editor_insert_char_p_def editor_insert_char_def bind put move_text_p_def
    by (simp add: Let_def if_distrib [of Some] cong: if_cong)
qed

lemma no_interrupts_delete: "editor_delete_char_p (\<lambda>_. []) s = editor_delete_char s"
proof -
  have bind: "map_option f m = Option.bind m (\<lambda>s. Some (f s))" for f :: "'a editor_scheme \<Rightarrow> 'a editor_scheme" and m
    by (cases m) simp_all
  show ?thesis
    unfolding editor_delete_char_p_def editor_delete_char_def bind
    by (simp add: close_gap_p_def take_block_p_def Let_def cong: if_cong)
qed

lemma no_interrupts_key: "editor_key_p call (\<lambda>_. []) c s = editor_key call c s"
  by (auto simp: editor_key_p_def editor_key_def no_interrupts_insert no_interrupts_delete command_key_def Let_def)

lemma no_interrupts_refresh: "editor_refresh_screen_p (\<lambda>_. []) s = editor_refresh_screen s"
  by (simp add: editor_refresh_screen_p_def show_text_p_def show_status_p_def write_status_p_def
      editor_refresh_screen_def no_interrupts_lines Let_def cong: if_cong option.case_cong)

lemma no_interrupts: "preempted_turn call (\<lambda>_. []) s = editor_process_keypress call s"
proof -
  have "keyboard_getchar_p (\<lambda>_. []) s = keyboard_getchar s"
    by (simp add: keyboard_getchar_p_def keyboard_getchar_def Let_def)
  then show ?thesis
    by (simp add: preempted_turn_def editor_process_keypress_def no_interrupts_key no_interrupts_refresh
      cong: if_cong sum.case_cong run.case_cong)
qed

subsection \<open>What an interrupt leaves alone\<close>

text \<open>The bytes that were read from the data port of the keyboard, according to the log.\<close>

fun scan_codes :: "event list \<Rightarrow> u8 list" where
  "scan_codes (In p v # es) = (if p = KEYBOARD_DATA_PORT then v # scan_codes es else scan_codes es)"
| "scan_codes (_ # es) = scan_codes es"
| "scan_codes [] = []"

lemma scan_codes_append [simp]: "scan_codes (es @ fs) = scan_codes es @ scan_codes fs"
  by (induction es rule: scan_codes.induct) simp_all

text \<open>
  Two states that differ at most in the event log, the ring's contents and its end, the modifier
  flags and the tick counter. The keyboard of the first one is a given one on which the scan codes have
  been pressed that its log shows since a given point.
\<close>

definition agree :: "kbd \<times> event list \<Rightarrow> 'a editor_scheme \<Rightarrow> 'a editor_scheme \<Rightarrow> bool" where
  "agree k s t \<longleftrightarrow> kb_ok s \<and>
     (\<exists>es. events s = snd k @ es \<and> kbd_view s = fold key_press (scan_codes es) (fst k)) \<and>
     ram s = ram t \<and> device s = device t \<and> heap_start s = heap_start t \<and>
     terminal_row s = terminal_row t \<and> terminal_column s = terminal_column t \<and>
     terminal_color s = terminal_color t \<and> terminal_buffer s = terminal_buffer t \<and>
     is_initialized s = is_initialized t \<and> total_memory s = total_memory t \<and> free_memory s = free_memory t \<and>
     buffer_start s = buffer_start t \<and> files s = files t \<and> num_files s = num_files t \<and>
     dummy_buffer s = dummy_buffer t \<and> idt s = idt t \<and> idtp_limit s = idtp_limit t \<and>
     idtp_base s = idtp_base t \<and> linked s = linked t \<and> output_buffer s = output_buffer t \<and>
     output_size s = output_size t \<and> E_buffer s = E_buffer t \<and> E_buffer_size s = E_buffer_size t \<and>
     E_cursor_x s = E_cursor_x t \<and> E_cursor_y s = E_cursor_y t \<and> E_filename s = E_filename t \<and>
     E_screen_rows s = E_screen_rows t \<and> E_screen_cols s = E_screen_cols t \<and>
     E_is_modified s = E_is_modified t \<and> editor.more s = editor.more t"

lemma agree_fields:
  assumes "agree k s t"
  shows "ram s = ram t" "heap_start s = heap_start t" "terminal_row s = terminal_row t"
    "terminal_column s = terminal_column t" "terminal_color s = terminal_color t"
    "terminal_buffer s = terminal_buffer t" "E_buffer s = E_buffer t" "E_buffer_size s = E_buffer_size t"
    "E_cursor_x s = E_cursor_x t" "E_cursor_y s = E_cursor_y t" "E_filename s = E_filename t"
    "E_screen_rows s = E_screen_rows t" "E_screen_cols s = E_screen_cols t" "E_is_modified s = E_is_modified t"
  using assms by (simp_all add: agree_def)

text \<open>The keyboard does not depend on the other fields.\<close>

lemma kbd_updates:
  fixes s :: "'a editor_scheme"
  shows "kb_ok (s\<lparr>ram := m\<rparr>) = kb_ok s" "kbd_view (s\<lparr>ram := m\<rparr>) = kbd_view s"
    "kb_ok (s\<lparr>heap_start := p\<rparr>) = kb_ok s" "kbd_view (s\<lparr>heap_start := p\<rparr>) = kbd_view s"
    "kb_ok (s\<lparr>terminal_row := r\<rparr>) = kb_ok s" "kbd_view (s\<lparr>terminal_row := r\<rparr>) = kbd_view s"
    "kb_ok (s\<lparr>terminal_column := r\<rparr>) = kb_ok s" "kbd_view (s\<lparr>terminal_column := r\<rparr>) = kbd_view s"
    "kb_ok (s\<lparr>events := es\<rparr>) = kb_ok s" "kbd_view (s\<lparr>events := es\<rparr>) = kbd_view s"
    "kb_ok (s\<lparr>E_buffer := p\<rparr>) = kb_ok s" "kbd_view (s\<lparr>E_buffer := p\<rparr>) = kbd_view s"
    "kb_ok (s\<lparr>E_buffer_size := n\<rparr>) = kb_ok s" "kbd_view (s\<lparr>E_buffer_size := n\<rparr>) = kbd_view s"
    "kb_ok (s\<lparr>E_cursor_x := n\<rparr>) = kb_ok s" "kbd_view (s\<lparr>E_cursor_x := n\<rparr>) = kbd_view s"
    "kb_ok (s\<lparr>E_cursor_y := n\<rparr>) = kb_ok s" "kbd_view (s\<lparr>E_cursor_y := n\<rparr>) = kbd_view s"
    "kb_ok (s\<lparr>E_is_modified := b\<rparr>) = kb_ok s" "kbd_view (s\<lparr>E_is_modified := b\<rparr>) = kbd_view s"
  by (simp_all add: kb_ok_def kbd_view_def kb_queue_def)

lemma agree_updates:
  assumes "agree k s t"
  shows "agree k (s\<lparr>ram := m\<rparr>) (t\<lparr>ram := m\<rparr>)" "agree k (s\<lparr>heap_start := p\<rparr>) (t\<lparr>heap_start := p\<rparr>)"
    "agree k (s\<lparr>terminal_row := r\<rparr>) (t\<lparr>terminal_row := r\<rparr>)"
    "agree k (s\<lparr>terminal_column := r\<rparr>) (t\<lparr>terminal_column := r\<rparr>)"
    "agree k (s\<lparr>E_buffer := p\<rparr>) (t\<lparr>E_buffer := p\<rparr>)" "agree k (s\<lparr>E_buffer_size := n\<rparr>) (t\<lparr>E_buffer_size := n\<rparr>)"
    "agree k (s\<lparr>E_cursor_x := n\<rparr>) (t\<lparr>E_cursor_x := n\<rparr>)" "agree k (s\<lparr>E_cursor_y := n\<rparr>) (t\<lparr>E_cursor_y := n\<rparr>)"
    "agree k (s\<lparr>E_is_modified := b\<rparr>) (t\<lparr>E_is_modified := b\<rparr>)"
  using assms by (simp_all add: agree_def kbd_updates)

text \<open>The handler.\<close>

lemma keyboard_handler_events:
  "events (keyboard_handler s) = events s @ [In KEYBOARD_DATA_PORT (device s (events s) KEYBOARD_DATA_PORT)]"
  by (auto simp: keyboard_handler_def inb_def buffer_put_def Let_def)

lemma irq_handler_kbd:
  assumes "kb_ok s"
  shows "kb_ok (irq_handler regs s)" and "\<exists>es. events (irq_handler regs s) = events s @ es \<and>
    kbd_view (irq_handler regs s) = fold key_press (scan_codes es) (kbd_view s)"
proof -
  let ?n = "int_no regs s"
  define t where "t = outb 0x20 0x20 (if ?n \<ge> 40 then outb 0xA0 0x20 s else s)"
  have t: "kb_ok t" "kbd_view t = kbd_view s"
    using assms by (simp_all add: t_def outb_def kb_ok_def kb_queue_def kbd_view_def)
  have "events t = events s @ (if ?n \<ge> 40 then [Out 0xA0 0x20, Out 0x20 0x20] else [Out 0x20 0x20])"
    by (simp add: t_def outb_def)
  then obtain es where es: "events t = events s @ es" "scan_codes es = []" by (auto split: if_splits)
  have h: "irq_handler regs s = (if ?n - 32 = 0 then t\<lparr>tick := tick t + 1\<rparr>
      else if ?n - 32 = 1 then keyboard_handler t else t)"
    by (simp add: irq_handler_def Let_def t_def timer_handler_def)
  note kh = keyboard_handler_view [OF t(1)]
  show "kb_ok (irq_handler regs s)"
    unfolding h using t(1) kh(2) by (simp add: kb_ok_def kb_queue_def)
  have "\<exists>es. events (keyboard_handler t) = events s @ es \<and>
      kbd_view (keyboard_handler t) = fold key_press (scan_codes es) (kbd_view s)"
    using kh(1) t(2) es by (auto simp: keyboard_handler_events)
  moreover have "\<exists>es. events u = events s @ es \<and> kbd_view u = fold key_press (scan_codes es) (kbd_view s)"
    if "kbd_view u = kbd_view s" "events u = events t" for u :: "'a interrupts_scheme"
    using that es by auto
  ultimately show "\<exists>es. events (irq_handler regs s) = events s @ es \<and>
      kbd_view (irq_handler regs s) = fold key_press (scan_codes es) (kbd_view s)"
    unfolding h using t(2) by (simp add: kbd_view_def kb_queue_def)
qed

lemma agree_irq:
  assumes "agree k s t"
  shows "agree k (irq_handler regs s) t"
proof -
  have ok: "kb_ok s" using assms by (simp add: agree_def)
  obtain es where "events s = snd k @ es" "kbd_view s = fold key_press (scan_codes es) (fst k)"
    using assms by (auto simp: agree_def)
  with irq_handler_kbd(2) [OF ok, of regs]
  have "\<exists>es. events (irq_handler regs s) = snd k @ es \<and>
      kbd_view (irq_handler regs s) = fold key_press (scan_codes es) (fst k)" by fastforce
  moreover have "kb_ok (irq_handler regs s)" by (rule irq_handler_kbd(1) [OF ok])
  moreover obtain es kb be sh ca tk where eq: "irq_handler regs s = s\<lparr>events := es, keyboard_buffer := kb,
      buffer_end := be, shift_pressed := sh, caps_lock := ca, tick := tk\<rparr>"
    using irq_handler_only [of s regs] unfolding irq_only_def by blast
  ultimately show ?thesis using assms unfolding agree_def eq by simp
qed

lemma agree_irqs: "agree k s t \<Longrightarrow> agree k (irqs frames s) t"
  unfolding irqs_def by (induction frames arbitrary: s) (simp_all add: agree_irq)

lemmas agree_intros = agree_irqs agree_updates

subsection \<open>The operations of a turn\<close>

text \<open>The terminal.\<close>

lemma agree_fold:
  "(\<And>x s t. agree k s t \<Longrightarrow> agree k (f x s) (f x t)) \<Longrightarrow> agree k s t \<Longrightarrow> agree k (fold f xs s) (fold f xs t)"
  by (induction xs arbitrary: s t) simp_all

lemma agree_outb: "agree k s t \<Longrightarrow> agree k (outb p v s) (outb p v t)"
  by (auto simp: outb_def agree_def kbd_updates)

lemma agree_put_cell: "agree k s t \<Longrightarrow> agree k (put_cell i v s) (put_cell i v t)"
  by (simp add: put_cell_def agree_fields agree_updates)

lemma agree_movecursor: "agree k s t \<Longrightarrow> agree k (terminal_movecursor x y s) (terminal_movecursor x y t)"
  by (simp add: terminal_movecursor_def Let_def agree_outb)

lemma agree_clear: "agree k s t \<Longrightarrow> agree k (terminal_clear s) (terminal_clear t)"
  unfolding terminal_clear_def
  by (intro agree_fold) (simp_all add: agree_put_cell agree_fields)

lemma agree_scroll_up: "agree k s t \<Longrightarrow> agree k (scroll_up s) (scroll_up t)"
  unfolding scroll_up_def
  by (intro agree_fold) (simp_all add: agree_put_cell get_cell_def agree_fields)

lemma agree_clear_line: "agree k s t \<Longrightarrow> agree k (clear_current_line s) (clear_current_line t)"
  unfolding clear_current_line_def
  by (intro agree_fold) (simp_all add: agree_put_cell agree_fields)

text \<open>Updates by a value that is read from the state.\<close>

lemma agree_row: "agree k s t \<Longrightarrow> agree k (s\<lparr>terminal_row := f (terminal_row s)\<rparr>) (t\<lparr>terminal_row := f (terminal_row t)\<rparr>)"
  by (simp add: agree_fields agree_updates)

lemma agree_new_line:
  assumes "agree k s t"
  shows "agree k (terminal_new_line s) (terminal_new_line t)"
proof -
  define wrap where "wrap = (\<lambda>s :: 'a editor_scheme. if terminal_row s = of_nat VGA_HEIGHT
    then clear_current_line ((scroll_up s)\<lparr>terminal_row := terminal_row (scroll_up s) - 1\<rparr>) else s)"
  define step where "step = (\<lambda>s :: 'a editor_scheme. s\<lparr>terminal_row := terminal_row s + 1\<rparr>)"
  have step: "agree k (step s) (step t)" if "agree k s t" for s t
    unfolding step_def by (rule agree_row [where f = "\<lambda>r. r + 1", OF that])
  have wrap: "agree k (wrap s) (wrap t)" if "agree k s t" for s t
    using that agree_clear_line [OF agree_row [where f = "\<lambda>r. r - 1", OF agree_scroll_up [OF that]]]
    unfolding wrap_def agree_fields(3) [OF that] by simp
  have w: "agree k (wrap (step (s\<lparr>terminal_column := 0\<rparr>))) (wrap (step (t\<lparr>terminal_column := 0\<rparr>)))"
    by (intro wrap step agree_updates assms)
  have "terminal_new_line s = (let s = wrap (step (s\<lparr>terminal_column := 0\<rparr>)) in
      terminal_movecursor (terminal_column s) (terminal_row s) s)" for s :: "'a editor_scheme"
    by (simp only: terminal_new_line_def step_def wrap_def Let_def)
  then show ?thesis
    using agree_movecursor [OF w] agree_fields(3,4) [OF w] by (simp add: Let_def)
qed

lemma agree_write_char:
  assumes "agree k s t"
  shows "agree k (terminal_write_char c s) (terminal_write_char c t)"
proof (cases "c = 10")
  case True
  then show ?thesis using agree_new_line [OF assms] by (simp add: terminal_write_char_def)
next
  case False
  define put where "put = (\<lambda>s :: 'a editor_scheme. put_cell (terminal_row s * of_nat VGA_WIDTH + terminal_column s)
    (make_vgaentry c (terminal_color s)) s)"
  define step where "step = (\<lambda>s :: 'a editor_scheme. s\<lparr>terminal_column := terminal_column s + 1\<rparr>)"
  define wrap where "wrap = (\<lambda>s :: 'a editor_scheme. if terminal_column s = of_nat VGA_WIDTH then terminal_new_line s else s)"
  have put: "agree k (put s) (put t)" if "agree k s t" for s t
    unfolding put_def agree_fields [OF that] by (rule agree_put_cell [OF that])
  have step: "agree k (step s) (step t)" if "agree k s t" for s t
    unfolding step_def agree_fields [OF that] by (rule agree_updates [OF that])
  have wrap: "agree k (wrap s) (wrap t)" if "agree k s t" for s t
    using that agree_new_line [OF that] unfolding wrap_def agree_fields [OF that] by simp
  have w: "agree k (wrap (step (put s))) (wrap (step (put t)))" by (intro wrap step put assms)
  have "terminal_write_char c s = (let s = wrap (step (put s)) in
      terminal_movecursor (terminal_column s) (terminal_row s) s)" for s :: "'a editor_scheme"
    using False by (simp add: terminal_write_char_def put_def step_def wrap_def Let_def)
  then show ?thesis
    using agree_movecursor [OF w] agree_fields(3,4) [OF w] by (simp add: Let_def)
qed

lemma agree_write: "agree k s t \<Longrightarrow> agree k (terminal_write p n s) (terminal_write p n t)"
  unfolding terminal_write_def
  by (intro agree_fold) (simp_all add: agree_write_char agree_fields)

lemma agree_write_string: "agree k s t \<Longrightarrow> agree k (terminal_write_string l s) (terminal_write_string l t)"
  by (induction l arbitrary: s t) (simp_all add: agree_write_char)

text \<open>The allocator.\<close>

lemma rel_option_bindI:
  "rel_option R m n \<Longrightarrow> (\<And>x y. R x y \<Longrightarrow> rel_option S (f x) (g y)) \<Longrightarrow>
    rel_option S (Option.bind m f) (Option.bind n g)"
  by (cases m; cases n) auto

lemma rel_option_mapI:
  "rel_option R m n \<Longrightarrow> (\<And>x y. R x y \<Longrightarrow> S (f x) (g y)) \<Longrightarrow> rel_option S (map_option f m) (map_option g n)"
  by (cases m; cases n) auto

lemma agree_malloc:
  assumes "agree k s t"
  shows "rel_option (rel_prod (=) (agree k)) (malloc n s) (malloc n t)"
proof -
  define s' where "s' = (if heap_start s = 0 then memory_init s else s)"
  define t' where "t' = (if heap_start t = 0 then memory_init t else t)"
  have a: "agree k s' t'"
    using assms unfolding s'_def t'_def memory_init_def by (simp add: agree_fields agree_updates)
  have req: "fst (request_space p n s') = fst (request_space p n t')"
    "agree k (snd (request_space p n s')) (snd (request_space p n t'))" for p
    using a by (simp_all add: request_space_def Let_def agree_fields agree_updates)
  have found: "find_free_block (heap_start s') n s' = find_free_block (heap_start t') n t'"
    using a by (simp add: find_free_block_def agree_fields)
  have "rel_option (rel_prod (=) (agree k))
      (case request_space p n s' of (b, s) \<Rightarrow> if b = 0 then Some (0, s) else Some (b + sizeof_block_meta, s))
      (case request_space p n t' of (b, s) \<Rightarrow> if b = 0 then Some (0, s) else Some (b + sizeof_block_meta, s))" for p
    using req [of p] by (simp add: case_prod_beta)
  moreover have "agree k (s'\<lparr>ram := set_free b False (ram s')\<rparr>) (t'\<lparr>ram := set_free b False (ram t')\<rparr>)" for b
    using a by (simp add: agree_fields agree_updates)
  ultimately show ?thesis
    using assms found unfolding malloc_def s'_def [symmetric] t'_def [symmetric] Let_def
    by (cases "find_free_block (heap_start t') n t'") auto
qed

lemma agree_free:
  assumes "agree k s t"
  shows "rel_option (agree k) (free p s) (free p t)"
  using assms
  by (cases "coalesce_loop (set_free (p - sizeof_block_meta) True (ram t)) (heap_start t)")
    (simp_all add: free_def Let_def agree_fields agree_updates)

text \<open>Editing.\<close>

lemma agree_edits:
  assumes "agree k s t"
  shows "agree k (s\<lparr>E_cursor_x := E_cursor_x s + 1\<rparr>) (t\<lparr>E_cursor_x := E_cursor_x t + 1\<rparr>)"
    and "agree k (s\<lparr>E_cursor_x := E_cursor_x s - 1\<rparr>) (t\<lparr>E_cursor_x := E_cursor_x t - 1\<rparr>)"
    and "agree k (s\<lparr>E_cursor_y := E_cursor_y s + 1\<rparr>) (t\<lparr>E_cursor_y := E_cursor_y t + 1\<rparr>)"
    and "agree k (s\<lparr>ram := fst (memcpy p (E_buffer s) (E_buffer_size s) (ram s))\<rparr>)
      (t\<lparr>ram := fst (memcpy p (E_buffer t) (E_buffer_size t) (ram t))\<rparr>)"
    and "agree k (s\<lparr>ram := fst (memcpy p (E_buffer s) (E_cursor_x s - 1) (ram s))\<rparr>)
      (t\<lparr>ram := fst (memcpy p (E_buffer t) (E_cursor_x t - 1) (ram t))\<rparr>)"
    and "agree k (s\<lparr>ram := fst (memcpy (p + E_cursor_x s - 1) (E_buffer s + E_cursor_x s)
        (E_buffer_size s - E_cursor_x s) (ram s))\<rparr>)
      (t\<lparr>ram := fst (memcpy (p + E_cursor_x t - 1) (E_buffer t + E_cursor_x t)
        (E_buffer_size t - E_cursor_x t) (ram t))\<rparr>)"
    and "agree k (s\<lparr>ram := (ram s)(p + E_buffer_size s := c)\<rparr>) (t\<lparr>ram := (ram t)(p + E_buffer_size t := c)\<rparr>)"
    and "agree k (s\<lparr>ram := (ram s)(p + (E_buffer_size s + 1) := c)\<rparr>)
      (t\<lparr>ram := (ram t)(p + (E_buffer_size t + 1) := c)\<rparr>)"
  using assms by (simp_all add: agree_fields agree_updates)

text \<open>A part of the program with interrupts on the left, without on the right.\<close>

lemma agree_none: "agree k s t \<Longrightarrow> agree k (irqs frames s) (irqs [] t)"
  by (simp add: agree_irqs)

lemma agree_move_text:
  assumes "agree k s t"
  shows "rel_option (agree k) (move_text_p fr p s) (move_text_p (\<lambda>_. []) p t)"
  using assms agree_free [OF agree_none [OF agree_edits(4) [OF assms]]]
  unfolding move_text_p_def agree_fields(7) [OF assms] by simp

lemma agree_advance_cursor:
  assumes "agree k s t"
  shows "agree k (advance_cursor_p fr s) (advance_cursor_p (\<lambda>_. []) t)"
proof -
  define u where "u = irqs (fr 11) (s\<lparr>E_cursor_x := E_cursor_x s + 1\<rparr>)"
  define v where "v = irqs [] (t\<lparr>E_cursor_x := E_cursor_x t + 1\<rparr>)"
  have uv: "agree k u v" unfolding u_def v_def by (intro agree_none agree_edits assms)
  have "agree k (let s = irqs (fr 12) (u\<lparr>E_cursor_x := 0\<rparr>) in irqs (fr 13) (s\<lparr>E_cursor_y := E_cursor_y s + 1\<rparr>))
      (let s = irqs [] (v\<lparr>E_cursor_x := 0\<rparr>) in irqs [] (s\<lparr>E_cursor_y := E_cursor_y s + 1\<rparr>))"
    unfolding Let_def by (intro agree_none agree_edits agree_updates uv)
  then show ?thesis
    using uv unfolding advance_cursor_p_def u_def [symmetric] v_def [symmetric]
    by (simp add: Let_def u_def [symmetric] v_def [symmetric] agree_fields(9,13) [OF uv])
qed

lemma agree_put_char:
  "agree k s t \<Longrightarrow> agree k (put_char_p fr c p n s) (put_char_p (\<lambda>_. []) c p n t)"
  unfolding put_char_p_def Let_def by (intro agree_advance_cursor agree_none agree_edits agree_updates)

lemma agree_insert:
  assumes "agree k s t"
  shows "rel_option (agree k) (editor_insert_char_p fr c s) (editor_insert_char c t)"
  unfolding no_interrupts_insert [symmetric] editor_insert_char_p_def Let_def agree_fields(8) [OF assms]
proof (rule rel_option_bindI [OF agree_malloc [OF agree_none [OF assms]]])
  fix x y :: "u32 \<times> 'a editor_scheme" assume "rel_prod (=) (agree k) x y"
  then obtain p u v where xy: "x = (p, u)" "y = (p, v)" and uv: "agree k u v" by (cases x; cases y) auto
  let ?n = "E_buffer_size t + 2"
  have "rel_option (agree k) (map_option (put_char_p fr c p ?n) (move_text_p fr p (irqs (fr 4) u)))
      (map_option (put_char_p (\<lambda>_. []) c p ?n) (move_text_p (\<lambda>_. []) p (irqs [] v)))"
    by (rule rel_option_mapI [OF agree_move_text [OF agree_none [OF uv]]]) (erule agree_put_char)
  then show "rel_option (agree k)
      (case x of (q, s) \<Rightarrow> if q \<noteq> 0 then map_option (put_char_p fr c q ?n) (move_text_p fr q (irqs (fr 4) s))
         else Some (irqs (fr 4) s))
      (case y of (q, s) \<Rightarrow> if q \<noteq> 0 then map_option (put_char_p (\<lambda>_. []) c q ?n) (move_text_p (\<lambda>_. []) q (irqs [] s))
         else Some (irqs [] s))"
    using agree_none [OF uv] by (simp add: xy)
qed

lemma agree_close_gap:
  assumes "agree k s t"
  shows "agree k (close_gap_p fr p s) (close_gap_p (\<lambda>_. []) p t)"
proof -
  define u where "u = irqs (fr 5) (s\<lparr>ram := fst (memcpy p (E_buffer s) (E_cursor_x s - 1) (ram s))\<rparr>)"
  define v where "v = irqs [] (t\<lparr>ram := fst (memcpy p (E_buffer t) (E_cursor_x t - 1) (ram t))\<rparr>)"
  have uv: "agree k u v" unfolding u_def v_def by (intro agree_none agree_edits assms)
  from agree_none [OF agree_edits(6) [OF uv]] uv show ?thesis
    unfolding close_gap_p_def u_def [symmetric] v_def [symmetric] Let_def agree_fields(8,9) [OF uv] by simp
qed

lemma agree_take_block:
  "agree k s t \<Longrightarrow> agree k (take_block_p fr p n s) (take_block_p (\<lambda>_. []) p n t)"
  unfolding take_block_p_def Let_def by (intro agree_none agree_edits agree_updates)

lemma agree_delete:
  assumes "agree k s t"
  shows "rel_option (agree k) (editor_delete_char_p fr s) (editor_delete_char t)"
proof (cases "E_buffer_size t > 0 \<and> E_cursor_x t > 0")
  case False
  then show ?thesis
    using assms unfolding no_interrupts_delete [symmetric] editor_delete_char_p_def agree_fields(8,9) [OF assms] by auto
next
  case True
  let ?n = "E_buffer_size t"
  have "rel_option (agree k)
      (Option.bind (malloc ?n (irqs (fr 3) s)) (\<lambda>(p, s). let s = irqs (fr 4) s in
        if p \<noteq> 0 then (let s = close_gap_p fr p s in map_option (take_block_p fr p ?n) (free (E_buffer s) s)) else Some s))
      (Option.bind (malloc ?n (irqs [] t)) (\<lambda>(p, s). let s = irqs [] s in
        if p \<noteq> 0 then (let s = close_gap_p (\<lambda>_. []) p s in map_option (take_block_p (\<lambda>_. []) p ?n) (free (E_buffer s) s))
        else Some s))"
    (is "rel_option _ (Option.bind _ ?f) (Option.bind _ ?g)")
  proof (rule rel_option_bindI [OF agree_malloc [OF agree_none [OF assms]]])
    fix x y :: "u32 \<times> 'a editor_scheme" assume "rel_prod (=) (agree k) x y"
    then obtain p u v where xy: "x = (p, u)" "y = (p, v)" and uv: "agree k u v" by (cases x; cases y) auto
    let ?u = "close_gap_p fr p (irqs (fr 4) u)" and ?v = "close_gap_p (\<lambda>_. []) p (irqs [] v)"
    have c: "agree k ?u ?v" by (rule agree_close_gap [OF agree_none [OF uv]])
    have "rel_option (agree k) (map_option (take_block_p fr p ?n) (free (E_buffer ?u) ?u))
        (map_option (take_block_p (\<lambda>_. []) p ?n) (free (E_buffer ?v) ?v))"
      unfolding agree_fields(7) [OF c]
      by (rule rel_option_mapI [OF agree_free [OF c]]) (erule agree_take_block)
    then show "rel_option (agree k) (?f x) (?g y)"
      using agree_none [OF uv] by (simp add: xy Let_def)
  qed
  then show ?thesis
    using True unfolding no_interrupts_delete [symmetric] editor_delete_char_p_def agree_fields(8,9) [OF assms]
    by (simp add: Let_def)
qed

text \<open>A key: editing and what follows it.\<close>

lemma agree_key:
  assumes st: "agree k s t" and c: "\<not> command_key c"
  shows "rel_option (rel_sum (=) (rel_run (agree k))) (editor_key_p call fr c s) (editor_key call c t)"
proof -
  let ?R = "rel_sum (=) (rel_run (agree k))" and ?none = "\<lambda>_. []"
  define M :: "(nat \<Rightarrow> u32 list) \<Rightarrow> 'a editor_scheme \<Rightarrow> fault + 'a editor_scheme run"
    where "M = (\<lambda>fr s. Inr (Running ((irqs (fr 14) s)\<lparr>E_is_modified := True\<rparr>)))"
  define N :: "(nat \<Rightarrow> u32 list) \<Rightarrow> 'a editor_scheme \<Rightarrow> fault + 'a editor_scheme run"
    where "N = (\<lambda>fr s. let s = irqs (fr 14) s; s = irqs (fr 15) (s\<lparr>E_cursor_x := 0\<rparr>);
        s = irqs (fr 16) (s\<lparr>E_cursor_y := E_cursor_y s + 1\<rparr>) in Inr (Running (s\<lparr>E_is_modified := True\<rparr>)))"
  have M: "?R (M fr u) (M ?none v)" if "agree k u v" for u v
    using agree_updates(9) [OF agree_none [OF that]] by (simp add: M_def)
  have N: "?R (N fr u) (N ?none v)" if "agree k u v" for u v
    unfolding N_def Let_def rel_sum_simps run.rel_inject
    by (intro agree_updates(9) agree_none agree_edits agree_updates that)
  have ins: "rel_option (agree k) (editor_insert_char_p fr b s) (editor_insert_char_p ?none b t)" for b
    unfolding no_interrupts_insert by (rule agree_insert [OF st])
  have del: "rel_option (agree k) (editor_delete_char_p fr s) (editor_delete_char_p ?none t)"
    unfolding no_interrupts_delete by (rule agree_delete [OF st])
  have e: "rel_option ?R (map_option (N fr) (editor_insert_char_p fr 10 s))
      (map_option (N ?none) (editor_insert_char_p ?none 10 t))"
    "rel_option ?R (map_option (M fr) (editor_insert_char_p fr c s))
      (map_option (M ?none) (editor_insert_char_p ?none c t))"
    "rel_option ?R (map_option (M fr) (editor_delete_char_p fr s)) (map_option (M ?none) (editor_delete_char_p ?none t))"
    by (rule rel_option_mapI [OF ins], erule N, rule rel_option_mapI [OF ins], erule M,
        rule rel_option_mapI [OF del], erule M)
  have N_bind: "Option.bind m (\<lambda>s. let s = irqs (f 14) s; s = irqs (f 15) (s\<lparr>E_cursor_x := 0\<rparr>);
      s = irqs (f 16) (s\<lparr>E_cursor_y := E_cursor_y s + 1\<rparr>) in Some (Inr (Running (s\<lparr>E_is_modified := True\<rparr>))))
    = map_option (N f) m" for f m by (cases m) (simp_all add: N_def Let_def)
  have M_bind: "Option.bind m (\<lambda>s. Some (Inr (Running ((irqs (f 14) s)\<lparr>E_is_modified := True\<rparr>))))
    = map_option (M f) m" for f m by (cases m) (simp_all add: M_def)
  have key: "editor_key_p call f c s = (if c = 13 \<or> c = 10 then map_option (N f) (editor_insert_char_p f 10 s)
      else if c = 8 then map_option (M f) (editor_delete_char_p f s)
      else if 32 \<le> c \<and> c < 127 then map_option (M f) (editor_insert_char_p f c s)
      else Some (Inr (Running s)))" for f s
    unfolding editor_key_p_def N_bind M_bind using c by simp
  show ?thesis using e st unfolding no_interrupts_key [symmetric, of call c t] key by simp
qed

subsection \<open>The refresh\<close>

lemma rel_rbind:
  "rel_sum (=) R m n \<Longrightarrow> (\<And>x y. R x y \<Longrightarrow> rel_sum (=) S (f x) (g y)) \<Longrightarrow> rel_sum (=) S (rbind m f) (rbind n g)"
  by (cases m; cases n) (auto simp: rbind_def)

lemma agree_refresh_lines:
  "agree k s t \<Longrightarrow> agree k (refresh_lines_p fr b sz rows cols pos row s) (refresh_lines b sz rows cols pos row t)"
proof (induction b sz rows cols pos row t arbitrary: s rule: refresh_lines.induct)
  case (1 b sz rows cols pos row t)
  note st = 1(2)
  define e where "e = line_end_loop (ram t) b sz pos"
  have "agree k (irqs (fr (100 + unat row)) (refresh_line b cols pos e s)) (refresh_line b cols pos e t)"
    unfolding refresh_line_def Let_def by (intro agree_irqs agree_write_string agree_write st)
  then show ?case
    using 1 by (subst refresh_lines_p.simps, subst refresh_lines.simps) (simp add: agree_fields(1) [OF st] e_def)
qed

lemma agree_welcome:
  assumes "agree k s t"
  shows "rel_sum (=) (agree k) (show_welcome cols s) (show_welcome cols t)"
  unfolding show_welcome_def Let_def
proof (rule rel_rbind)
  show "rel_sum (=) (=) (arr_strlen (lit ''Editor -- version 2.0.0'')) (arr_strlen (lit ''Editor -- version 2.0.0''))"
    by (simp add: sum.rel_eq)
qed (use assms in \<open>auto intro!: agree_write_string agree_fold agree_write_char\<close>)

lemma agree_text:
  assumes "agree k s t"
  shows "rel_sum (=) (agree k) (show_text_p fr s) (show_text_p (\<lambda>_. []) t)"
  using agree_refresh_lines [OF assms] agree_welcome [OF assms] assms
  unfolding show_text_p_def agree_fields [OF assms] by (simp add: no_interrupts_lines)

lemma agree_write_status:
  assumes "agree k s t"
  shows "agree k (write_status_p fr l s) (write_status_p (\<lambda>_. []) l t)"
proof -
  define u where "u = irqs (fr 22) (terminal_write_string l (irqs (fr 21) (terminal_movecursor 0 (E_screen_rows s) s)))"
  define v where "v = irqs [] (terminal_write_string l (irqs [] (terminal_movecursor 0 (E_screen_rows t) t)))"
  have uv: "agree k u v"
    unfolding u_def v_def agree_fields(12) [OF assms] by (intro agree_none agree_write_string agree_movecursor assms)
  show ?thesis
    unfolding write_status_p_def Let_def u_def [symmetric] v_def [symmetric] agree_fields(9,10) [OF uv]
    by (intro agree_none agree_movecursor uv)
qed

lemma agree_status:
  assumes "agree k s t"
  shows "rel_sum (=) (agree k) (show_status_p fr s) (show_status_p (\<lambda>_. []) t)"
  unfolding show_status_p_def agree_fields(8-11) [OF assms]
  by (rule rel_rbind [where R = "(=)"])
    (use agree_write_status [OF agree_none [OF assms]] in \<open>auto simp: sum.rel_eq simp del: irqs_Nil split: option.splits\<close>)

lemma agree_refresh:
  assumes "agree k s t"
  shows "rel_sum (=) (agree k) (editor_refresh_screen_p fr s) (editor_refresh_screen t)"
  unfolding no_interrupts_refresh [symmetric] editor_refresh_screen_p_def
proof (rule rel_rbind)
  show "rel_sum (=) (agree k) (show_text_p fr (irqs (fr 18) (terminal_clear (irqs (fr 17) s))))
      (show_text_p (\<lambda>_. []) (irqs [] (terminal_clear (irqs [] t))))"
    by (intro agree_text agree_none agree_clear assms)
qed (intro agree_status agree_none)

subsection \<open>A whole turn\<close>

text \<open>The keys pressed do not take anything out of the queue.\<close>

lemma key_press_appends: "\<exists>ks. snd (snd (key_press v k)) = snd (snd k) @ ks"
  by (cases k) auto

lemma key_presses_append: "\<exists>ks. snd (snd (fold key_press vs k)) = snd (snd k) @ ks"
proof (induction vs arbitrary: k)
  case (Cons v vs)
  from key_press_appends [of v k] Cons [of "key_press v k"] show ?case by auto
qed simp

definition take_key :: "kbd \<Rightarrow> kbd" where
  "take_key = (\<lambda>(shift, caps, q). (shift, caps, tl q))"

lemma agree_queue:
  assumes "agree (kbd_view s, es) u t"
  shows "\<exists>ks. kb_queue u = kb_queue s @ ks"
proof -
  obtain vs where vs: "kbd_view u = fold key_press vs (kbd_view s)" using assms by (auto simp: agree_def)
  obtain ks where "snd (snd (fold key_press vs (kbd_view s))) = snd (snd (kbd_view s)) @ ks"
    using key_presses_append by blast
  then have "snd (snd (kbd_view u)) = snd (snd (kbd_view s)) @ ks" unfolding vs .
  then show ?thesis by (auto simp: kbd_view_def)
qed

text \<open>The character that waits first is taken whatever arrives meanwhile.\<close>

lemma getchar_first:
  assumes "kb_ok s" and "kb_queue s = c # cs"
  shows "buffer_start s \<noteq> buffer_end s" and "keyboard_buffer s ! buffer_start s = c"
    and "kb_ok (s\<lparr>buffer_start := (buffer_start s + 1) mod KEYBOARD_BUFFER_SIZE\<rparr>)"
    and "kb_queue (s\<lparr>buffer_start := (buffer_start s + 1) mod KEYBOARD_BUFFER_SIZE\<rparr>) = cs"
proof -
  show ne: "buffer_start s \<noteq> buffer_end s" using keyboard_getchar_empty [OF assms(1)] assms(2) by auto
  then have "keyboard_getchar s = (keyboard_buffer s ! buffer_start s,
      s\<lparr>buffer_start := (buffer_start s + 1) mod KEYBOARD_BUFFER_SIZE\<rparr>)"
    by (simp add: keyboard_getchar_def Let_def)
  with keyboard_getchar_queue(2) [OF assms] keyboard_getchar_queue(3) [OF assms(1)]
  show "keyboard_buffer s ! buffer_start s = c"
    "kb_ok (s\<lparr>buffer_start := (buffer_start s + 1) mod KEYBOARD_BUFFER_SIZE\<rparr>)"
    "kb_queue (s\<lparr>buffer_start := (buffer_start s + 1) mod KEYBOARD_BUFFER_SIZE\<rparr>) = cs" by simp_all
qed

lemma agree_getchar:
  assumes ok: "kb_ok s" and q: "kb_queue s = c # cs"
  obtains es u t where "keyboard_getchar_p fr s = (c, u)" "keyboard_getchar s = (c, t)"
    "agree (take_key (fold key_press (scan_codes es) (kbd_view s)), events s @ es) u t"
proof -
  let ?adv = "\<lambda>s. s\<lparr>buffer_start := (buffer_start s + 1) mod KEYBOARD_BUFFER_SIZE\<rparr>"
  define u where "u = irqs (fr 0) s"
  define v where "v = irqs (fr 1) u"
  have "agree (kbd_view s, events s) s s"
    unfolding agree_def using ok by (intro conjI refl exI [of _ "[]"]) simp_all
  then have u: "agree (kbd_view s, events s) u s" unfolding u_def by (rule agree_irqs)
  then have v: "agree (kbd_view s, events s) v s" unfolding v_def by (rule agree_irqs)
  obtain ks where ks: "kb_queue u = c # cs @ ks" using agree_queue [OF u] q by auto
  obtain ls where ls: "kb_queue v = c # cs @ ls" using agree_queue [OF v] q by auto
  have kb: "kb_ok u" "kb_ok v" using u v by (simp_all add: agree_def)
  note first = getchar_first [OF ok q] and fu = getchar_first [OF kb(1) ks] and fv = getchar_first [OF kb(2) ls]
  obtain es where es: "events v = events s @ es" "kbd_view v = fold key_press (scan_codes es) (kbd_view s)"
    using v by (auto simp: agree_def)
  let ?k = "(take_key (fold key_press (scan_codes es) (kbd_view s)), events s @ es)"
  have "kbd_view (?adv v) = take_key (kbd_view v)"
    using fv(4) ls by (simp add: kbd_view_def take_key_def)
  then have "\<exists>fs. events (?adv v) = snd ?k @ fs \<and> kbd_view (?adv v) = fold key_press (scan_codes fs) (fst ?k)"
    by (intro exI [of _ "[]"]) (simp add: es)
  with fv(3) v have a: "agree ?k (?adv v) (?adv s)"
    unfolding agree_def by simp
  show ?thesis
  proof (rule that)
    show "keyboard_getchar_p fr s = (c, irqs (fr 2) (?adv v))"
      using first(1) fu(2) unfolding keyboard_getchar_p_def u_def v_def by (simp add: Let_def)
    show "keyboard_getchar s = (c, ?adv s)" using first by (simp add: keyboard_getchar_def Let_def)
    show "agree ?k (irqs (fr 2) (?adv v)) (?adv s)"
      by (rule agree_irqs [OF a])
  qed
qed

text \<open>Same outcome: both do not return, both fault in the same way, or both go on in states that agree.\<close>

definition same_outcome ::
  "kbd \<times> event list \<Rightarrow> (fault + 'a editor_scheme run) option \<Rightarrow> (fault + 'a editor_scheme run) option \<Rightarrow> bool" where
  "same_outcome k = rel_option (rel_sum (=) (rel_run (agree k)))"

lemma agree_turn:
  assumes ok: "kb_ok s" and q: "kb_queue s = c # cs" and c: "\<not> command_key c"
  shows "\<exists>es. same_outcome (take_key (fold key_press (scan_codes es) (kbd_view s)), events s @ es)
    (preempted_turn call fr s) (editor_process_keypress call s)"
proof -
  obtain es u t where g: "keyboard_getchar_p fr s = (c, u)" "keyboard_getchar s = (c, t)"
    and ut: "agree (take_key (fold key_press (scan_codes es) (kbd_view s)), events s @ es) u t"
    by (rule agree_getchar [OF ok q])
  let ?k = "(take_key (fold key_press (scan_codes es) (kbd_view s)), events s @ es)"
  have c0: "c \<noteq> 0" using ok q by (auto simp: kb_ok_def)
  have "rel_option (rel_sum (=) (rel_run (agree ?k)))
      (Option.bind (editor_key_p call fr c u) (\<lambda>r. case r of
          Inr (Running s) \<Rightarrow> Some (map_sum id Running (editor_refresh_screen_p fr s)) | _ \<Rightarrow> Some r))
      (Option.bind (editor_key call c t) (\<lambda>r. case r of
          Inr (Running s) \<Rightarrow> Some (map_sum id Running (editor_refresh_screen s)) | _ \<Rightarrow> Some r))"
  proof (rule rel_option_bindI [OF agree_key [OF ut c]])
    fix x y :: "fault + 'a editor_scheme run"
    assume xy: "rel_sum (=) (rel_run (agree ?k)) x y"
    have "rel_sum (=) (rel_run (agree ?k)) (map_sum id Running (editor_refresh_screen_p fr a))
        (map_sum id Running (editor_refresh_screen b))" if "agree ?k a b" for a b
      using agree_refresh [OF that, of fr] by (cases "editor_refresh_screen_p fr a"; cases "editor_refresh_screen b") auto
    with xy show "rel_option (rel_sum (=) (rel_run (agree ?k)))
        (case x of Inr (Running s) \<Rightarrow> Some (map_sum id Running (editor_refresh_screen_p fr s)) | _ \<Rightarrow> Some x)
        (case y of Inr (Running s) \<Rightarrow> Some (map_sum id Running (editor_refresh_screen s)) | _ \<Rightarrow> Some y)"
      by (auto elim!: rel_sum.cases run.rel_cases)
  qed
  then show ?thesis
    unfolding same_outcome_def
    by (intro exI [of _ es]) (simp add: preempted_turn_def editor_process_keypress_def g c0)
qed


subsection \<open>The system\<close>

lemma agree_session:
  assumes a: "agree k s t" and t: "session_ok t L"
  shows "session_ok s L" and "ed_view s = ed_view t" and "E_buffer_size s = E_buffer_size t"
    and "heap_slack j s = heap_slack j t" and "kept L u s = kept L u t" and "view s = view t"
proof -
  note f = agree_fields [OF a]
  have same: "heap_live s L' = heap_live t L'" "heap_slack j s = heap_slack j t" "ed_blocks s L L' = ed_blocks t L L'"
    for L' j by (simp_all add: heap_live_def heap_ok_def heap_slack_def ed_blocks_def f)
  have "ed_ok s L = ed_ok t L" "term_ok s = term_ok t"
    unfolding ed_ok_def same by (simp_all add: term_ok_def f)
  moreover have "kb_ok s" using a by (simp add: agree_def)
  ultimately show "session_ok s L" using t f by (simp add: session_ok_def)
  show "heap_slack j s = heap_slack j t" by (rule same)
  show "ed_view s = ed_view t" "E_buffer_size s = E_buffer_size t" "kept L u s = kept L u t"
    by (simp_all add: ed_view_def ed_text_def kept_def f)
  show "view s = view t" by (simp add: view_def cells_def get_cell_def f)
qed

lemma key_presses_typable:
  "\<forall>c \<in> set (snd (snd k)). typable c \<Longrightarrow> \<forall>c \<in> set (snd (snd (fold key_press vs k))). typable c"
proof (induction vs arbitrary: k)
  case (Cons v vs)
  obtain sh ca q where k: "k = (sh, ca, q)" by (cases k)
  obtain sh' ca' q' where k': "key_press v k = (sh', ca', q')" by (cases "key_press v k")
  have "\<forall>c \<in> set q'. typable c" using key_press_typable [of q v sh ca] Cons.prems k k' by auto
  with Cons.IH [of "key_press v k"] k' show ?case by simp
qed simp

lemma take_key_typable:
  "\<forall>c \<in> set (snd (snd k)). typable c \<Longrightarrow> \<forall>c \<in> set (snd (snd (take_key k))). typable c"
  by (cases "snd (snd k)") (auto simp: take_key_def case_prod_beta)

lemma agree_typable:
  assumes "agree k s t" and "\<forall>c \<in> set (snd (snd (fst k))). typable c"
  shows "\<forall>c \<in> set (kb_queue s). typable c"
proof -
  obtain vs where "kbd_view s = fold key_press vs (fst k)" using assms(1) by (auto simp: agree_def)
  then have "kb_queue s = snd (snd (fold key_press vs (fst k)))" by (metis kbd_view_def snd_conv)
  then show ?thesis using key_presses_typable [OF assms(2)] by simp
qed

lemma irqs_sys_ok:
  assumes "sys_ok s L"
  shows "sys_ok (irqs frames s) L \<and> kept L s (irqs frames s) \<and> (heap_slack k s \<longrightarrow> heap_slack k (irqs frames s)) \<and>
    E_buffer_size (irqs frames s) = E_buffer_size s"
  using assms
proof (induction frames arbitrary: s)
  case (Cons f frames)
  note i = irq_sys_ok [OF Cons.prems, where regs = f]
  have "irqs (f # frames) s = irqs frames (irq_handler f s)" by (simp add: irqs_def)
  with Cons.IH [OF i(1)] i kept_trans [OF i(2)] show ?case by simp
qed (simp add: kept_def)

text \<open>The switch does not jump anywhere for a key that can be typed.\<close>

lemma preempted_call:
  assumes ok: "kb_ok s" and ty: "\<forall>c \<in> set (kb_queue s). typable c"
  shows "preempted_turn call fr s = preempted_turn call' fr s"
proof (cases "kb_queue s")
  case Nil
  then have "fst (keyboard_getchar_p fr s) = 0"
    using keyboard_getchar_empty [OF ok] by (simp add: keyboard_getchar_p_def)
  then show ?thesis by (simp add: preempted_turn_def case_prod_beta)
next
  case (Cons c cs)
  obtain u where u: "keyboard_getchar_p fr s = (c, u)" by (rule agree_getchar [OF ok Cons])
  have "\<not> command_key c" using ty Cons typable_no_command by simp
  then have "editor_key_p call fr c u = editor_key_p call' fr c u" by (simp add: editor_key_p_def)
  then show ?thesis by (simp add: preempted_turn_def u)
qed

lemma preempted_turn_running:
  assumes ok: "sys_ok s L" and t: "editor_process_keypress call s = Some (Inr (Running t))" and tok: "sys_ok t L"
  obtains u where "preempted_turn call fr s = Some (Inr (Running u))" "sys_ok u L"
    "kept L s t \<longrightarrow> kept L s u" "heap_slack k t \<longrightarrow> heap_slack k u" "E_buffer_size u = E_buffer_size t"
proof (cases "kb_queue s")
  case Nil
  have kb: "kb_ok s" using ok by (simp add: sys_ok_def session_ok_def)
  have "keyboard_getchar s = (0, s)" using keyboard_getchar_queue(1) [OF kb] Nil by simp
  then have st: "t = s" using t by (simp add: editor_process_keypress_def)
  have "keyboard_getchar_p fr s = (0, irqs (fr 0) s)"
    using keyboard_getchar_empty [OF kb] Nil by (simp add: keyboard_getchar_p_def)
  then have "preempted_turn call fr s = Some (Inr (Running (irqs (fr 0) s)))" by (simp add: preempted_turn_def)
  with irqs_sys_ok [OF ok, of "fr 0" k] st show ?thesis by (intro that [of "irqs (fr 0) s"]) auto
next
  case (Cons c cs)
  have kb: "kb_ok s" and ty: "\<forall>c \<in> set (kb_queue s). typable c" using ok by (simp_all add: sys_ok_def session_ok_def)
  have "\<not> command_key c" using ty Cons typable_no_command by simp
  from agree_turn [OF kb Cons this, of call fr] obtain es where
    "same_outcome (take_key (fold key_press (scan_codes es) (kbd_view s)), events s @ es)
      (preempted_turn call fr s) (editor_process_keypress call s)" ..
  then obtain u where u: "preempted_turn call fr s = Some (Inr (Running u))"
    and a: "agree (take_key (fold key_press (scan_codes es) (kbd_view s)), events s @ es) u t"
    unfolding same_outcome_def t by (auto simp: option_rel_Some2 elim!: rel_sum.cases run.rel_cases)
  have "\<forall>c \<in> set (snd (snd (kbd_view s))). typable c" using ty by (simp add: kbd_view_def)
  from take_key_typable [OF key_presses_typable [OF this]]
  have "\<forall>c \<in> set (snd (snd (fst (take_key (fold key_press (scan_codes es) (kbd_view s)), events s @ es)))). typable c"
    by simp
  note q = agree_typable [OF a this]
  have "session_ok t L" using tok by (simp add: sys_ok_def)
  note s = agree_session [OF a this]
  from s(1) q have "sys_ok u L" by (simp add: sys_ok_def)
  with u s show ?thesis by (intro that [of u]) simp_all
qed

lemma preempted_turn_sys_ok:
  assumes ok: "sys_ok s L" and slack: "heap_slack (14 + unat (E_buffer_size s) + k) s"
  shows "\<exists>u. (\<forall>call. preempted_turn call fr s = Some (Inr (Running u))) \<and> sys_ok u L \<and>
    kept L s u \<and> heap_slack k u \<and> unat (E_buffer_size u) \<le> Suc (unat (E_buffer_size s))"
proof -
  from turn_sys_ok [OF assms] obtain t where t: "\<forall>call. editor_process_keypress call s = Some (Inr (Running t))"
    "sys_ok t L" "kept L s t" "heap_slack k t" "unat (E_buffer_size t) \<le> Suc (unat (E_buffer_size s))" by blast
  from preempted_turn_running [OF ok t(1) [rule_format] t(2), of "\<lambda>_. Some" fr k] obtain u where
    u: "preempted_turn (\<lambda>_. Some) fr s = Some (Inr (Running u))" "sys_ok u L" "kept L s t \<longrightarrow> kept L s u"
    "heap_slack k t \<longrightarrow> heap_slack k u" "E_buffer_size u = E_buffer_size t" .
  have "preempted_turn call fr s = Some (Inr (Running u))" for call
    using u(1) preempted_call [of s call fr "\<lambda>_. Some"] ok by (simp add: sys_ok_def session_ok_def)
  with u t show ?thesis by auto
qed

text \<open>
  A step of the system is an interrupt between two turns of the loop, through
  \<^const>\<open>irq_handler\<close>, or a turn with interrupts at any of its points.
\<close>

inductive sys_step ::
  "(u32 \<Rightarrow> 'a editor_scheme \<Rightarrow> 'a editor_scheme option) \<Rightarrow> 'a editor_scheme \<Rightarrow> 'a editor_scheme \<Rightarrow> bool"
  for call where
  interrupt: "sys_step call s (irq_handler regs s)"
| turn: "preempted_turn call fr s = Some (Inr (Running s')) \<Longrightarrow> sys_step call s s'"

lemma sys_steps_ok:
  assumes "(sys_step call ^^ n) s s'" and "sys_ok s L"
    and "heap_slack (n * (15 + unat (E_buffer_size s) + n) + k) s"
  shows "sys_ok s' L \<and> kept L s s' \<and> heap_slack k s' \<and> unat (E_buffer_size s') \<le> unat (E_buffer_size s) + n"
  using assms
proof (induction n arbitrary: s)
  case 0
  then show ?case by (simp add: kept_def)
next
  case (Suc n)
  let ?z = "unat (E_buffer_size s)"
  obtain t where t: "sys_step call s t" "(sys_step call ^^ n) t s'"
    using relpowp_Suc_D2 [OF Suc.prems(1)] by blast
  have le: "14 + ?z + (n * (16 + ?z + n) + k) \<le> Suc n * (15 + ?z + Suc n) + k"
    by (simp add: algebra_simps)
  have mid: "sys_ok t L \<and> kept L s t \<and> heap_slack (n * (16 + ?z + n) + k) t \<and> unat (E_buffer_size t) \<le> Suc ?z"
    using t(1)
  proof cases
    case (interrupt regs)
    note i = irq_sys_ok [OF Suc.prems(2), where regs = regs]
    have "heap_slack (n * (16 + ?z + n) + k) s" by (rule heap_slack_mono [OF Suc.prems(3)]) (use le in simp)
    with i show ?thesis unfolding interrupt by simp
  next
    case (turn fr)
    from preempted_turn_sys_ok [OF Suc.prems(2) heap_slack_mono [OF Suc.prems(3) le], of fr] obtain u where
      u: "\<forall>call. preempted_turn call fr s = Some (Inr (Running u))" "sys_ok u L" "kept L s u"
      "heap_slack (n * (16 + ?z + n) + k) u" "unat (E_buffer_size u) \<le> Suc ?z" by blast
    have "u = t" using u(1) turn by simp
    with u show ?thesis by simp
  qed
  then have "n * (15 + unat (E_buffer_size t) + n) + k \<le> n * (16 + ?z + n) + k" by simp
  with mid have "heap_slack (n * (15 + unat (E_buffer_size t) + n) + k) t" using heap_slack_mono by blast
  from Suc.IH [OF t(2) _ this] mid show ?case using kept_trans [of L s t s'] by auto
qed

subsection \<open>Properties\<close>

text \<open>
  C3. Interrupts inside a turn of the main loop do no harm, wherever they come, however many
  and with whatever frame: with a key waiting that is no command, the turn with interrupts
  at its points has the outcome of the turn without them (it returns or does not, or faults, alike), and
  afterwards memory, heap, screen, files and editor are the same. The keyboard is where the scan
  codes that were read from the port take it, in their order, with the first key taken out at one
  moment between them; the queue that is left begins with the keys that waited, so that none
  of them is lost and none overtakes another.
\<close>

theorem preempted_turn_same:
  assumes "kb_ok s" and "kb_queue s = c # cs" and "\<not> command_key c"
  shows "(\<exists>es. same_outcome (take_key (fold key_press (scan_codes es) (kbd_view s)), events s @ es)
      (preempted_turn call fr s) (editor_process_keypress call s)) \<and>
    (\<forall>u. preempted_turn call fr s = Some (Inr (Running u)) \<longrightarrow> (\<exists>ks. kb_queue u = cs @ ks))"
proof -
  obtain es where same: "same_outcome (take_key (fold key_press (scan_codes es) (kbd_view s)), events s @ es)
      (preempted_turn call fr s) (editor_process_keypress call s)"
    using agree_turn [OF assms] by blast
  let ?k = "fold key_press (scan_codes es) (kbd_view s)"
  have "\<exists>ks. kb_queue u = cs @ ks" if u: "preempted_turn call fr s = Some (Inr (Running u))" for u
  proof -
    obtain t where "agree (take_key ?k, events s @ es) u t"
      using same u unfolding same_outcome_def by (auto simp: option_rel_Some1 elim!: rel_sum.cases run.rel_cases)
    then obtain us where us: "kbd_view u = fold key_press us (take_key ?k)" by (auto simp: agree_def)
    obtain ks where ks: "snd (snd ?k) = c # cs @ ks"
      using key_presses_append [of "scan_codes es" "kbd_view s"] assms(2) by (auto simp: kbd_view_def)
    have "snd (snd (take_key ?k)) = cs @ ks"
      using ks by (simp add: take_key_def case_prod_beta)
    then obtain ls where "snd (snd (kbd_view u)) = (cs @ ks) @ ls"
      using key_presses_append [of us "take_key ?k"] unfolding us by auto
    then show ?thesis by (auto simp: kbd_view_def)
  qed
  with same show ?thesis by blast
qed

text \<open>Two keys wait, and two interrupts come at every point: the text is the first key.\<close>

theorem preempted_turn_same_witness:
  "\<exists>u ks. preempted_turn (\<lambda>_. Some) (\<lambda>_. [0, 0x1000]) (blank_editor [97, 98]) = Some (Inr (Running u)) \<and>
     ed_text u = [97] \<and> kb_queue u = [98] @ ks"
proof -
  let ?s = "blank_editor [97, 98]" and ?fr = "\<lambda>_ :: nat. [0, 0x1000] :: u32 list"
  have ok: "session_ok ?s {}" "kb_queue ?s = [97, 98]" by (rule blank_editor_ok; simp)+
  have kb: "kb_ok ?s" using ok(1) by (simp add: session_ok_def)
  have c: "\<not> command_key 97" by (simp add: command_key_def)
  have "heap_slack (14 + unat (E_buffer_size ?s) + 0) ?s"
    by (rule blank_editor_ok(3)) (simp_all add: blank_editor_fields)
  from keypress_session [OF ok c this, of "\<lambda>_. Some"] obtain t where
    t: "editor_process_keypress (\<lambda>_. Some) ?s = Some (Inr (Running t))" "session_ok t {}"
    "ed_view t = ed_press (E_screen_cols ?s) 97 (ed_view ?s)" by metis
  note same = preempted_turn_same [OF kb ok(2) c, of "\<lambda>_. Some" ?fr]
  then obtain k where "same_outcome k (preempted_turn (\<lambda>_. Some) ?fr ?s) (Some (Inr (Running t)))"
    unfolding t(1) by blast
  then obtain u where u: "preempted_turn (\<lambda>_. Some) ?fr ?s = Some (Inr (Running u))" and a: "agree k u t"
    unfolding same_outcome_def by (auto simp: option_rel_Some2 elim!: rel_sum.cases run.rel_cases)
  have "ed_view ?s = ([], 0, 0)" by (simp add: ed_view_def ed_text_def blank_editor_fields)
  then have "ed_view u = ([97], 1, 0)"
    unfolding agree_session(2) [OF a t(2)] t(3) by (simp add: ed_press_def blank_editor_fields word_le_nat_alt)
  then have "ed_text u = [97]" by (simp add: ed_view_def)
  with u same show ?thesis by blast
qed

end
