(* ===== verification/Kernel.thy ===== *)
theory Kernel
  imports Preemption
begin

text \<open>
  The entry point, \<^verbatim>\<open>kernel_init\<close> and \<^verbatim>\<open>kernel_main\<close> of
  \<^verbatim>\<open>kernel/kernel.cpp\<close>: the order in which the subsystems are brought up, the banner,
  and the main loop. The theorems compose the components: what boot leaves behind, and that
  from there any sequence of interrupts and turns of the main loop keeps the system well.
\<close>

definition kernel_init :: "'a editor_scheme \<Rightarrow> 'a editor_scheme option" where
  "kernel_init s =
     do {
       let s = memory_init s;
       let s = s\<lparr>total_memory := memory_get_total\<rparr>;
       let s = s\<lparr>free_memory := memory_get_free\<rparr>;
       let s = terminal_init s;
       s \<leftarrow> keyboard_init s;
       let s = filesystem_init s;
       let s = interrupts_init s;
       let s = compiler_init s;
       Some (editor_init s)
     }"

text \<open>Lines 168 to 175, without the line feed that ends each of them.\<close>

definition banner :: "string list" where
  "banner =
    [''   ______  __  __  ____    _____ _______ '',
     ''  / ____ '' @ [CHR 92] @ ''|  ||  |/ __ '' @ [CHR 92] @ ''  / ____|__   __|'',
     '' | |  | | |  ||  | |  | || (___    | |   '',
     '' | |  | | |  ||  | |  | | '' @ [CHR 92] @ ''___ '' @ [CHR 92] @ ''   | |   '',
     '' | |__| | |  ||  | |__| | ____) |  | |   '',
     ''  '' @ [CHR 92] @ ''___'' @ [CHR 92] @ ''_'' @ [CHR 92] @ '' |__||__| '' @ [CHR 92] @ ''____/ |_____/   |_|   '',
     ''            Security Edition v2.0.0        '',
     ''----------------------------------------'']"

definition print :: "string \<Rightarrow> 'a terminal_scheme \<Rightarrow> 'a terminal_scheme" where
  "print l = terminal_write_string (lit l)"

text \<open>
  What \<^verbatim>\<open>kernel_main\<close> prints before it initialises the terminal.
\<close>

definition first_output :: "'a terminal_scheme \<Rightarrow> 'a terminal_scheme" where
  "first_output s = print crlf (fold (\<lambda>i. print ''.'') [0..<3::nat] (print ''GHOST'' (terminal_clear s)))"

text \<open>
  \<^verbatim>\<open>kernel_main\<close> up to the main loop. The empty delay loops are left out;
  \<^verbatim>\<open>memstr\<close> is uninitialised in the code (zeros here) and written before it is read.
\<close>

definition kernel_boot :: "'a editor_scheme \<Rightarrow> (fault + 'a editor_scheme) option" where
  "kernel_boot s =
     do {
       s \<leftarrow> kernel_init (first_output s);
       let s = terminal_clear s;
       let s = fold (\<lambda>l. print (l @ [CHR 0x0A])) banner s;
       let s = print ''Memory: '' s;
       Some (
         rbind (int_to_string (sint (total_memory s div 1024)) (replicate 32 0)) (\<lambda>memstr.
         let s = terminal_write_string memstr s;
             s = print '' KB total, '' s
         in
         rbind (int_to_string (sint (free_memory s div 1024)) memstr) (\<lambda>memstr.
         let s = terminal_write_string memstr s;
             s = print ('' KB free'' @ [CHR 0x0A]) s
         in Inr (editor_init s))))
     }"

text \<open>The main loop is cut after a number of turns.\<close>

definition kernel_main ::
  "(u32 \<Rightarrow> 'a editor_scheme \<Rightarrow> 'a editor_scheme option) \<Rightarrow> nat \<Rightarrow> 'a editor_scheme \<Rightarrow>
   (fault + 'a editor_scheme run) option" where
  "kernel_main call turns s =
     do {
       r \<leftarrow> kernel_boot s;
       case r of Inl e \<Rightarrow> Some (Inl e) | Inr s \<Rightarrow> main_loop call turns s
     }"

subsection \<open>Bringing the subsystems up\<close>

text \<open>What the initialisations after \<^verbatim>\<open>terminal_init\<close> leave alone.\<close>

definition base_same :: "'a editor_scheme \<Rightarrow> 'a editor_scheme \<Rightarrow> bool" where
  "base_same s s' \<longleftrightarrow> ram s' = ram s \<and> heap_start s' = heap_start s \<and>
     terminal_row s' = terminal_row s \<and> terminal_column s' = terminal_column s \<and>
     terminal_color s' = terminal_color s \<and> terminal_buffer s' = terminal_buffer s \<and>
     total_memory s' = total_memory s \<and> free_memory s' = free_memory s \<and>
     keyboard_buffer s' = keyboard_buffer s \<and> linked s' = linked s"

definition ring_reset :: "'a keyboard_scheme \<Rightarrow> bool" where
  "ring_reset s \<longleftrightarrow> length (keyboard_buffer s) = KEYBOARD_BUFFER_SIZE \<and> buffer_start s = 0 \<and> buffer_end s = 0"

lemma ring_reset_ok: "ring_reset s \<Longrightarrow> kb_ok s \<and> kb_queue s = []"
  by (simp add: ring_reset_def kb_ok_def kb_queue_def KEYBOARD_BUFFER_SIZE_def)

lemma keyboard_init_same:
  assumes "\<forall>es. device s es KEYBOARD_STATUS_PORT = 1" and "ring_reset s"
  shows "\<exists>s'. keyboard_init s = Some s' \<and> base_same s s' \<and> ring_reset s'"
  using keyboard_init_answers [OF assms(1)] assms(2) by (auto simp: base_same_def ring_reset_def)

lemma filesystem_init_same: "\<exists>f. filesystem_init s = s\<lparr>files := f, num_files := 0\<rparr>"
proof -
  let ?f = "\<lambda>i s. s\<lparr>files := (files s)[i := (files s ! i)\<lparr>file_used := False\<rparr>]\<rparr>"
  have "\<exists>f. fold ?f xs (s\<lparr>files := g\<rparr>) = s\<lparr>files := f\<rparr>" for xs g
    by (induction xs arbitrary: g) auto
  from this [of "[0..<MAX_FILES]" "files s"] show ?thesis
    unfolding filesystem_init_def by (auto simp: Let_def)
qed

definition init_same :: "'a editor_scheme \<Rightarrow> 'a editor_scheme \<Rightarrow> bool" where
  "init_same s s' \<longleftrightarrow> base_same s s' \<and> (ring_reset s \<longrightarrow> ring_reset s')"

lemma init_same_steps:
  fixes s t :: "'a editor_scheme"
  assumes "init_same s t"
  shows "init_same s (t\<lparr>events := es\<rparr>)" and "init_same s (outb p v t)"
    and "init_same s (t\<lparr>idt := i\<rparr>)" and "init_same s (t\<lparr>idtp_limit := l\<rparr>)" and "init_same s (t\<lparr>idtp_base := b\<rparr>)"
    and "init_same s (idt_set_gate n a sl fl t)" and "init_same s (idt_load l b t)"
  using assms by (simp_all add: init_same_def base_same_def ring_reset_def outb_def idt_set_gate_def idt_load_def)

lemma interrupts_init_same: "init_same s (interrupts_init s)"
proof -
  have refl: "init_same s s" by (simp add: init_same_def base_same_def)
  have pic: "init_same s (pic_init t)" if "init_same s t" for t
    unfolding pic_init_def Let_def by (intro init_same_steps that)
  show ?thesis
    unfolding interrupts_init_def Let_def by (intro init_same_steps pic refl)
qed

lemma base_same_trans: "base_same s t \<Longrightarrow> base_same t u \<Longrightarrow> base_same s u"
  by (simp add: base_same_def)

text \<open>The state that \<^verbatim>\<open>kernel_init\<close> leaves: an empty heap, a blank screen and an empty editor.\<close>

definition fresh_editor :: "'a editor_scheme \<Rightarrow> bool" where
  "fresh_editor s \<longleftrightarrow> E_buffer s = 0 \<and> E_buffer_size s = 0 \<and> E_cursor_x s = 0 \<and> E_cursor_y s = 0 \<and>
     E_filename s = None \<and> E_screen_rows s = 24 \<and> E_screen_cols s = 80 \<and> \<not> E_is_modified s"

lemma editor_init_fresh:
  "fresh_editor (editor_init s)" "base_same s (editor_init s)"
  "ring_reset (editor_init s) = ring_reset s"
  by (simp_all add: editor_init_def terminal_get_size_def compiler_init_def fresh_editor_def
      base_same_def ring_reset_def VGA_HEIGHT_def VGA_WIDTH_def Let_def)

lemma idt_editor_init [simp]: "idt (editor_init s) = idt s" "idt (compiler_init s) = idt s"
  by (simp_all add: editor_init_def compiler_init_def terminal_get_size_def Let_def)

text \<open>The memory below the screen, which only code with a null pointer reaches.\<close>

definition low_same :: "mem \<Rightarrow> mem \<Rightarrow> bool" where
  "low_same m m' \<longleftrightarrow> (\<forall>a. unat a < 0xB8000 \<longrightarrow> m' a = m a)"

lemma low_outside:
  assumes "unat a < 0xB8000" and "unat p \<ge> 0xB8000" and "unat p + n \<le> 2 ^ 32"
  shows "\<not> in_run a p n"
  using assms by (simp add: in_run_def unat_sub_if')

lemma low_same_window:
  assumes "\<forall>a. \<not> in_run a VGA_MEMORY 4000 \<longrightarrow> m' a = m a"
  shows "low_same m m'"
  using assms low_outside [of _ VGA_MEMORY 4000] by (simp add: low_same_def VGA_MEMORY_def)

lemma low_same_memory_init: "low_same (ram s) (ram (memory_init s))"
proof -
  have "\<not> in_run a 0x100000 4" "\<not> in_run a 0x100004 4" "a \<noteq> 0x100008" if "unat a < 0xB8000" for a
    using low_outside [OF that, of "0x100000" 4] low_outside [OF that, of "0x100004" 4] that by auto
  then show ?thesis
    by (simp add: low_same_def memory_init_def set_free_def set_next_def set_size_def HEAP_START_def
        store32_outside)
qed

lemma low_same_trans: "low_same m m' \<Longrightarrow> low_same m' m'' \<Longrightarrow> low_same m m''"
  by (simp add: low_same_def)

text \<open>
  The part of the initialisation that every version of the kernel has, for any numbers that it
  reports as total and free memory.
\<close>

lemma bring_up:
  fixes s :: "'a editor_scheme" and total avail :: u32
  assumes dev: "\<forall>es. device s es KEYBOARD_STATUS_PORT = 1" and ring: "ring_reset s"
  obtains t u where "keyboard_init (terminal_init ((memory_init s)\<lparr>total_memory := total, free_memory := avail\<rparr>)) = Some t"
    "u = interrupts_init (filesystem_init t)" "heap_live u {}" "heap_slack 0xE0000000 u"
    "terminal_color u = 7" "terminal_buffer u = VGA_MEMORY" "total_memory u = total" "free_memory u = avail"
    "view u = (0, 0, replicate cell_count (make_vgaentry 32 7))" "term_ok u"
    "ring_reset u" "low_same (ram s) (ram u)" "linked u = linked s" "idt u = idt (interrupts_init u)"
    "heap_ok u [(HEAP_SIZE - sizeof_block_meta, True)]"
proof -
  define t0 where "t0 = (memory_init s)\<lparr>total_memory := total, free_memory := avail\<rparr>"
  define t1 where "t1 = terminal_init t0"
  let ?u = "t0\<lparr>terminal_row := 0, terminal_column := 0,
       terminal_color := make_color VGA_COLOR_LIGHT_GREY VGA_COLOR_BLACK,
       terminal_buffer := VGA_MEMORY, is_initialized := True\<rparr>"
  have clear: "t1 = terminal_clear ?u" by (simp add: t1_def terminal_init_def)
  have so: "screen_only ?u t1" unfolding clear by (rule terminal_clear_screen_only)
  then obtain m where t1: "t1 = ?u\<lparr>ram := m\<rparr>" "\<forall>a. \<not> in_run a VGA_MEMORY 4000 \<longrightarrow> m a = ram (memory_init s) a"
    unfolding screen_only_def by (auto simp: t0_def)
  have vw: "cells t1 = replicate cell_count (make_vgaentry 32 7)"
    unfolding clear cells_terminal_clear by (simp add: make_color_def)
  have heap: "heap_live t1 {}" "heap_slack 0xE0000000 t1" "heap_ok t1 [(HEAP_SIZE - sizeof_block_meta, True)]"
  proof -
    have same: "ram t1 x = ram (memory_init s) x" if "unat HEAP_START \<le> unat x" for x
      using t1 above_window [OF that] by simp
    have start: "heap_start t1 = heap_start (memory_init s)" using t1 by (simp add: t0_def)
    show "heap_live t1 {}" by (rule heap_live_above(1) [OF memory_init_live start same])
    show "heap_ok t1 [(HEAP_SIZE - sizeof_block_meta, True)]" by (rule heap_ok_above [OF memory_init_ok start same])
    have "heap_slack 0xE0000000 (memory_init s)" by (rule memory_init_slack) simp
    from heap_slack_above [OF memory_init_live start _ this] same show "heap_slack 0xE0000000 t1" by blast
  qed
  have "device t1 = device s" "ring_reset t1"
    using ring by (simp_all add: t1 t0_def memory_init_def ring_reset_def)
  then obtain t2 where t2: "keyboard_init t1 = Some t2" "base_same t1 t2" "ring_reset t2"
    using keyboard_init_same [of t1] dev by auto
  obtain f where f: "filesystem_init t2 = t2\<lparr>files := f, num_files := 0\<rparr>" using filesystem_init_same by blast
  let ?t3 = "t2\<lparr>files := f, num_files := 0\<rparr>"
  have t3: "base_same t2 ?t3" "ring_reset ?t3" using t2(3) by (simp_all add: base_same_def ring_reset_def)
  let ?t4 = "interrupts_init ?t3"
  have ring4: "ring_reset ?t4" using interrupts_init_same [of ?t3] t3(2) by (simp add: init_same_def)
  have "base_same t1 ?t4"
    by (rule base_same_trans [OF t2(2)], rule base_same_trans [OF t3(1)],
        rule conjunct1 [OF interrupts_init_same [unfolded init_same_def]])
  note b = this [unfolded base_same_def]
  have run: "keyboard_init (terminal_init ((memory_init s)\<lparr>total_memory := total, free_memory := avail\<rparr>)) = Some t2"
    using t2(1) by (simp only: t1_def t0_def)
  show ?thesis
  proof (rule that [OF run])
    show "?t4 = interrupts_init (filesystem_init t2)" by (simp add: f)
    show "heap_live ?t4 {}" by (rule heap_live_above(1) [OF heap(1)]) (use b in simp_all)
    show "heap_ok ?t4 [(HEAP_SIZE - sizeof_block_meta, True)]" by (rule heap_ok_above [OF heap(3)]) (use b in simp_all)
    show "heap_slack 0xE0000000 ?t4" by (rule heap_slack_above [OF heap(1) _ _ heap(2)]) (use b in simp_all)
    show "low_same (ram s) (ram ?t4)"
      using low_same_trans [OF low_same_memory_init [of s] low_same_window [OF t1(2)]] b t1(1) by simp
    show "linked ?t4 = linked s" using b by (simp add: t1(1) t0_def memory_init_def)
    show "idt ?t4 = idt (interrupts_init ?t4)"
      using interrupts_init_same [of ?t3] by (simp add: interrupts_init_idt init_same_def base_same_def)
    show "view ?t4 = (0, 0, replicate cell_count (make_vgaentry 32 7))"
      using b vw cells_cong [of ?t4 t1] by (simp add: view_def t1(1))
    show "term_ok ?t4" using b by (simp add: t1(1) term_ok_def VGA_WIDTH_def VGA_HEIGHT_def)
  qed (use b ring4 in \<open>simp_all add: t1(1) t0_def make_color_def\<close>)
qed

lemma kernel_init_state:
  assumes dev: "\<forall>es. device s es KEYBOARD_STATUS_PORT = 1" and ring: "ring_reset s"
  obtains s' where "kernel_init s = Some s'" "heap_live s' {}" "heap_slack 0xE0000000 s'"
    "terminal_row s' = 0" "terminal_column s' = 0" "terminal_color s' = 7" "terminal_buffer s' = VGA_MEMORY"
    "total_memory s' = 0x4000000" "free_memory s' = 0xFFFF4" "ring_reset s'" "fresh_editor s'"
    "low_same (ram s) (ram s')" "linked s' = linked s" "idt s' = idt (interrupts_init s')"
    "heap_ok s' [(HEAP_SIZE - sizeof_block_meta, True)]"
proof -
  obtain t u where u: "keyboard_init (terminal_init ((memory_init s)\<lparr>total_memory := memory_get_total, free_memory := memory_get_free\<rparr>)) = Some t"
    "u = interrupts_init (filesystem_init t)" "heap_live u {}" "heap_slack 0xE0000000 u"
    "terminal_color u = 7" "terminal_buffer u = VGA_MEMORY" "total_memory u = memory_get_total" "free_memory u = memory_get_free"
    "view u = (0, 0, replicate cell_count (make_vgaentry 32 7))" "term_ok u"
    "ring_reset u" "low_same (ram s) (ram u)" "linked u = linked s" "idt u = idt (interrupts_init u)"
    "heap_ok u [(HEAP_SIZE - sizeof_block_meta, True)]"
    by (rule bring_up [OF dev ring])
  let ?c = "compiler_init u" let ?s' = "editor_init ?c"
  have c: "base_same u ?c" "ring_reset ?c" using u(11) by (simp_all add: compiler_init_def base_same_def ring_reset_def)
  have "base_same u ?s'" by (rule base_same_trans [OF c(1) editor_init_fresh(2)])
  note b = this [unfolded base_same_def]
  have pos: "terminal_row u = 0" "terminal_column u = 0" using u(9) by (simp_all add: view_def unat_eq_zero)
  have run: "kernel_init s = Some ?s'" unfolding kernel_init_def Let_def using u(1,2) by simp
  show ?thesis
  proof (rule that [OF run])
    show "heap_live ?s' {}" by (rule heap_live_above(1) [OF u(3)]) (use b in simp_all)
    show "heap_slack 0xE0000000 ?s'" by (rule heap_slack_above [OF u(3) _ _ u(4)]) (use b in simp_all)
    show "idt ?s' = idt (interrupts_init ?s')" using u(14) b by (simp add: interrupts_init_idt)
    show "heap_ok ?s' [(HEAP_SIZE - sizeof_block_meta, True)]" by (rule heap_ok_above [OF u(15)]) (use b in simp_all)
  qed (use b u pos c(2) editor_init_fresh [of ?c] in
      \<open>simp_all add: memory_get_total_def memory_get_free_def HEAP_SIZE_def sizeof_block_meta_def\<close>)
qed

subsection \<open>The banner\<close>

lemma print_view:
  assumes "term_ok s" and "0 \<notin> set (chars l)"
  shows "view (print l s) = fold (scr_write (terminal_color s)) (chars l) (view s)"
    and "term_ok (print l s)" and "term_only s (print l s)"
proof -
  have "takeWhile (\<lambda>c. c \<noteq> 0) (lit l) = chars l"
    unfolding lit_def using assms(2) by (subst takeWhile_append2) auto
  then show "view (print l s) = fold (scr_write (terminal_color s)) (chars l) (view s)"
    "term_ok (print l s)" "term_only s (print l s)"
    using terminal_write_string_view [OF assms(1), of "lit l"] by (simp_all add: print_def)
qed

lemma print_all_view:
  "term_ok s \<Longrightarrow> \<forall>l \<in> set ls. 0 \<notin> set (chars (f l)) \<Longrightarrow>
   view (fold (\<lambda>l. print (f l)) ls s) =
     fold (scr_write (terminal_color s)) (concat (map (\<lambda>l. chars (f l)) ls)) (view s) \<and>
   term_ok (fold (\<lambda>l. print (f l)) ls s) \<and> term_only s (fold (\<lambda>l. print (f l)) ls s)"
proof (induction ls arbitrary: s)
  case (Cons l ls)
  then have "0 \<notin> set (chars (f l))" by simp
  note p = print_view [OF Cons.prems(1) this]
  from Cons.IH [OF p(2)] Cons.prems(2) p term_only_fields(1) [OF p(3)] term_only_trans [OF p(3)]
  show ?case by simp
qed simp

lemma write_number_view:
  assumes "term_ok s" and "0 \<notin> set n"
  shows "view (terminal_write_string (n @ 0 # r) s) = fold (scr_write (terminal_color s)) n (view s)"
    and "term_ok (terminal_write_string (n @ 0 # r) s)" and "term_only s (terminal_write_string (n @ 0 # r) s)"
proof -
  have "takeWhile (\<lambda>c. c \<noteq> 0) (n @ 0 # r) = n" using assms(2) by (subst takeWhile_append2) auto
  then show "view (terminal_write_string (n @ 0 # r) s) = fold (scr_write (terminal_color s)) n (view s)"
    "term_ok (terminal_write_string (n @ 0 # r) s)" "term_only s (terminal_write_string (n @ 0 # r) s)"
    using terminal_write_string_view [OF assms(1), of "n @ 0 # r"] by simp_all
qed

definition boot_text :: "u8 list" where
  "boot_text = concat (map (\<lambda>l. chars (l @ [CHR 0x0A])) banner) @
     chars ''Memory: 65536 KB total, 1023 KB free'' @ [10]"

lemma banner_nonzero: "\<forall>l \<in> set banner. 0 \<notin> set (chars (l @ [CHR 0x0A]))"
  by (simp add: banner_def)

lemma memory_numbers:
  "int_to_string (sint (0x4000000 div 1024 :: u32)) (replicate 32 0) = Inr (chars ''65536'' @ 0 # replicate 26 0)"
  "int_to_string (sint (0xFFFF4 div 1024 :: u32)) (chars ''65536'' @ 0 # replicate 26 0)
    = Inr (chars ''1023'' @ 0 # 0 # replicate 26 0)"
proof -
  have n: "signed_text 65536 10 = chars ''65536''" "signed_text 1023 10 = chars ''1023''"
    by (simp_all add: signed_text_def numeral_in.simps digit_char_def)
  have d: "sint (0x4000000 div 1024 :: u32) = 65536" "sint (0xFFFF4 div 1024 :: u32) = 1023" by simp_all
  show "int_to_string (sint (0x4000000 div 1024 :: u32)) (replicate 32 0) = Inr (chars ''65536'' @ 0 # replicate 26 0)"
    unfolding int_to_string_itoa d using itoa_text [of 10 65536 "replicate 32 0"] by (simp add: n INT_MIN_def)
  show "int_to_string (sint (0xFFFF4 div 1024 :: u32)) (chars ''65536'' @ 0 # replicate 26 0)
    = Inr (chars ''1023'' @ 0 # 0 # replicate 26 0)"
    unfolding int_to_string_itoa d using itoa_text [of 10 1023 "chars ''65536'' @ 0 # replicate 26 0"]
    by (simp add: n INT_MIN_def)
qed

lemma fresh_sys_ok:
  assumes "heap_live s {}" and "E_buffer s = 0 \<and> E_buffer_size s = 0 \<and> E_cursor_x s = 0" and "ring_reset s"
    and "term_ok s" and "terminal_buffer s = VGA_MEMORY"
  shows "sys_ok s {}"
  using assms ring_reset_ok [OF assms(3)]
  by (simp add: sys_ok_def session_ok_def ed_ok_def ed_blocks_def)

text \<open>From the initialised kernel to the main loop: the banner and the memory line.\<close>

lemma show_banner:
  assumes s: "term_ok s" "total_memory s = 0x4000000" "free_memory s = 0xFFFF4"
  obtains t where "(let s = terminal_clear s;
       s = fold (\<lambda>l. print (l @ [CHR 0x0A])) banner s;
       s = print ''Memory: '' s
     in
         rbind (int_to_string (sint (total_memory s div 1024)) (replicate 32 0)) (\<lambda>memstr.
         let s = terminal_write_string memstr s;
             s = print '' KB total, '' s
         in
         rbind (int_to_string (sint (free_memory s div 1024)) memstr) (\<lambda>memstr.
         let s = terminal_write_string memstr s;
             s = print ('' KB free'' @ [CHR 0x0A]) s
         in Inr (editor_init s)))) = Inr (editor_init t)"
    "term_ok t" "term_only s t"
    "view t = fold (scr_write (terminal_color s)) boot_text
       (unat (terminal_row s), unat (terminal_column s), replicate cell_count (blank s))"
proof -
  let ?c = "terminal_clear s" and ?f = "scr_write (terminal_color s)"
  note so = terminal_clear_screen_only [of s]
  have c: "term_only s ?c" "term_ok ?c" "terminal_color ?c = terminal_color s"
    "view ?c = (unat (terminal_row s), unat (terminal_column s), replicate cell_count (blank s))"
    using screen_only_term_only [OF so] screen_only_fields [OF so] s(1)
    by (simp_all add: term_ok_def view_def cells_terminal_clear)
  define b where "b = fold (\<lambda>l. print (l @ [CHR 0x0A])) banner ?c"
  have b: "term_ok b" "term_only ?c b" "view b = fold ?f (concat (map (\<lambda>l. chars (l @ [CHR 0x0A])) banner)) (view ?c)"
    using print_all_view [OF c(2) banner_nonzero] c(3) unfolding b_def by simp_all
  have only: "term_only s b" by (rule term_only_trans [OF c(1) b(2)])
  have col: "terminal_color b = terminal_color s" by (rule term_only_fields(1) [OF only])
  have nz: "0 \<notin> set (chars ''Memory: '')" "0 \<notin> set (chars ''65536'')" "0 \<notin> set (chars '' KB total, '')"
    "0 \<notin> set (chars ''1023'')" "0 \<notin> set (chars ('' KB free'' @ [CHR 0x0A]))" by simp_all
  define t1 where "t1 = print ''Memory: '' b"
  note v1 = print_view [OF b(1) nz(1), folded t1_def]
  define t2 where "t2 = terminal_write_string (chars ''65536'' @ 0 # replicate 26 0) t1"
  note v2 = write_number_view [OF v1(2) nz(2), of "replicate 26 0", folded t2_def]
  define t3 where "t3 = print '' KB total, '' t2"
  note v3 = print_view [OF v2(2) nz(3), folded t3_def]
  define t4 where "t4 = terminal_write_string (chars ''1023'' @ 0 # 0 # replicate 26 0) t3"
  note v4 = write_number_view [OF v3(2) nz(4), of "0 # replicate 26 0", folded t4_def]
  define t5 where "t5 = print ('' KB free'' @ [CHR 0x0A]) t4"
  note v5 = print_view [OF v4(2) nz(5), folded t5_def]
  note o1 = term_only_trans [OF only v1(3)]
  note o2 = term_only_trans [OF o1 v2(3)] note o3 = term_only_trans [OF o2 v3(3)]
  note o4 = term_only_trans [OF o3 v4(3)] note o5 = term_only_trans [OF o4 v5(3)]
  have mem: "total_memory t1 = 0x4000000" "free_memory t3 = 0xFFFF4"
    using o1 o3 s(2,3) by (auto simp: term_only_def)
  have cols: "terminal_color t1 = terminal_color s" "terminal_color t2 = terminal_color s"
    "terminal_color t3 = terminal_color s" "terminal_color t4 = terminal_color s"
    using term_only_fields(1) o1 o2 o3 o4 by blast+
  have "view t5 = fold ?f boot_text (view ?c)"
    unfolding v5(1) v4(1) v3(1) v2(1) v1(1) b(3) col cols
    by (simp add: boot_text_def)
  then have "view t5 = fold ?f boot_text
     (unat (terminal_row s), unat (terminal_column s), replicate cell_count (blank s))" using c(4) by simp
  note vw = this
  show ?thesis
    by (rule that [OF _ v5(2) o5 vw])
      (simp only: Let_def b_def [symmetric] t1_def [symmetric] mem memory_numbers rbind_simps
        t2_def [symmetric] t3_def [symmetric] t4_def [symmetric] t5_def [symmetric])
qed

lemma first_output_only:
  assumes "term_ok s"
  shows "term_only s (first_output s)"
proof -
  have nz: "0 \<notin> set (chars ''GHOST'')" "0 \<notin> set (chars ''.'')" "0 \<notin> set (chars crlf)" by simp_all
  note so = terminal_clear_screen_only [of s]
  have c: "term_ok (terminal_clear s)" "term_only s (terminal_clear s)"
    using screen_only_fields [OF so] assms screen_only_term_only [OF so] by (simp_all add: term_ok_def)
  note g = print_view(2,3) [OF c(1) nz(1)]
  have "\<forall>i \<in> set [0..<3::nat]. 0 \<notin> set (chars ''.'')" by simp
  from print_all_view [OF g(1) this]
  have d: "term_ok (fold (\<lambda>i. print ''.'') [0..<3::nat] (print ''GHOST'' (terminal_clear s)))"
    "term_only (print ''GHOST'' (terminal_clear s)) (fold (\<lambda>i. print ''.'') [0..<3::nat] (print ''GHOST'' (terminal_clear s)))"
    by blast+
  show ?thesis
    unfolding first_output_def
    by (rule term_only_trans [OF c(2) term_only_trans [OF g(2) term_only_trans [OF d(2)
          print_view(3) [OF d(1) nz(3)]]]])
qed

lemma kernel_boot_state:
  assumes "term_ok s" and ring: "ring_reset s" and dev: "\<forall>es. device s es KEYBOARD_STATUS_PORT = 1"
  obtains s' where "kernel_boot s = Some (Inr s')" "sys_ok s' {}" "fresh_editor s'" "kb_queue s' = []"
    "heap_slack 0xE0000000 s'"
    "view s' = fold (scr_write 7) boot_text (0, 0, replicate cell_count (make_vgaentry 32 7))"
    "low_same (ram (first_output s)) (ram s')" "linked s' = linked s" "idt s' = idt (interrupts_init s')"
    "heap_ok s' [(HEAP_SIZE - sizeof_block_meta, True)]"
proof -
  define a where "a = first_output s"
  have only: "term_only s a" unfolding a_def by (rule first_output_only [OF assms(1)])
  have "device a = device s" "ring_reset a"
    using only ring by (auto simp: term_only_def ring_reset_def)
  then have "\<forall>es. device a es KEYBOARD_STATUS_PORT = 1" "ring_reset a" using dev by simp_all
  then obtain b where b: "kernel_init a = Some b" "heap_live b {}" "heap_slack 0xE0000000 b"
    "terminal_row b = 0" "terminal_column b = 0" "terminal_color b = 7" "terminal_buffer b = VGA_MEMORY"
    "total_memory b = 0x4000000" "free_memory b = 0xFFFF4" "ring_reset b" "fresh_editor b"
    "low_same (ram a) (ram b)" "linked b = linked a" "idt b = idt (interrupts_init b)"
    "heap_ok b [(HEAP_SIZE - sizeof_block_meta, True)]"
    by (rule kernel_init_state)
  have b_ok: "term_ok b" using b(4,5) by (simp add: term_ok_def VGA_WIDTH_def VGA_HEIGHT_def)
  have ses: "session_ok b {}" using fresh_sys_ok [OF b(2) _ b(10) b_ok b(7)] b(11) by (simp add: sys_ok_def fresh_editor_def)
  obtain t where t: "(let s = terminal_clear b;
       s = fold (\<lambda>l. print (l @ [CHR 0x0A])) banner s;
       s = print ''Memory: '' s
     in
         rbind (int_to_string (sint (total_memory s div 1024)) (replicate 32 0)) (\<lambda>memstr.
         let s = terminal_write_string memstr s;
             s = print '' KB total, '' s
         in
         rbind (int_to_string (sint (free_memory s div 1024)) memstr) (\<lambda>memstr.
         let s = terminal_write_string memstr s;
             s = print ('' KB free'' @ [CHR 0x0A]) s
         in Inr (editor_init s)))) = Inr (editor_init t)"
    "term_ok t" "term_only b t" "view t = fold (scr_write 7) boot_text (0, 0, replicate cell_count (make_vgaentry 32 7))"
    using show_banner [OF b_ok b(8,9)] b(4,5,6) by auto
  let ?s' = "editor_init t"
  note e = editor_init_fresh [of t] and ts = term_only_session [OF t(3) ses t(2)]
  have boot: "kernel_boot s = Some (Inr ?s')"
    unfolding kernel_boot_def Let_def a_def [symmetric] b(1) t(1) [unfolded Let_def, symmetric] by simp
  have same: "ram ?s' = ram t" "heap_start ?s' = heap_start t" "terminal_row ?s' = terminal_row t"
    "terminal_column ?s' = terminal_column t" "terminal_buffer ?s' = terminal_buffer t"
    using e(2) by (simp_all add: base_same_def)
  have "ring_reset t" using t(3) b(10) by (auto simp: term_only_def ring_reset_def)
  then have ring': "ring_reset ?s'" using e(3) by simp
  have tl: "heap_live t {}" by (rule heap_live_above(1) [OF b(2) term_only_fields(3) [OF t(3)]])
    (use term_only_fields(4) [OF t(3)] above_window b(7) in simp)
  have ok': "heap_ok ?s' [(HEAP_SIZE - sizeof_block_meta, True)]" by (rule heap_ok_above [OF b(15)])
    (use same term_only_fields(3,4) [OF t(3)] above_window b(7) in simp_all)
  have "heap_live ?s' {}" by (rule heap_live_above(1) [OF tl]) (simp_all add: same)
  moreover have "heap_slack 0xE0000000 ?s'"
    by (rule heap_slack_above [OF tl _ _ ts(3) [OF b(3)]]) (simp_all add: same)
  moreover have "term_ok ?s'" "view ?s' = view t" "terminal_buffer ?s' = VGA_MEMORY"
    using t(2) same term_only_fields(2) [OF t(3)] b(7) cells_cong [of ?s' t]
    by (simp_all add: term_ok_def view_def)
  moreover have "low_same (ram a) (ram ?s')"
    using low_same_trans [OF b(12) low_same_window [of "ram t" "ram b"]] term_only_fields(4) [OF t(3)] b(7)
    by (simp add: same)
  moreover have "linked ?s' = linked s" "idt ?s' = idt (interrupts_init ?s')"
  proof -
    have l: "linked a = linked s" "linked t = linked b" "idt t = idt b"
      using only t(3) by (auto simp: term_only_def)
    then show "linked ?s' = linked s" using e(2) b(13) by (simp add: base_same_def)
    show "idt ?s' = idt (interrupts_init ?s')"
      using b(14) l e(2) by (simp add: base_same_def interrupts_init_idt)
  qed
  ultimately show ?thesis
    using boot fresh_sys_ok [OF _ _ ring'] e(1) ring_reset_ok [OF ring'] t(4) ok'
    by (intro that [of ?s']) (simp_all add: a_def fresh_editor_def)
qed

subsection \<open>Properties\<close>

text \<open>
  Booting the loaded kernel (zeroed keyboard ring, cursor in the screen, a keyboard
  controller that is always ready) reaches the main loop without a fault: the heap is empty
  and well formed, the editor is empty, no key is waiting, and the screen shows exactly the
  banner and the memory line.
\<close>

lemma kernel_boot_ready:
  assumes "term_ok s" and "ring_reset s" and "\<forall>es. device s es KEYBOARD_STATUS_PORT = 1"
  shows "\<exists>s'. kernel_boot s = Some (Inr s') \<and> sys_ok s' {} \<and> fresh_editor s' \<and> kb_queue s' = [] \<and>
    view s' = fold (scr_write 7) boot_text (0, 0, replicate cell_count (make_vgaentry 32 7))"
proof -
  obtain s' where "kernel_boot s = Some (Inr s')" "sys_ok s' {}" "fresh_editor s'" "kb_queue s' = []"
    "view s' = fold (scr_write 7) boot_text (0, 0, replicate cell_count (make_vgaentry 32 7))"
    by (rule kernel_boot_state [OF assms])
  then show ?thesis by blast
qed

text \<open>The kernel as loaded, with a keyboard controller that acknowledges everything.\<close>

definition loaded_kernel :: editor where
  "loaded_kernel = (blank_editor [])\<lparr>terminal_buffer := 0, terminal_color := 0,
     device := (\<lambda>es p. if p = 0x64 then 1 else 0xFA)\<rparr>"

lemma loaded_kernel_ok:
  "term_ok loaded_kernel" "ring_reset loaded_kernel" "\<forall>es. device loaded_kernel es KEYBOARD_STATUS_PORT = 1"
  by (simp_all add: loaded_kernel_def term_ok_def ring_reset_def blank_editor_fields VGA_WIDTH_def
      VGA_HEIGHT_def KEYBOARD_STATUS_PORT_def)

lemma kernel_boot_ready_witness:
  "\<exists>s'. kernel_boot loaded_kernel = Some (Inr s') \<and> E_screen_rows s' = 24 \<and> E_screen_cols s' = 80"
proof -
  from kernel_boot_ready [OF loaded_kernel_ok] obtain s' where
    "kernel_boot loaded_kernel = Some (Inr s')" "fresh_editor s'" by blast
  then show ?thesis by (auto simp: fresh_editor_def)
qed

text \<open>
  C1. After boot, whatever the order of interrupts (any vector, any frame) and turns of the main
  loop, and with interrupts at any points inside the turns, for 60000 steps the heap, the terminal
  and the key ring stay well formed, only characters of the layout are waiting, and the next turn
  of the loop returns with whatever interrupts in it, the same way whatever jumping to an address
  would do: the editor never halts, never compiles and never saves, as its command keys cannot be
  typed.
\<close>

theorem system_stays_well:
  assumes "term_ok s" and "ring_reset s" and "\<forall>es. device s es KEYBOARD_STATUS_PORT = 1"
    and "kernel_boot s = Some (Inr s0)" and "(sys_step call ^^ n) s0 s'" and "n \<le> 60000"
  shows "sys_ok s' {} \<and> (\<forall>c \<in> set (kb_queue s'). \<not> command_key c) \<and>
    (\<forall>fr. \<exists>t. \<forall>call. preempted_turn call fr s' = Some (Inr (Running t)))"
proof -
  obtain b where b: "kernel_boot s = Some (Inr b)" "sys_ok b {}" "fresh_editor b" "heap_slack 0xE0000000 b"
    by (rule kernel_boot_state [OF assms(1-3)])
  then have s0: "s0 = b" using assms(4) by simp
  have "n * (15 + n) \<le> 60000 * (15 + 60000)" by (rule mult_le_mono [OF assms(6)]) (use assms(6) in simp)
  then have "n * (15 + unat (E_buffer_size b) + n) + (14 + (unat (E_buffer_size b) + n) + 0) \<le> 0xE0000000"
    using b(3) assms(6) by (simp add: fresh_editor_def)
  from sys_steps_ok [OF assms(5) [unfolded s0] b(2) heap_slack_mono [OF b(4) this]]
  have ok: "sys_ok s' {}" "unat (E_buffer_size s') \<le> unat (E_buffer_size b) + n"
    "heap_slack (14 + (unat (E_buffer_size b) + n) + 0) s'" by blast+
  have "heap_slack (14 + unat (E_buffer_size s') + 0) s'"
    by (rule heap_slack_mono [OF ok(3)]) (use ok(2) in simp)
  from preempted_turn_sys_ok [OF ok(1) this] ok(1) typable_no_command show ?thesis
    unfolding sys_ok_def by blast
qed

theorem system_stays_well_witness:
  "\<exists>s0 s' t. kernel_boot loaded_kernel = Some (Inr s0) \<and> (sys_step (\<lambda>_. Some) ^^ 2) s0 s' \<and>
     preempted_turn (\<lambda>_ _. None) (\<lambda>n. [of_nat n, 7]) s' = Some (Inr (Running t))"
proof -
  obtain s0 where s0: "kernel_boot loaded_kernel = Some (Inr s0)"
    using kernel_boot_state [OF loaded_kernel_ok] by blast
  let ?a = "irq_handler 0 s0" and ?b = "irq_handler 0 (irq_handler 0 s0)"
  have "sys_step (\<lambda>_. Some) s0 ?a" "sys_step (\<lambda>_. Some) ?a ?b" by (rule sys_step.interrupt)+
  then have steps: "(sys_step (\<lambda>_. Some) ^^ 2) s0 ?b" by (auto simp: numeral_2_eq_2)
  have "(2::nat) \<le> 60000" by simp
  from conjunct2 [OF conjunct2 [OF system_stays_well [OF loaded_kernel_ok s0 steps this]]] obtain t where
    "preempted_turn (\<lambda>_ _. None) (\<lambda>n. [of_nat n, 7]) ?b = Some (Inr (Running t))" by blast
  with s0 steps show ?thesis by blast
qed

end
