(* ===== verification/Commands.thy ===== *)
theory Commands
  imports Session
begin

text \<open>
  The control keys of the editor (Ctrl-R compiles and runs the text, Ctrl-S saves, Ctrl-Q quits)
  and \<^verbatim>\<open>editor_open\<close>. The lemmas carry a session over the heap operations of the compiler;
  the theorems show what a command does to text, heap and screen, and that the refresh which
  ends every key press wipes the answer of the command off the screen.
\<close>

subsection \<open>Heap operations in a session\<close>

lemma view_same_below:
  assumes same: "same_below (ram s) m" and buf: "terminal_buffer s = VGA_MEMORY"
  shows "view (s\<lparr>ram := m\<rparr>) = view s"
proof -
  have "m (VGA_MEMORY + of_nat k) = ram s (VGA_MEMORY + of_nat k)" if "k < 4000" for k
  proof -
    have "unat (VGA_MEMORY + of_nat k) = 0xB8000 + k"
      using that by (simp add: VGA_MEMORY_def unat_word_ariths unat_of_nat)
    then have "unat (VGA_MEMORY + of_nat k) < unat HEAP_START" using that by (simp add: HEAP_START_def)
    then show ?thesis using same unfolding same_below_def by blast
  qed
  note at = this
  have "get_cell (of_nat i) (s\<lparr>ram := m\<rparr>) = get_cell (of_nat i) s" if "i < cell_count" for i
    using at [of "2 * i"] at [of "2 * i + 1"] that
    by (simp add: get_cell_def buf load16_def cell_count_def VGA_WIDTH_def VGA_HEIGHT_def ac_simps)
  then show ?thesis by (simp add: view_def cells_def)
qed

lemma keeps_session:
  assumes ok: "session_ok s K" and blocks: "ed_blocks s L L'"
    and keeps: "heap_keeps s (s\<lparr>ram := m\<rparr>) L' (M \<union> L')" and M: "M \<inter> L' = {}"
  shows "session_ok (s\<lparr>ram := m\<rparr>) (M \<union> L)" and "ed_blocks (s\<lparr>ram := m\<rparr>) (M \<union> L) (M \<union> L')"
    and "kept L s (s\<lparr>ram := m\<rparr>)" and "ed_view (s\<lparr>ram := m\<rparr>) = ed_view s"
    and "view (s\<lparr>ram := m\<rparr>) = view s"
proof -
  let ?s = "s\<lparr>ram := m\<rparr>"
  have sub: "L \<subseteq> L'" using blocks by (auto simp: ed_blocks_def split: if_splits)
  show b: "ed_blocks ?s (M \<union> L) (M \<union> L')" using blocks M by (auto simp: ed_blocks_def split: if_splits)
  have "heap_live ?s (M \<union> L')" using keeps by (simp add: heap_keeps_def)
  then have "ed_ok ?s (M \<union> L)" using b ok by (auto simp: ed_ok_def session_ok_def)
  then show "session_ok ?s (M \<union> L)" using ok by (simp add: session_ok_def term_ok_def kb_ok_def kb_queue_def)
  show "kept L s ?s" by (rule keeps_kept [OF keeps sub])
  have "ed_text ?s = ed_text s"
  proof (cases "E_buffer s = 0")
    case True
    then show ?thesis using blocks by (simp add: ed_text_def ed_blocks_def)
  next
    case False
    then obtain k where "(E_buffer s, k) \<in> L'" "unat (E_buffer_size s) \<le> unat k"
      using blocks by (auto simp: ed_blocks_def word_le_nat_alt)
    from keeps_bytes [OF keeps this] show ?thesis by (simp add: ed_text_def)
  qed
  then show "ed_view ?s = ed_view s" by (simp add: ed_view_def)
  show "view ?s = view s"
    using view_same_below [of s m] keeps ok by (simp add: heap_keeps_def session_ok_def)
qed

text \<open>Compiling the text of the editor.\<close>

lemma compile_session:
  assumes ok: "session_ok s L" and b: "E_buffer s \<noteq> 0" and n: "E_buffer_size s \<noteq> 0"
    and slack: "heap_slack (24 + 12 * unat (E_buffer_size s) + x) s"
  obtains r m L' where "compile_code (E_buffer s) (E_buffer_size s) s = Some (Inr (r, s\<lparr>ram := m\<rparr>))"
    "compiled (ed_text s) L' s r (s\<lparr>ram := m\<rparr>)" "ed_blocks s L L'" "heap_slack x (s\<lparr>ram := m\<rparr>)"
proof -
  have "ed_ok s L" using ok by (simp add: session_ok_def)
  then obtain L' where L': "ed_blocks s L L'" "heap_live s L'" by (rule ed_okE)
  then obtain k where k: "(E_buffer s, k) \<in> L'" "E_buffer_size s \<le> k" using b by (auto simp: ed_blocks_def)
  obtain bs where "heap_ok s bs" using L'(2) unfolding heap_live_def by blast
  then have "6 * unat (E_buffer_size s) < 2 ^ 32" using slack unfolding heap_slack_def by fastforce
  from compile_code_lines [OF L'(2) k(1) n k(2) slack this ed_text_def [symmetric]] obtain r s' where
    r: "compile_code (E_buffer s) (E_buffer_size s) s = Some (Inr (r, s'))"
    "compiled (ed_text s) L' s r s'" "heap_slack x s'" by blast
  obtain m where "s' = s\<lparr>ram := m\<rparr>" using compile_code_ram [OF heap_live_start [OF L'(2)] r(1)] by blast
  with r L'(1) show ?thesis using that by blast
qed

text \<open>The characters of a string literal with carriage returns and line feeds.\<close>

lemma write_lit:
  fixes cs r :: "u8 list" and s :: "'a editor_scheme"
  assumes ok: "session_ok s L" and nz: "0 \<notin> set cs"
  defines "s' \<equiv> terminal_write_string (cs @ 0 # r) s"
  shows "view s' = fold (scr_write (terminal_color s)) cs (view s)"
    and "session_ok s' L" and "kept L s s'" and "ed_view s' = ed_view s" and "kb_queue s' = kb_queue s"
    and "heap_slack k s \<Longrightarrow> heap_slack k s'" and "term_only s s'"
proof -
  have "term_ok s" using ok by (simp add: session_ok_def)
  moreover have "takeWhile (\<lambda>c. c \<noteq> 0) (cs @ 0 # r) = cs" using nz by (subst takeWhile_append2) auto
  ultimately have v: "view s' = fold (scr_write (terminal_color s)) cs (view s)" "term_ok s'" "term_only s s'"
    using terminal_write_string_view [of s "cs @ 0 # r"] unfolding s'_def by metis+
  show "view s' = fold (scr_write (terminal_color s)) cs (view s)" "term_only s s'" by (fact v)+
  show "session_ok s' L" "kept L s s'" "ed_view s' = ed_view s" "kb_queue s' = kb_queue s"
    "heap_slack k s \<Longrightarrow> heap_slack k s'"
    using term_only_session [OF v(3) ok v(2)] by blast+
qed

subsection \<open>Compile and run\<close>

definition refused_text :: "u8 list" where
  "refused_text = chars (crlf @ ''Compilation failed: '') @ chars ''Invalid instructio'' @ chars crlf"

lemma run_refused:
  assumes ok: "session_ok s L" and b: "E_buffer s \<noteq> 0" and n: "E_buffer_size s \<noteq> 0"
    and slack: "heap_slack (24 + 12 * unat (E_buffer_size s) + x) s"
    and asm: "assemble (source_lines (ed_text s)) = None"
  obtains s' m where "editor_compile_and_run call s = Some (Inr s')" "session_ok s' L" "kept L s s'"
    "heap_slack x s'" "ed_view s' = ed_view s" "kb_queue s' = kb_queue s" "term_only (s\<lparr>ram := m\<rparr>) s'"
    "view s' = fold (scr_write (terminal_color s)) refused_text (view s)"
proof -
  from compile_session [OF ok b n slack] obtain r m L' where
    c: "compile_code (E_buffer s) (E_buffer_size s) s = Some (Inr (r, s\<lparr>ram := m\<rparr>))"
    "compiled (ed_text s) L' s r (s\<lparr>ram := m\<rparr>)" "ed_blocks s L L'" "heap_slack x (s\<lparr>ram := m\<rparr>)" .
  have r: "r = compile_failure 18 ''Invalid instruction''" and keeps: "heap_keeps s (s\<lparr>ram := m\<rparr>) L' ({} \<union> L')"
    using c(2) asm by (simp_all add: compiled_def)
  let ?t = "s\<lparr>ram := m\<rparr>"
  have t: "session_ok ?t L" "kept L s ?t" "ed_view ?t = ed_view s" "view ?t = view s"
    using keeps_session [OF ok c(3) keeps] by simp_all
  have msg: "\<not> success r" "error_message r = chars ''Invalid instructio'' @ 0 # replicate 237 0"
    by (simp_all add: r compile_failure_def lit_def eval_nat_numeral)
  define t1 where "t1 = terminal_write_string (lit (crlf @ ''Compilation failed: '')) ?t"
  define t2 where "t2 = terminal_write_string (error_message r) t1"
  define t3 where "t3 = terminal_write_string (lit crlf) t2"
  have z: "0 \<notin> set (chars (crlf @ ''Compilation failed: ''))" "0 \<notin> set (chars ''Invalid instructio'')"
    "0 \<notin> set (chars crlf)" by simp_all
  note w1 = write_lit [OF t(1) z(1), where r = "[]", folded lit_def, folded t1_def]
  note w2 = write_lit [OF w1(2) z(2), where r = "replicate 237 0", folded msg(2), folded t2_def]
  note w3 = write_lit [OF w2(2) z(3), where r = "[]", folded lit_def, folded t3_def]
  have run: "editor_compile_and_run call s = Some (Inr t3)"
    using b n c(1) msg(1) by (simp add: editor_compile_and_run_def t1_def t2_def t3_def)
  have "terminal_color t1 = terminal_color s" "terminal_color t2 = terminal_color s"
    using term_only_fields(1) [OF w1(7)] term_only_fields(1) [OF w2(7)] by simp_all
  then have v: "view t3 = fold (scr_write (terminal_color s)) refused_text (view s)"
    using w1(1) w2(1) w3(1) t(4) by (simp add: refused_text_def)
  show ?thesis
  proof (rule that [OF run w3(2) _ _ _ _ _ v])
    show "kept L s t3" using kept_trans [OF t(2)] kept_trans [OF w1(3)] kept_trans [OF w2(3) w3(3)] by blast
    show "heap_slack x t3" using c(4) w1(6) w2(6) w3(6) by blast
    show "ed_view t3 = ed_view s" "kb_queue t3 = kb_queue s"
      using t(3) w1(4,5) w2(4,5) w3(4,5) by (simp_all add: kb_queue_def)
    show "term_only ?t t3" by (rule term_only_trans [OF w1(7) term_only_trans [OF w2(7) w3(7)]])
  qed
qed

text \<open>Releasing a block that lies beside the text.\<close>

lemma keeps_subset: "heap_keeps s s' L L2 \<Longrightarrow> L1 \<subseteq> L \<Longrightarrow> heap_keeps s s' L1 L2"
  unfolding heap_keeps_def by blast

lemma kept_subset: "kept L s s' \<Longrightarrow> K \<subseteq> L \<Longrightarrow> kept K s s'"
  unfolding kept_def by blast

lemma free_session:
  assumes ok: "session_ok s (insert (p, k) L)" and new: "(p, k) \<notin> L"
  obtains m where "free p s = Some (s\<lparr>ram := m\<rparr>)" "session_ok (s\<lparr>ram := m\<rparr>) L" "kept L s (s\<lparr>ram := m\<rparr>)"
    "ed_view (s\<lparr>ram := m\<rparr>) = ed_view s" "view (s\<lparr>ram := m\<rparr>) = view s"
proof -
  have "ed_ok s (insert (p, k) L)" using ok by (simp add: session_ok_def)
  then obtain L' where L': "ed_blocks s (insert (p, k) L) L'" "heap_live s L'" "insert (p, k) L \<subseteq> L'"
    by (rule ed_okE)
  then have pk: "(p, k) \<in> L'" by simp
  from free_keeps [OF L'(2) pk] obtain s' where f: "free p s = Some s'" "heap_keeps s s' L' (L' - {(p, k)})" .
  have "p \<noteq> 0" using heap.live_bounds [OF L'(2) pk] by simp
  then obtain m where s': "s' = s\<lparr>ram := m\<rparr>" using free_ram [OF f(1)] by blast
  have blocks: "ed_blocks s L (L' - {(p, k)})"
    using L'(1) new by (auto simp: ed_blocks_def split: if_splits)
  have "heap_keeps s (s\<lparr>ram := m\<rparr>) (L' - {(p, k)}) ({} \<union> (L' - {(p, k)}))"
    using keeps_subset [OF f(2)] s' by simp
  from keeps_session [OF ok blocks this] f(1) s' show ?thesis using that by simp
qed

definition running_text :: "u8 list" where
  "running_text = chars (crlf @ ''Compilation successful. Running...'' @ crlf)"

lemma compile_accepted:
  assumes ok: "session_ok s L" and b: "E_buffer s \<noteq> 0" and n: "E_buffer_size s \<noteq> 0"
    and slack: "heap_slack (24 + 12 * unat (E_buffer_size s) + x) s"
    and asm: "assemble (source_lines (ed_text s)) = Some is"
  obtains r m i where "compile_code (E_buffer s) (E_buffer_size s) s = Some (Inr (r, s\<lparr>ram := m\<rparr>))"
    "success r" "binary_size r \<noteq> 0" "binary_size r \<le> i" "unat (binary_size r) = length (code_bytes is)"
    "length (code_bytes is) \<le> 6 * unat (E_buffer_size s)"
    "bytes_at m (binary r) (length (code_bytes is)) = code_bytes is" "(binary r, i) \<notin> L"
    "session_ok (s\<lparr>ram := m\<rparr>) (insert (binary r, i) L)" "kept L s (s\<lparr>ram := m\<rparr>)"
    "ed_view (s\<lparr>ram := m\<rparr>) = ed_view s" "view (s\<lparr>ram := m\<rparr>) = view s" "heap_slack x (s\<lparr>ram := m\<rparr>)"
proof -
  let ?n = "unat (E_buffer_size s)"
  from compile_session [OF ok b n slack] obtain r m L' where
    c: "compile_code (E_buffer s) (E_buffer_size s) s = Some (Inr (r, s\<lparr>ram := m\<rparr>))"
    "compiled (ed_text s) L' s r (s\<lparr>ram := m\<rparr>)" "ed_blocks s L L'" "heap_slack x (s\<lparr>ram := m\<rparr>)" .
  let ?u = "s\<lparr>ram := m\<rparr>" and ?b = "binary r" and ?sz = "binary_size r"
  obtain i where r: "success r" "unat ?sz = length (code_bytes is)"
    "bytes_at m ?b (length (code_bytes is)) = code_bytes is" "?sz \<le> i" "(?b, i) \<notin> L'"
    "heap_keeps s ?u L' ({(?b, i)} \<union> L')"
    using c(2) asm by (auto simp: compiled_def)
  have len: "length (code_bytes is) = 6 * length is" "length is = length (source_lines (ed_text s))"
    using length_code_bytes [OF asm] by simp_all
  have "length (ed_text s) = ?n" "0 < ?n" using n unat_gt_0 [of "E_buffer_size s"] by (simp_all add: ed_text_def)
  then have ne: "ed_text s \<noteq> []" by auto
  have "length (source_lines (ed_text s)) \<le> length (ed_text s)"
    using length_rest_lines [of "[]" "ed_text s"] ne by (auto simp: source_lines_rest)
  then have sz: "length (code_bytes is) \<le> 6 * ?n" using len by (simp add: ed_text_def)
  have "0 < length is" using source_lines_not_Nil [OF ne] len by simp
  then have sz0: "?sz \<noteq> 0" using r(2) len by (metis mult_is_0 nat_neq_iff unat_0 zero_neq_numeral)
  have iL: "(?b, i) \<notin> L" using r(5) c(3) by (auto simp: ed_blocks_def split: if_splits)
  have "{(?b, i)} \<inter> L' = {}" using r(5) by simp
  note u = keeps_session [OF ok c(3) r(6) this]
  then show ?thesis using that [OF c(1) r(1) sz0 r(4,2) sz r(3) iL _ _ _ _ c(4)] by simp
qed

text \<open>The copy of a binary that \<^verbatim>\<open>execute_binary\<close> makes and calls.\<close>

lemma copy_session:
  assumes ok: "session_ok t (insert (b, i) L)" and sz: "sz \<noteq> 0" "unat sz \<le> unat i"
    and at: "bytes_at (ram t) b (unat sz) = c" and slack: "heap_slack (12 + unat sz + x) t"
  obtains e j m where "(e, j) \<notin> insert (b, i) L" "session_ok (t\<lparr>ram := m\<rparr>) (insert (e, j) (insert (b, i) L))"
    "kept (insert (b, i) L) t (t\<lparr>ram := m\<rparr>)" "ed_view (t\<lparr>ram := m\<rparr>) = ed_view t" "view (t\<lparr>ram := m\<rparr>) = view t"
    "bytes_at m e (unat sz) = c" "b \<noteq> 0"
    "\<forall>call. execute_binary call b sz t =
       do { s \<leftarrow> call e (t\<lparr>ram := m\<rparr>); s \<leftarrow> memory_free e s; Some (True, s) }"
proof -
  have "ed_ok t (insert (b, i) L)" using ok by (simp add: session_ok_def)
  then obtain L1 where L1: "ed_blocks t (insert (b, i) L) L1" "heap_live t L1" "insert (b, i) L \<subseteq> L1"
    by (rule ed_okE)
  have bin: "(b, i) \<in> L1" using L1(3) by simp
  from copy_block [OF L1(2) bin sz slack at] obtain e j s2 where
    e: "malloc sz t = Some (e, s2)" "e \<noteq> 0" "sz \<le> j" "(e, j) \<notin> L1"
    "fst (memcpy e b sz (ram s2)) = write_bytes (ram s2) e c"
    "heap_keeps t (s2\<lparr>ram := write_bytes (ram s2) e c\<rparr>) L1 (insert (e, j) L1)"
    "bytes_at (write_bytes (ram s2) e c) e (unat sz) = c" .
  obtain m2 where s2: "s2 = t\<lparr>ram := m2\<rparr>" by (rule malloc_ram [OF L1(2) e(1)])
  let ?m = "write_bytes m2 e c"
  have k: "heap_keeps t (t\<lparr>ram := ?m\<rparr>) L1 ({(e, j)} \<union> L1)" using e(6) s2 by simp
  have "{(e, j)} \<inter> L1 = {}" using e(4) by simp
  note t = keeps_session [OF ok L1(1) k this]
  have b0: "b \<noteq> 0" using heap.live_bounds [OF L1(2) bin] by simp
  have "\<forall>call. execute_binary call b sz t =
      do { s \<leftarrow> call e (t\<lparr>ram := ?m\<rparr>); s \<leftarrow> memory_free e s; Some (True, s) }"
    using e(1,2,5) b0 sz s2 by (simp add: execute_binary_def memory_allocate_def)
  moreover have "session_ok (t\<lparr>ram := ?m\<rparr>) (insert (e, j) (insert (b, i) L))"
    using t(1) by (simp only: Un_insert_left Un_empty_left)
  moreover have "(e, j) \<notin> insert (b, i) L" using e(4) L1(3) by auto
  moreover have "bytes_at ?m e (unat sz) = c" using e(7) s2 by simp
  ultimately show ?thesis using that t(3-5) b0 by blast
qed

lemma run_accepted:
  assumes ok: "session_ok s L" and b: "E_buffer s \<noteq> 0" and n: "E_buffer_size s \<noteq> 0"
    and slack: "heap_slack (36 + 18 * unat (E_buffer_size s)) s"
    and asm: "assemble (source_lines (ed_text s)) = Some is"
  obtains b i e j t where "(b, i) \<notin> L" "(e, j) \<notin> insert (b, i) L"
    "session_ok t (insert (e, j) (insert (b, i) L))" "kept L s t" "ed_view t = ed_view s"
    "view t = fold (scr_write (terminal_color s)) running_text (view s)"
    "bytes_at (ram t) e (6 * length is) = code_bytes is"
    "\<forall>call. editor_compile_and_run call s = do {
       s \<leftarrow> call e t; s \<leftarrow> memory_free e s; s \<leftarrow> free b s; Some (Inr s) }"
proof -
  let ?n = "unat (E_buffer_size s)"
  have "heap_slack (24 + 12 * ?n + (12 + 6 * ?n)) s" by (rule heap_slack_mono [OF slack]) simp
  from compile_accepted [OF ok b n this asm] obtain r m i where
    c: "compile_code (E_buffer s) (E_buffer_size s) s = Some (Inr (r, s\<lparr>ram := m\<rparr>))" "success r"
    and r: "binary_size r \<noteq> 0" "binary_size r \<le> i" "unat (binary_size r) = length (code_bytes is)"
    "length (code_bytes is) \<le> 6 * ?n" "bytes_at m (binary r) (length (code_bytes is)) = code_bytes is"
    and iL: "(binary r, i) \<notin> L"
    and u: "session_ok (s\<lparr>ram := m\<rparr>) (insert (binary r, i) L)" "kept L s (s\<lparr>ram := m\<rparr>)"
    "ed_view (s\<lparr>ram := m\<rparr>) = ed_view s" "view (s\<lparr>ram := m\<rparr>) = view s" "heap_slack (12 + 6 * ?n) (s\<lparr>ram := m\<rparr>)" .
  let ?b = "binary r" and ?sz = "binary_size r"
  define t where "t = terminal_write_string (lit (crlf @ ''Compilation successful. Running...'' @ crlf)) (s\<lparr>ram := m\<rparr>)"
  have nz: "0 \<notin> set running_text" by (simp add: running_text_def)
  note w = write_lit [OF u(1) nz, where r = "[]", unfolded running_text_def, folded lit_def, folded t_def running_text_def]
  have ui: "unat ?sz \<le> unat i" using r(2) by (simp add: word_le_nat_alt)
  have "bytes_at (ram t) ?b (unat i) = bytes_at m ?b (unat i)" using w(3) by (auto simp: kept_def)
  from arg_cong [OF this, of "take (unat ?sz)"] have at: "bytes_at (ram t) ?b (unat ?sz) = code_bytes is"
    using r(3,5) ui by (simp add: take_bytes_at min_absorb1)
  have "heap_slack (12 + unat ?sz + 0) t" by (rule heap_slack_mono [OF w(6) [OF u(5)]]) (use r(3,4) in simp)
  from copy_session [OF w(2) r(1) ui at this] obtain e j m' where
    e: "(e, j) \<notin> insert (?b, i) L" "session_ok (t\<lparr>ram := m'\<rparr>) (insert (e, j) (insert (?b, i) L))"
    "kept (insert (?b, i) L) t (t\<lparr>ram := m'\<rparr>)" "ed_view (t\<lparr>ram := m'\<rparr>) = ed_view t"
    "view (t\<lparr>ram := m'\<rparr>) = view t" "bytes_at m' e (unat ?sz) = code_bytes is" "?b \<noteq> 0"
    "\<forall>call. execute_binary call ?b ?sz t =
       do { s \<leftarrow> call e (t\<lparr>ram := m'\<rparr>); s \<leftarrow> memory_free e s; Some (True, s) }" .
  have run: "editor_compile_and_run call s = do {
      (ok, s) \<leftarrow> execute_binary call ?b ?sz t;
      let s = (if \<not> ok then terminal_write_string (lit (''Execution failed!'' @ crlf)) s else s);
      s \<leftarrow> (if ?b \<noteq> 0 then free ?b s else Some s);
      Some (Inr s) }" for call
    using b n c by (simp add: editor_compile_and_run_def t_def)
  show ?thesis
  proof (rule that [OF iL e(1,2)])
    show "kept L s (t\<lparr>ram := m'\<rparr>)"
      using kept_trans [OF u(2) kept_trans [OF kept_subset [OF w(3)] kept_subset [OF e(3)]]] by blast
    show "ed_view (t\<lparr>ram := m'\<rparr>) = ed_view s" using e(4) w(4) u(3) by simp
    show "view (t\<lparr>ram := m'\<rparr>) = fold (scr_write (terminal_color s)) running_text (view s)" using e(5) w(1) u(4) by simp
    show "bytes_at (ram (t\<lparr>ram := m'\<rparr>)) e (6 * length is) = code_bytes is"
      using e(6) r(3) length_code_bytes [OF asm] by simp
    show "\<forall>call. editor_compile_and_run call s = do {
       s \<leftarrow> call e (t\<lparr>ram := m'\<rparr>); s \<leftarrow> memory_free e s; s \<leftarrow> free ?b s; Some (Inr s) }"
      using run e(7,8) by simp
  qed
qed

text \<open>The bytes of the code are not those of the processor: its return instruction is not among them.\<close>

lemma assemble_opcodes:
  "assemble ls = Some is \<Longrightarrow> \<forall>i \<in> set is. opcode i \<in> {op_code OP_NOP, op_code OP_PUSH, op_code OP_RET}"
proof (induction ls arbitrary: "is")
  case (Cons l ls)
  then show ?case
    by (auto simp: parse_line_def Let_def plain_instruction_def push_instruction_def
        split: option.splits if_splits)
qed simp

subsection \<open>Command keys\<close>

text \<open>What a command answers, and the command keys that return to the loop without running code.\<close>

definition answer :: "u8 \<Rightarrow> 'a editor_scheme \<Rightarrow> u8 list" where
  "answer c s =
     (if c = 17 then chars (crlf @ ''Warning: Unsaved changes! Press Ctrl-Q again to quit.'' @ crlf)
      else if c = 19 then
        (if E_filename s \<noteq> None \<and> E_buffer s \<noteq> 0 then chars (crlf @ ''File saved.'' @ crlf) else [])
      else if E_buffer s = 0 \<or> E_buffer_size s = 0 then chars (crlf @ ''No code to compile!'' @ crlf)
      else refused_text)"

definition answered_key :: "u8 \<Rightarrow> 'a editor_scheme \<Rightarrow> bool" where
  "answered_key c s \<longleftrightarrow> c = 17 \<and> E_is_modified s \<or> c = 19 \<or>
     c = 18 \<and> (E_buffer s = 0 \<or> E_buffer_size s = 0 \<or> assemble (source_lines (ed_text s)) = None)"

text \<open>What a command may change.\<close>

definition command_only :: "'a editor_scheme \<Rightarrow> 'a editor_scheme \<Rightarrow> bool" where
  "command_only s s' \<longleftrightarrow> (\<exists>m r c es b.
     s' = s\<lparr>ram := m, terminal_row := r, terminal_column := c, events := es, E_is_modified := b\<rparr>)"

lemma command_onlyI:
  assumes "term_only (s\<lparr>ram := m\<rparr>) t"
  shows "command_only s (t\<lparr>E_is_modified := b\<rparr>)"
proof -
  obtain m' r c es where t: "t = s\<lparr>ram := m', terminal_row := r, terminal_column := c, events := es\<rparr>"
    using assms by (auto simp: term_only_def)
  have "t\<lparr>E_is_modified := b\<rparr>
      = s\<lparr>ram := m', terminal_row := r, terminal_column := c, events := es, E_is_modified := b\<rparr>" by (simp add: t)
  then show ?thesis unfolding command_only_def by blast
qed

lemma command_only_fields:
  assumes "command_only s t"
  shows "E_buffer t = E_buffer s" "E_buffer_size t = E_buffer_size s" "E_filename t = E_filename s"
    "E_screen_rows t = E_screen_rows s" "E_screen_cols t = E_screen_cols s" "files t = files s"
    "terminal_color t = terminal_color s"
  using assms by (auto simp: command_only_def)

lemma flag_session:
  fixes b :: bool
  assumes ok: "session_ok s L"
  defines "t \<equiv> s\<lparr>E_is_modified := b\<rparr>"
  shows "session_ok t L" and "kept K s t" and "heap_slack k s \<Longrightarrow> heap_slack k t" and "ed_view t = ed_view s"
    and "view t = view s" and "kb_queue t = kb_queue s"
proof -
  have live: "heap_live t L' = heap_live s L'" and sl: "heap_slack k t = heap_slack k s"
    and bl: "ed_blocks t L L' = ed_blocks s L L'" for L'
    by (simp_all add: t_def heap_live_def heap_ok_def heap_slack_def ed_blocks_def)
  show "session_ok t L"
    using ok by (simp add: session_ok_def ed_ok_def term_ok_def kb_ok_def live bl)
      (simp add: t_def kb_queue_def)
  show "heap_slack k s \<Longrightarrow> heap_slack k t" by (simp add: sl)
  show "kept K s t" "ed_view t = ed_view s" "view t = view s" "kb_queue t = kb_queue s"
    by (simp_all add: t_def kept_def ed_view_def ed_text_def view_def cells_def get_cell_def kb_queue_def)
qed

lemma command_said:
  assumes ok: "session_ok s L" and slack: "heap_slack x s"
    and t: "t = terminal_write_string (msg @ 0 # []) s" and msg: "answer c s = msg" "0 \<notin> set msg"
    and run: "editor_key call c s = Some (Inr (Running (t\<lparr>E_is_modified := b\<rparr>)))"
    and b: "b \<longleftrightarrow> E_is_modified s \<and> c \<noteq> 17 \<and> (c = 19 \<longrightarrow> E_filename s = None \<or> E_buffer s = 0)"
  obtains t where "editor_key call c s = Some (Inr (Running t))" "session_ok t L" "kept L s t"
    "heap_slack x t" "ed_view t = ed_view s" "kb_queue t = kb_queue s" "command_only s t"
    "view t = fold (scr_write (terminal_color s)) (answer c s) (view s)"
    "E_is_modified t \<longleftrightarrow> E_is_modified s \<and> c \<noteq> 17 \<and> (c = 19 \<longrightarrow> E_filename s = None \<or> E_buffer s = 0)"
proof -
  note w = write_lit [OF ok msg(2), where r = "[]", folded t]
  note f = flag_session [OF w(2), where b = b]
  have "term_only (s\<lparr>ram := ram s\<rparr>) t" using w(7) by simp
  note only = command_onlyI [OF this, of b]
  show ?thesis
    by (rule that [OF run f(1) kept_trans [OF w(3) f(2)] f(3) [OF w(6) [OF slack]] _ _ only])
      (use f(4-6) w(1,4,5) b msg(1) in simp_all)
qed

lemma write_keeps_flag:
  assumes "session_ok s L"
  shows "(terminal_write_string d s)\<lparr>E_is_modified := E_is_modified s\<rparr> = terminal_write_string d s"
proof -
  have "term_only s (terminal_write_string d s)" using assms terminal_write_string_view by (auto simp: session_ok_def)
  then have "E_is_modified (terminal_write_string d s) = E_is_modified s" by (rule term_only_editor)
  then show ?thesis by simp
qed

lemma command_key_runs:
  assumes ok: "session_ok s L" and c: "answered_key c s"
    and slack: "heap_slack (24 + 12 * unat (E_buffer_size s) + x) s"
  obtains t where "editor_key call c s = Some (Inr (Running t))" "session_ok t L" "kept L s t"
    "heap_slack x t" "ed_view t = ed_view s" "kb_queue t = kb_queue s" "command_only s t"
    "view t = fold (scr_write (terminal_color s)) (answer c s) (view s)"
    "E_is_modified t \<longleftrightarrow> E_is_modified s \<and> c \<noteq> 17 \<and> (c = 19 \<longrightarrow> E_filename s = None \<or> E_buffer s = 0)"
proof -
  have slack': "heap_slack x s" by (rule heap_slack_mono [OF slack]) simp
  consider "c = 17" "E_is_modified s" | "c = 19" | "c = 18" "E_buffer s = 0 \<or> E_buffer_size s = 0"
    | "c = 18" "E_buffer s \<noteq> 0" "E_buffer_size s \<noteq> 0" "assemble (source_lines (ed_text s)) = None"
    using c unfolding answered_key_def by argo
  then show ?thesis
  proof cases
    case 1
    let ?m = "chars (crlf @ ''Warning: Unsaved changes! Press Ctrl-Q again to quit.'' @ crlf)"
    have "editor_key call c s = Some (Inr (Running ((terminal_write_string (?m @ 0 # []) s)\<lparr>E_is_modified := False\<rparr>)))"
      using 1 by (simp add: editor_key_def lit_def)
    moreover have "answer c s = ?m" "0 \<notin> set ?m" using 1 by (simp_all add: answer_def)
    moreover have "False \<longleftrightarrow> E_is_modified s \<and> c \<noteq> 17 \<and> (c = 19 \<longrightarrow> E_filename s = None \<or> E_buffer s = 0)" using 1 by simp
    ultimately show ?thesis by (intro command_said [OF ok slack' refl _ _ _ _ that])
  next
    case 2
    show ?thesis
    proof (cases "E_filename s \<noteq> None \<and> E_buffer s \<noteq> 0")
      case True
      let ?m = "chars (crlf @ ''File saved.'' @ crlf)"
      have "editor_key call c s = Some (Inr (Running ((terminal_write_string (?m @ 0 # []) s)\<lparr>E_is_modified := False\<rparr>)))"
        using 2 True by (simp add: editor_key_def lit_def)
      moreover have "answer c s = ?m" "0 \<notin> set ?m" using 2 True by (simp_all add: answer_def)
      moreover have "False \<longleftrightarrow> E_is_modified s \<and> c \<noteq> 17 \<and> (c = 19 \<longrightarrow> E_filename s = None \<or> E_buffer s = 0)" using 2 True by simp
      ultimately show ?thesis by (intro command_said [OF ok slack' refl _ _ _ _ that])
    next
      case False
      have "editor_key call c s = Some (Inr (Running s))" "answer c s = []"
        using 2 False by (auto simp: answer_def editor_key_def)
      moreover have "term_only (s\<lparr>ram := ram s\<rparr>) s" by simp
      from command_onlyI [OF this, of "E_is_modified s"] have "command_only s s" by simp
      ultimately show ?thesis
        using False 2 ok slack' by (intro that [of s]) (auto simp: kept_def)
    qed
  next
    case 3
    let ?m = "chars (crlf @ ''No code to compile!'' @ crlf)"
    let ?t = "terminal_write_string (?m @ 0 # []) s"
    have "editor_key call c s = Some (Inr (Running ?t))"
      using 3 by (simp add: editor_key_def editor_compile_and_run_def lit_def)
    then have "editor_key call c s = Some (Inr (Running (?t\<lparr>E_is_modified := E_is_modified s\<rparr>)))"
      unfolding write_keeps_flag [OF ok] .
    moreover have "answer c s = ?m" "0 \<notin> set ?m" using 3 by (simp_all add: answer_def)
    moreover have "E_is_modified s \<longleftrightarrow> E_is_modified s \<and> c \<noteq> 17 \<and> (c = 19 \<longrightarrow> E_filename s = None \<or> E_buffer s = 0)" using 3 by simp
    ultimately show ?thesis by (intro command_said [OF ok slack' refl _ _ _ _ that])
  next
    case 4
    from run_refused [OF ok 4(2,3) slack 4(4)] obtain t m where
      t: "editor_compile_and_run call s = Some (Inr t)" "session_ok t L" "kept L s t" "heap_slack x t"
      "ed_view t = ed_view s" "kb_queue t = kb_queue s" "term_only (s\<lparr>ram := m\<rparr>) t"
      "view t = fold (scr_write (terminal_color s)) refused_text (view s)" by metis
    have flag: "E_is_modified t = E_is_modified s" using term_only_editor(8) [OF t(7)] by simp
    have "command_only s t" using command_onlyI [OF t(7), of "E_is_modified t"] by simp
    then show ?thesis
      using 4 t flag by (intro that [of t]) (simp_all add: editor_key_def answer_def)
  qed
qed

lemma take_key:
  assumes ok: "session_ok s L" and q: "kb_queue s = c # cs"
  obtains x where "keyboard_getchar s = (c, s\<lparr>buffer_start := x\<rparr>)" "c \<noteq> 0"
    "session_ok (s\<lparr>buffer_start := x\<rparr>) L" "kb_queue (s\<lparr>buffer_start := x\<rparr>) = cs"
proof -
  obtain s1 where s1: "keyboard_getchar s = (c, s1)" "c \<noteq> 0" "session_ok s1 L" "kb_queue s1 = cs"
    by (rule getchar_session [OF ok q])
  have "kb_ok s" using ok by (simp add: session_ok_def)
  then have "buffer_start s \<noteq> buffer_end s" using keyboard_getchar_empty [of s] q by auto
  then obtain x where "s1 = s\<lparr>buffer_start := x\<rparr>" using s1(1) by (auto simp: keyboard_getchar_def Let_def)
  with s1 that show ?thesis by blast
qed

text \<open>The screen on which the refresh after an answer starts, and the refresh itself.\<close>

definition wiped :: "u8 list \<Rightarrow> 'a terminal_scheme \<Rightarrow> screen" where
  "wiped msg s =
     (case fold (scr_write (terminal_color s)) msg (view s) of
        (r, c, _) \<Rightarrow> (r, c, replicate cell_count (make_vgaentry 32 (terminal_color s))))"

lemma keypress_command:
  assumes ok: "session_ok s L" and q: "kb_queue s = c # cs" and c: "answered_key c s"
    and slack: "heap_slack (24 + 12 * unat (E_buffer_size s) + x) s"
  obtains s' where "editor_process_keypress call s = Some (Inr (Running s'))" "session_ok s' L"
    "kept L s s'" "heap_slack x s'" "ed_view s' = ed_view s" "kb_queue s' = cs" "files s' = files s"
    "view s' = fold (scr_write (terminal_color s)) (editor_text s) (wiped (answer c s) s)"
    "E_is_modified s' \<longleftrightarrow> E_is_modified s \<and> c \<noteq> 17 \<and> (c = 19 \<longrightarrow> E_filename s = None \<or> E_buffer s = 0)"
    "terminal_color s' = terminal_color s" "E_buffer s' = E_buffer s" "E_filename s' = E_filename s"
proof -
  obtain y where y: "keyboard_getchar s = (c, s\<lparr>buffer_start := y\<rparr>)" "c \<noteq> 0"
    "session_ok (s\<lparr>buffer_start := y\<rparr>) L" "kb_queue (s\<lparr>buffer_start := y\<rparr>) = cs"
    by (rule take_key [OF ok q])
  let ?s = "s\<lparr>buffer_start := y\<rparr>"
  have same: "ed_view ?s = ed_view s" "view ?s = view s" "ed_text ?s = ed_text s" "answer c ?s = answer c s"
    "kept K s ?s" "heap_slack k ?s = heap_slack k s" for K k
    by (simp_all add: ed_view_def ed_text_def view_def cells_def get_cell_def answer_def kept_def
        heap_slack_def heap_ok_def)
  have "answered_key c ?s" using c same(3) by (simp add: answered_key_def)
  note key = command_key_runs [OF y(3) this, of x call]
  from key [unfolded same(6), simplified, OF slack] obtain t where
    t: "editor_key call c ?s = Some (Inr (Running t))" "session_ok t L" "kept L ?s t"
    "heap_slack x t" "ed_view t = ed_view ?s" "kb_queue t = kb_queue ?s" "command_only ?s t"
    "view t = fold (scr_write (terminal_color s)) (answer c ?s) (view ?s)"
    "E_is_modified t \<longleftrightarrow> E_is_modified s \<and> c \<noteq> 17 \<and> (c = 19 \<longrightarrow> E_filename s = None \<or> E_buffer s = 0)"
    by blast
  note E1 = command_only_fields [OF t(7), simplified]
  have "term_ok t" using t(2) by (simp add: session_ok_def)
  then obtain s' where s': "editor_refresh_screen t = Inr s'" "term_ok s'" "term_only t s'"
    "view s' = fold (scr_write (terminal_color t)) (editor_text t)
       (unat (terminal_row t), unat (terminal_column t), replicate cell_count (blank t))"
    by (rule editor_refresh_view [OF _ session_text_apart [OF t(2)]])
  note r = term_only_session [OF s'(3) t(2) s'(2)] and E2 = term_only_editor [OF s'(3)]
  have run: "editor_process_keypress call s = Some (Inr (Running s'))"
    using y(1,2) t(1) s'(1) by (simp add: editor_process_keypress_def)
  have "(unat (terminal_row t), unat (terminal_column t), replicate cell_count (blank t)) = wiped (answer c s) s"
    using t(8) [symmetric] E1(7) unfolding wiped_def same(2,4) by (simp add: view_def [of t])
  moreover have "editor_text t = editor_text s"
    using E1 t(5) same(1) by (simp add: editor_text_def ed_view_def)
  ultimately have vw: "view s' = fold (scr_write (terminal_color s)) (editor_text s) (wiped (answer c s) s)"
    using s'(4) E1(7) by simp
  have kp: "kept L s s'" using kept_trans [OF same(5) kept_trans [OF t(3) r(2)]] .
  have "files s' = files t" "terminal_color s' = terminal_color t" "E_filename s' = E_filename t"
    "E_buffer s' = E_buffer t" "E_is_modified s' = E_is_modified t"
    using s'(3) by (auto simp: term_only_def)
  then show ?thesis
    using that [OF run r(1) kp r(3) [OF t(4)] _ _ _ vw] t(5,6,9) r(4,5) E1 y(4) same(1) by simp
qed

subsection \<open>Properties\<close>

text \<open>A session in which the given keys have been typed, and others wait.\<close>

lemma typed_session:
  assumes "length cs < 100" and "0 \<notin> set cs" and "\<forall>c \<in> set cs. \<not> command_key c"
    and "length ks < 256" and "0 \<notin> set ks"
  obtains s :: editor where "session_ok s {}" "kb_queue s = ks" "heap_slack 10000 s"
    "ed_view s = fold (ed_press 80) cs ([], 0, 0)" "E_is_modified s = b" "E_filename s = f"
proof -
  let ?s = "blank_editor cs" and ?n = "length cs"
  have n: "?n < 256" using assms(1) by simp
  note ok = blank_editor_ok(1,2) [OF n assms(2)]
  have "?n * (15 + unat (E_buffer_size ?s) + ?n) \<le> 100 * 115"
    using assms(1) by (intro mult_le_mono) (simp_all add: blank_editor_fields)
  then have "?n * (15 + unat (E_buffer_size ?s) + ?n) + 10000 \<le> 0xF0000000" by simp
  note slack = blank_editor_ok(3) [OF n assms(2) this]
  obtain s :: editor where s: "session_ok s {}" "heap_slack 10000 s" "kb_queue s = []"
    "ed_view s = fold (ed_press (E_screen_cols ?s)) cs (ed_view ?s)"
    using main_loop_session [OF ok assms(3) slack, of "\<lambda>_. Some"] by auto
  have v: "ed_view ?s = ([], 0, 0)" by (simp add: ed_view_def ed_text_def blank_editor_fields)
  let ?t = "s\<lparr>keyboard_buffer := ks @ replicate (KEYBOARD_BUFFER_SIZE - length ks) 0, buffer_start := 0,
     buffer_end := length ks, E_is_modified := b, E_filename := f\<rparr>"
  have q: "kb_queue ?t = ks"
    unfolding kb_queue_def ring_contents_def ring_length_def
    by (rule nth_equalityI) (use assms(4) in \<open>simp_all add: KEYBOARD_BUFFER_SIZE_def nth_append\<close>)
  have same: "heap_live ?t L' = heap_live s L'" "heap_slack k ?t = heap_slack k s"
    "ed_blocks ?t L L' = ed_blocks s L L'" "ed_view ?t = ed_view s" for L L' k
    by (simp_all add: heap_live_def heap_ok_def heap_slack_def ed_blocks_def ed_view_def ed_text_def)
  have "kb_ok ?t" using assms(4,5) q by (simp add: kb_ok_def KEYBOARD_BUFFER_SIZE_def)
  then have "session_ok ?t {}" using s(1) by (simp add: session_ok_def ed_ok_def term_ok_def same)
  then show ?thesis
    using that [of ?t] q s(2,4) same v by (simp add: blank_editor_fields)
qed

text \<open>
  C15. The answers of the editor never stay on the screen. A control key (Ctrl-Q with unsaved
  changes, Ctrl-S, or Ctrl-R with nothing to compile or a program that is refused) returns to
  the loop without a fault and without changing text, cursor, files or the blocks of others,
  but the refresh that ends the key press clears the screen: what is left of the message is the
  position at which the text of the editor is then drawn.
\<close>

theorem command_answers_wiped:
  assumes "session_ok s L" and "kb_queue s = c # cs" and "answered_key c s"
    and "heap_slack (24 + 12 * unat (E_buffer_size s)) s"
  shows "\<exists>s'. editor_process_keypress call s = Some (Inr (Running s')) \<and> session_ok s' L \<and> kept L s s' \<and>
    ed_view s' = ed_view s \<and> files s' = files s \<and> kb_queue s' = cs \<and>
    view s' = fold (scr_write (terminal_color s)) (editor_text s) (wiped (answer c s) s)"
proof -
  have "heap_slack (24 + 12 * unat (E_buffer_size s) + 0) s" using assms(4) by simp
  from keypress_command [OF assms(1-3) this] show ?thesis by metis
qed

text \<open>A program with an unknown instruction: the message is refused, written and wiped.\<close>

theorem command_answers_wiped_witness:
  "\<exists>(s :: editor) s'. ed_text s = chars ''add'' @ [10] \<and>
     editor_process_keypress (\<lambda>_. Some) s = Some (Inr (Running s')) \<and>
     view s' = fold (scr_write (terminal_color s)) (editor_text s) (wiped refused_text s)"
proof -
  let ?cs = "chars ''add'' @ [10]"
  have cs: "length ?cs < 100" "0 \<notin> set ?cs" "\<forall>c \<in> set ?cs. \<not> command_key c" "length [18 :: u8] < 256" "0 \<notin> set [18 :: u8]"
    by (simp_all add: command_key_def)
  obtain s :: editor where s: "session_ok s {}" "kb_queue s = [18]" "heap_slack 10000 s"
    "ed_view s = fold (ed_press 80) ?cs ([], 0, 0)" "E_is_modified s = True" "E_filename s = None"
    by (rule typed_session [OF cs])
  have tx: "ed_text s = ?cs" using s(4) by (simp add: ed_view_def ed_press_def word_le_nat_alt)
  then have n: "unat (E_buffer_size s) = 4" using length_ed_view [of s] by (simp add: ed_view_def)
  have b: "E_buffer s \<noteq> 0" "E_buffer_size s \<noteq> 0"
    using s(1) n by (auto simp: session_ok_def ed_ok_def ed_blocks_def)
  have "assemble (source_lines ?cs) = None"
    by (simp add: source_lines_def line_text_def cname_def parse_line_def Let_def blank_char_def)
  then have "answered_key 18 s" using tx by (simp add: answered_key_def)
  moreover have "heap_slack (24 + 12 * unat (E_buffer_size s)) s"
    by (rule heap_slack_mono [OF s(3)]) (simp add: n)
  moreover have "answer 18 s = refused_text" using b by (simp add: answer_def)
  ultimately show ?thesis
    using command_answers_wiped [OF s(1,2), of "\<lambda>_. Some"] tx by metis
qed





end
