(* ===== verification/Release.thy ===== *)
theory Release
  imports Kernel Commands
begin

text \<open>
  The older copy of the kernel under \<^verbatim>\<open>src/release/kernel\<close>. Its \<^verbatim>\<open>string.cpp\<close>,
  \<^verbatim>\<open>stdio.cpp\<close>, \<^verbatim>\<open>interrupts.cpp\<close> and headers are the same files, and the parts of
  the other files that are not named here are the same text, so the definitions and theorems
  of the other theories hold for it as they are. Here are the functions that differ; those of
  the editor use the record of the current editor, whose field \<^verbatim>\<open>is_modified\<close> the release
  does not have, and neither read nor set it. The theorems follow the release from its
  \<^verbatim>\<open>kernel_main\<close> to the first key and compare its keys with those of the current editor.
\<close>

subsection \<open>Memory, keyboard and files\<close>

definition release_memory_get_free :: u32 where
  "release_memory_get_free = 32 * 1024 * 1024"

text \<open>Not called anywhere.\<close>

definition keyboard_send_data :: "u8 \<Rightarrow> 'a machine_scheme \<Rightarrow> 'a machine_scheme option" where
  "keyboard_send_data data s =
     do { s \<leftarrow> keyboard_wait_input s; Some (outb KEYBOARD_DATA_PORT data s) }"

definition release_read_file_c :: "u8 list option \<Rightarrow> 'a filesystem_scheme \<Rightarrow> u32" where
  "release_read_file_c filename s = dummy_buffer s"

definition release_write_file_c :: "u8 list option \<Rightarrow> u32 \<Rightarrow> u32 \<Rightarrow> int" where
  "release_write_file_c filename data sz = 0"

subsection \<open>The editor\<close>

definition release_editor_init :: "'a editor_scheme \<Rightarrow> 'a editor_scheme" where
  "release_editor_init s =
     (let s = s\<lparr>E_buffer := 0, E_buffer_size := 0, E_cursor_x := 0, E_cursor_y := 0,
                E_filename := None\<rparr>;
          (rows, cols) = terminal_get_size;
          s = s\<lparr>E_screen_rows := rows, E_screen_cols := cols\<rparr>;
          s = (if E_screen_rows s = 0 then s\<lparr>E_screen_rows := 24\<rparr> else s);
          s = (if E_screen_cols s = 0 then s\<lparr>E_screen_cols := 80\<rparr> else s)
      in s\<lparr>E_screen_rows := E_screen_rows s - 1\<rparr>)"

definition release_editor_open :: "u8 list option \<Rightarrow> 'a editor_scheme \<Rightarrow> 'a editor_scheme option" where
  "release_editor_open filename s =
     (let s = s\<lparr>E_filename := filename\<rparr>;
          data = release_read_file_c filename s
      in if data \<noteq> 0
         then do {
           n \<leftarrow> strlen (ram s) data;
           Some (s\<lparr>E_buffer := data, E_buffer_size := n\<rparr>)
         }
         else Some s)"

definition release_refresh_screen :: "'a editor_scheme \<Rightarrow> fault + 'a editor_scheme" where
  "release_refresh_screen s =
     (let s = terminal_clear s in
      rbind (if E_buffer s \<noteq> 0
             then Inr (refresh_lines (E_buffer s) (E_buffer_size s) (E_screen_rows s)
                         (E_screen_cols s) 0 0 s)
             else if E_screen_rows s > 2 then show_welcome (E_screen_cols s) s
             else Inr s) (\<lambda>s.
      rbind (snprintf (Some (replicate 80 0)) 80 (Some (lit ''%.20s - %zu bytes %d,%d''))
               [VStr (Some (case E_filename s of Some f \<Rightarrow> cname f | None \<Rightarrow> chars ''[No Name]'')),
                VInt (E_buffer_size s), VInt (E_cursor_y s + 1), VInt (E_cursor_x s + 1)])
        (\<lambda>(status, len). case status of
            None \<Rightarrow> Inl NullPointer
          | Some status \<Rightarrow>
              (let s = terminal_movecursor 0 (E_screen_rows s) s;
                   s = terminal_write_string status s
               in Inr (terminal_movecursor (E_cursor_x s) (E_cursor_y s) s)))))"

definition release_key :: "u8 \<Rightarrow> 'a editor_scheme \<Rightarrow> 'a editor_scheme run option" where
  "release_key c s =
     (if c = 13 \<or> c = 10 then do {
        s \<leftarrow> editor_insert_char 10 s;
        Some (Running (s\<lparr>E_cursor_x := 0, E_cursor_y := E_cursor_y s + 1\<rparr>))
      }
      else if c = 8 then map_option Running (editor_delete_char s)
      else if c = 17 then
        Some (Halted
          (let s = terminal_clear s;
               s = terminal_write_string (lit (''Exiting editor...'' @ [CHR 0x0A])) s
           in s\<lparr>events := events s @ [Hlt]\<rparr>))
      else if c = 19 then
        if E_filename s \<noteq> None \<and> E_buffer s \<noteq> 0 then
          (case release_write_file_c (E_filename s) (E_buffer s) (E_buffer_size s) of _ \<Rightarrow>
            Some (Running (terminal_write_string (lit (crlf @ ''File saved.'' @ crlf)) s)))
        else Some (Running s)
      else if 32 \<le> c \<and> c < 127 then map_option Running (editor_insert_char c s)
      else Some (Running s))"

definition release_process_keypress ::
  "'a editor_scheme \<Rightarrow> (fault + 'a editor_scheme run) option" where
  "release_process_keypress s =
     (let (c, s) = keyboard_getchar s in
      if c = 0 then Some (Inr (Running s))
      else do {
        r \<leftarrow> release_key c s;
        case r of
          Running s \<Rightarrow> Some (map_sum id Running (release_refresh_screen s))
        | Halted s \<Rightarrow> Some (Inr (Halted s))
      })"

subsection \<open>The kernel\<close>

definition release_kernel_init :: "'a editor_scheme \<Rightarrow> 'a editor_scheme option" where
  "release_kernel_init s =
     do {
       let s = memory_init s;
       let s = s\<lparr>total_memory := memory_get_total\<rparr>;
       let s = s\<lparr>free_memory := release_memory_get_free\<rparr>;
       let s = terminal_init s;
       s \<leftarrow> keyboard_init s;
       let s = filesystem_init s;
       let s = interrupts_init s;
       Some (release_editor_init s)
     }"

text \<open>\<^verbatim>\<open>kernel_main\<close> up to its loop.\<close>

definition release_kernel_boot :: "'a editor_scheme \<Rightarrow> (fault + 'a editor_scheme) option" where
  "release_kernel_boot s =
     do {
       s \<leftarrow> release_kernel_init s;
       let s = print (''Custom OS v2.0.0'' @ [CHR 0x0A]) s;
       let s = print (''---------------'' @ [CHR 0x0A]) s;
       let s = print ''Memory: '' s;
       Some (
         rbind (sprintf (replicate 32 0) (lit (''%uKB total, %uKB free'' @ [CHR 0x0A]))
                 [VInt (total_memory s div 1024), VInt (free_memory s div 1024)]) (\<lambda>(memstr, len).
         let s = terminal_write_string memstr s
         in Inr (print ([CHR 0x0A] @ ''Type '' @ [CHR 39] @ ''help'' @ [CHR 39] @
              '' for available commands.'' @ [CHR 0x0A, CHR 0x0A]) s)))
     }"

primrec release_main_loop ::
  "nat \<Rightarrow> 'a editor_scheme \<Rightarrow> (fault + 'a editor_scheme run) option" where
  "release_main_loop 0 s = Some (Inr (Running s))"
| "release_main_loop (Suc n) s =
     do {
       r \<leftarrow> release_process_keypress s;
       case r of Inr (Running s) \<Rightarrow> release_main_loop n s | _ \<Rightarrow> Some r
     }"

subsection \<open>The status line of the release\<close>

text \<open>
  \<^verbatim>\<open>vsnprintf\<close> does not know \<^verbatim>\<open>%.20s\<close> and \<^verbatim>\<open>%zu\<close> and takes no argument for
  them, so the first \<^verbatim>\<open>%d\<close> takes the argument that was passed for the file name.
\<close>

lemma release_status_fault:
  "snprintf (Some (replicate 80 0)) 80 (Some (lit ''%.20s - %zu bytes %d,%d'')) (VStr f # args)
    = Inl BadArgument"
  by (simp add: snprintf_def vsnprintf_def lit_def)

lemma show_welcome_returns: "\<exists>t. show_welcome cols s = Inr t"
proof -
  have "0 \<notin> set (chars ''Editor -- version 2.0.0'')" by simp
  from arr_strlen_cstr [OF this, of "[]"] have "\<exists>n. arr_strlen (lit ''Editor -- version 2.0.0'') = Inr n"
    unfolding lit_def by blast
  then obtain n where n: "arr_strlen (lit ''Editor -- version 2.0.0'') = Inr n" by blast
  show ?thesis unfolding show_welcome_def Let_def n rbind_simps by (simp split: prod.split)
qed

lemma release_refresh_fault: "release_refresh_screen s = Inl BadArgument"
proof -
  let ?c = "terminal_clear s"
  have "\<exists>t. (if E_buffer ?c \<noteq> 0
      then Inr (refresh_lines (E_buffer ?c) (E_buffer_size ?c) (E_screen_rows ?c) (E_screen_cols ?c) 0 0 ?c)
      else if E_screen_rows ?c > 2 then show_welcome (E_screen_cols ?c) ?c else Inr ?c) = Inr t"
    using show_welcome_returns by (cases "E_buffer ?c \<noteq> 0"; cases "E_screen_rows ?c > 2") auto
  then obtain t where t: "(if E_buffer ?c \<noteq> 0
      then Inr (refresh_lines (E_buffer ?c) (E_buffer_size ?c) (E_screen_rows ?c) (E_screen_cols ?c) 0 0 ?c)
      else if E_screen_rows ?c > 2 then show_welcome (E_screen_cols ?c) ?c else Inr ?c) = Inr t" by blast
  show ?thesis unfolding release_refresh_screen_def Let_def t rbind_simps release_status_fault ..
qed

text \<open>What the release prints for the memory sizes: \<^verbatim>\<open>sprintf\<close> does not know \<^verbatim>\<open>%u\<close>.\<close>

lemma release_memory_line:
  "sprintf (replicate 32 0) (lit (''%uKB total, %uKB free'' @ [CHR 0x0A])) [VInt a, VInt b]
    = Inr (chars ''%uKB total, %uKB free'' @ [10] @ replicate 10 0, 22)"
proof -
  let ?f = "chars (''%uKB total, %uKB free'' @ [CHR 0x0A])"
  have r: "sp_render ?f [VInt a, VInt b] = ?f" and ok: "0 \<notin> set ?f" "sp_ok ?f [VInt a, VInt b]" by simp_all
  have d: "drop 23 (replicate 32 (0 :: u8)) = replicate 9 0" by simp
  have "replicate 10 (0 :: u8) = 0 # replicate 9 0" by (simp add: numeral_eq_Suc)
  then show ?thesis
    using sprintf_text [OF ok, of "replicate 32 0"] unfolding r lit_def by (simp add: d)
qed

subsection \<open>Booting the release\<close>

definition release_boot_text :: "u8 list" where
  "release_boot_text = chars (''Custom OS v2.0.0'' @ [CHR 0x0A]) @ chars (''---------------'' @ [CHR 0x0A]) @
     chars ''Memory: '' @ chars (''%uKB total, %uKB free'' @ [CHR 0x0A]) @
     chars ([CHR 0x0A] @ ''Type '' @ [CHR 39] @ ''help'' @ [CHR 39] @ '' for available commands.'' @ [CHR 0x0A, CHR 0x0A])"

lemma release_editor_init_fresh:
  "base_same s (release_editor_init s)" "ring_reset (release_editor_init s) = ring_reset s"
  "E_buffer (release_editor_init s) = 0" "E_buffer_size (release_editor_init s) = 0"
  "E_cursor_x (release_editor_init s) = 0"
  by (simp_all add: release_editor_init_def terminal_get_size_def base_same_def ring_reset_def VGA_HEIGHT_def
      VGA_WIDTH_def Let_def)

lemma release_init_state:
  assumes "\<forall>es. device s es KEYBOARD_STATUS_PORT = 1" and "ring_reset s"
  obtains s' where "release_kernel_init s = Some s'" "sys_ok s' {}" "heap_slack 0xE0000000 s'" "kb_queue s' = []"
    "terminal_color s' = 7" "view s' = (0, 0, replicate cell_count (make_vgaentry 32 7))" "E_buffer_size s' = 0"
proof -
  obtain t u where u: "keyboard_init (terminal_init ((memory_init s)\<lparr>total_memory := memory_get_total,
      free_memory := release_memory_get_free\<rparr>)) = Some t" "u = interrupts_init (filesystem_init t)"
    "heap_live u {}" "heap_slack 0xE0000000 u" "terminal_color u = 7" "terminal_buffer u = VGA_MEMORY"
    "view u = (0, 0, replicate cell_count (make_vgaentry 32 7))" "term_ok u" "ring_reset u"
    by (rule bring_up [OF assms])
  let ?s' = "release_editor_init u"
  note e = release_editor_init_fresh [of u] and b = release_editor_init_fresh(1) [of u, unfolded base_same_def]
  have run: "release_kernel_init s = Some ?s'" unfolding release_kernel_init_def Let_def using u(1,2) by simp
  have live: "heap_live ?s' {}" by (rule heap_live_above(1) [OF u(3)]) (use b in simp_all)
  have ring: "ring_reset ?s'" using e(2) u(9) by simp
  show ?thesis
  proof (rule that [OF run])
    show "sys_ok ?s' {}" using fresh_sys_ok [OF live _ ring] e b u(6,8) by (simp add: term_ok_def)
    show "heap_slack 0xE0000000 ?s'" by (rule heap_slack_above [OF u(3) _ _ u(4)]) (use b in simp_all)
    show "kb_queue ?s' = []" using ring_reset_ok [OF ring] by simp
    show "view ?s' = (0, 0, replicate cell_count (make_vgaentry 32 7))"
      using u(7) b cells_cong [of ?s' u] by (simp add: view_def)
  qed (use b e u(5) in simp_all)
qed

text \<open>Output in a session.\<close>

lemma print_session:
  fixes s :: "'a editor_scheme"
  assumes "sys_ok s L" and "0 \<notin> set (chars l)"
  defines "t \<equiv> print l s"
  shows "sys_ok t L" and "view t = fold (scr_write (terminal_color s)) (chars l) (view s)" and "term_only s t"
proof -
  have ok: "session_ok s L" using assms(1) by (simp add: sys_ok_def)
  note w = write_lit [OF ok assms(2), where r = "[]", folded lit_def, folded print_def, folded t_def]
  show "sys_ok t L" using w(2,5) assms(1) by (simp add: sys_ok_def)
  show "view t = fold (scr_write (terminal_color s)) (chars l) (view s)" "term_only s t" by (fact w)+
qed

lemma release_boot_state:
  assumes "\<forall>es. device s es KEYBOARD_STATUS_PORT = 1" and "ring_reset s"
  obtains s' where "release_kernel_boot s = Some (Inr s')" "sys_ok s' {}" "heap_slack 0xE0000000 s'"
    "kb_queue s' = []" "E_buffer_size s' = 0"
    "view s' = fold (scr_write 7) release_boot_text (0, 0, replicate cell_count (make_vgaentry 32 7))"
proof -
  obtain a where a: "release_kernel_init s = Some a" "sys_ok a {}" "heap_slack 0xE0000000 a" "kb_queue a = []"
    "terminal_color a = 7" "view a = (0, 0, replicate cell_count (make_vgaentry 32 7))" "E_buffer_size a = 0"
    by (rule release_init_state [OF assms])
  let ?l = "''%uKB total, %uKB free'' @ [CHR 0x0A]"
  let ?usage = "[CHR 0x0A] @ ''Type '' @ [CHR 39] @ ''help'' @ [CHR 39] @ '' for available commands.'' @ [CHR 0x0A, CHR 0x0A]"
  have nz: "0 \<notin> set (chars (''Custom OS v2.0.0'' @ [CHR 0x0A]))" "0 \<notin> set (chars (''---------------'' @ [CHR 0x0A]))"
    "0 \<notin> set (chars ''Memory: '')" "0 \<notin> set (chars ?l)" "0 \<notin> set (chars ?usage)" by simp_all
  define b where "b = print (''Custom OS v2.0.0'' @ [CHR 0x0A]) a"
  note b = print_session [OF a(2) nz(1), folded b_def]
  define c where "c = print (''---------------'' @ [CHR 0x0A]) b"
  note c = print_session [OF b(1) nz(2), folded c_def]
  define d where "d = print ''Memory: '' c"
  note d = print_session [OF c(1) nz(3), folded d_def]
  define e where "e = terminal_write_string (chars ''%uKB total, %uKB free'' @ [10] @ replicate 10 0) d"
  have "chars ''%uKB total, %uKB free'' @ [10] @ replicate 10 0 = chars ?l @ 0 # replicate 9 (0 :: u8)"
    by (simp add: numeral_eq_Suc)
  then have e_eq: "e = terminal_write_string (chars ?l @ 0 # replicate 9 0) d" by (simp only: e_def)
  have ds: "session_ok d {}" using d(1) by (simp add: sys_ok_def)
  note e = write_lit [OF ds nz(4), where r = "replicate 9 0", folded e_eq]
  have e_ok: "sys_ok e {}" using e(2,5) d(1) by (simp add: sys_ok_def)
  define f where "f = print ?usage e"
  note f = print_session [OF e_ok nz(5), folded f_def]
  note o1 = b(3) note o2 = term_only_trans [OF o1 c(3)] note o3 = term_only_trans [OF o2 d(3)]
  note o4 = term_only_trans [OF o3 e(7)] note o5 = term_only_trans [OF o4 f(3)]
  have cols: "terminal_color b = 7" "terminal_color c = 7" "terminal_color d = 7" "terminal_color e = 7"
    using term_only_fields(1) o1 o2 o3 o4 a(5) by metis+
  have run: "release_kernel_boot s = Some (Inr f)"
    unfolding release_kernel_boot_def a(1) bind.bind_lunit Let_def b_def [symmetric] c_def [symmetric] d_def [symmetric]
      release_memory_line rbind_simps prod.case e_def [symmetric] f_def [symmetric] by simp
  have as: "session_ok a {}" using a(2) by (simp add: sys_ok_def)
  have "term_ok f" using f(1) by (simp add: sys_ok_def session_ok_def)
  note t = term_only_session [OF o5 as this]
  show ?thesis
  proof (rule that [OF run f(1) t(3) [OF a(3)]])
    show "view f = fold (scr_write 7) release_boot_text (0, 0, replicate cell_count (make_vgaentry 32 7))"
      unfolding f(2) e(1) d(2) c(2) b(2) cols a(5,6) release_boot_text_def fold_append comp_apply ..
  qed (use t(5) a(4,7) term_only_editor(2) [OF o5] in simp_all)
qed

text \<open>A key in a session of the release.\<close>

lemma release_key_returns:
  assumes ok: "ed_ok s L" and c: "c \<noteq> 17" and slack: "heap_slack (14 + unat (E_buffer_size s)) s"
  shows "\<exists>t. release_key c s = Some (Running t)"
proof -
  have ins: "heap_slack (14 + unat (E_buffer_size s) + 0) s" using slack by simp
  have del: "heap_slack (12 + unat (E_buffer_size s) + 0) s" by (rule heap_slack_mono [OF slack]) simp
  obtain t where t: "editor_delete_char s = Some t" by (rule editor_delete [OF ok del])
  obtain u where u: "editor_insert_char 10 s = Some u" by (rule editor_insert [OF ok ins])
  obtain v where v: "editor_insert_char c s = Some v" by (rule editor_insert [OF ok ins])
  show ?thesis using t u v c unfolding release_key_def by (auto split: if_splits)
qed

lemma release_keypress_fault:
  assumes ok: "session_ok s L" and q: "kb_queue s = c # cs" and c: "c \<noteq> 17"
    and slack: "heap_slack (14 + unat (E_buffer_size s)) s"
  shows "release_process_keypress s = Some (Inl BadArgument)"
proof -
  obtain y where y: "keyboard_getchar s = (c, s\<lparr>buffer_start := y\<rparr>)" "c \<noteq> 0"
    "session_ok (s\<lparr>buffer_start := y\<rparr>) L" "kb_queue (s\<lparr>buffer_start := y\<rparr>) = cs"
    by (rule take_key [OF ok q])
  have "heap_slack (14 + unat (E_buffer_size (s\<lparr>buffer_start := y\<rparr>))) (s\<lparr>buffer_start := y\<rparr>)"
    using slack by (simp add: heap_slack_def heap_ok_def)
  then obtain t where "release_key c (s\<lparr>buffer_start := y\<rparr>) = Some (Running t)"
    using release_key_returns [OF _ c] y(3) unfolding session_ok_def by blast
  then show ?thesis using y(1,2) by (simp add: release_process_keypress_def release_refresh_fault)
qed

subsection \<open>Properties\<close>

text \<open>
  The status line of the release editor has undefined behaviour: after every key but
  Ctrl-Q the refresh reads the file name pointer with \<^verbatim>\<open>va_arg(args, int)\<close>, so no such
  key press has a defined result (\<^const>\<open>None\<close>: the allocator does not return).
\<close>

lemma release_refresh_undefined:
  assumes "kb_ok s" and "kb_queue s = c # cs" and "c \<noteq> 17"
  shows "release_process_keypress s \<in> {None, Some (Inl BadArgument)}"
proof -
  have g: "fst (keyboard_getchar s) = c" using keyboard_getchar_queue(2) [OF assms(1,2)] by simp
  have "c \<noteq> 0" using assms(1,2) by (auto simp: kb_ok_def)
  obtain s1 where s1: "keyboard_getchar s = (c, s1)" using g by (metis prod.collapse)
  have "release_key c s1 \<noteq> Some (Halted t)" for t
    using assms(3) by (auto simp: release_key_def bind_eq_Some_conv split: if_splits)
  then show ?thesis
    using s1 \<open>c \<noteq> 0\<close>
    by (cases "release_key c s1")
      (auto simp: release_process_keypress_def release_refresh_fault split: run.splits)
qed

lemma release_refresh_undefined_witness:
  "release_process_keypress (blank_editor [7]) = Some (Inl BadArgument)"
proof -
  have ok: "session_ok (blank_editor [7]) {}" "kb_queue (blank_editor [7]) = [7]"
    by (rule blank_editor_ok; simp)+
  then have kb: "kb_ok (blank_editor [7])" by (simp add: session_ok_def)
  have "fst (keyboard_getchar (blank_editor [7])) = 7" using keyboard_getchar_queue(2) [OF kb ok(2)] by simp
  then obtain s1 where "keyboard_getchar (blank_editor [7]) = (7, s1)" by (metis prod.collapse)
  then have "release_process_keypress (blank_editor [7]) \<noteq> None"
    by (simp add: release_process_keypress_def release_key_def)
  then show ?thesis using release_refresh_undefined [OF kb ok(2)] by auto
qed



text \<open>The keys on which both editors edit the text.\<close>

definition edits :: "u8 \<Rightarrow> bool" where
  "edits c \<longleftrightarrow> c = 13 \<or> c = 10 \<or> c = 8 \<or> 32 \<le> c \<and> c < 127"

text \<open>
  C33. Before the refresh, the editors of the release and of the current kernel are equivalent on
  every key that is not a command: they return together, in the same state but for the
  modified flag, which the current editor sets on the keys that edit.
\<close>

theorem release_keys_agree:
  assumes "\<not> command_key c"
  shows "editor_key call c s = map_option (\<lambda>r. Inr (map_run
    (\<lambda>t. if edits c then t\<lparr>E_is_modified := True\<rparr> else t) r)) (release_key c s)"
proof -
  have c: "c \<noteq> 17" "c \<noteq> 18" "c \<noteq> 19" using assms by (simp_all add: command_key_def)
  consider "c = 13 \<or> c = 10" | "c = 8" | "c \<noteq> 13" "c \<noteq> 10" "c \<noteq> 8" "32 \<le> c \<and> c < 127"
    | "c \<noteq> 13" "c \<noteq> 10" "c \<noteq> 8" "\<not> (32 \<le> c \<and> c < 127)" by blast
  then show ?thesis
  proof cases
    case 1
    then have "edits c" by (auto simp: edits_def)
    with 1 show ?thesis
      unfolding editor_key_def release_key_def by (cases "editor_insert_char 10 s") simp_all
  next
    case 2
    then show ?thesis
      unfolding editor_key_def release_key_def by (cases "editor_delete_char s") (simp_all add: edits_def)
  next
    case 3
    then have "edits c" by (simp add: edits_def)
    with 3 c show ?thesis
      unfolding editor_key_def release_key_def by (cases "editor_insert_char c s") simp_all
  next
    case 4
    then have "\<not> edits c" by (simp add: edits_def)
    moreover have "editor_key call c s = Some (Inr (Running s))" "release_key c s = Some (Running s)"
      unfolding editor_key_def release_key_def using 4 c by auto
    ultimately show ?thesis by simp
  qed
qed

theorem release_keys_agree_witness:
  "editor_key (\<lambda>_. Some) 8 (blank_editor []) = Some (Inr (Running ((blank_editor [])\<lparr>E_is_modified := True\<rparr>)))"
proof -
  have "\<not> command_key 8" by (simp add: command_key_def)
  from release_keys_agree [OF this, of "\<lambda>_. Some" "blank_editor []"] show ?thesis
    by (simp add: release_key_def editor_delete_char_def blank_editor_fields edits_def)
qed

end
