(* ===== verification/Cpu.thy ===== *)
theory Cpu
  imports Machine
begin

text \<open>
  The processor as far as the assembly files of the kernel use it (\<^verbatim>\<open>boot/boot.asm\<close>,
  \<^verbatim>\<open>kernel/isr.asm\<close>, \<^verbatim>\<open>kernel/interrupt_asm.asm\<close>): registers, the stack in memory, and one
  constructor for each form of instruction that occurs there. A piece of straight code is a
  list of instructions; jumps and calls are in the definitions that put the pieces together.
  Arithmetic instructions leave \<^verbatim>\<open>eflags\<close> alone: no code in these files tests a flag that
  they set, and the only comparison is written as a condition.
\<close>

subsection \<open>Registers and instructions\<close>

datatype reg = EAX | ECX | EDX | EBX | ESP | EBP | ESI | EDI
datatype sreg = CS | DS | ES | FS | GS | SS

record cpu =
  gpr :: "reg \<Rightarrow> u32"
  segm :: "sreg \<Rightarrow> u16"
  eflags :: u32
  eip :: u32

text \<open>The processor and what it works on.\<close>

type_synonym 'a pm = "cpu \<times> 'a machine_scheme"

datatype insn =
    PUSHI u32
  | PUSH reg
  | POP reg
  | PUSHA
  | POPA
  | POPF
  | MOVI reg u32
  | MOV reg reg
  | LOAD reg reg u32
  | STORE u32 u32
  | ADDI reg u32
  | MOV_AX u16
  | MOV_AL u8
  | XOR_AL
  | MOV_DX u16
  | INC_DX
  | DEC_DX
  | OUT_DX_AL
  | MOV_AX_SEG sreg
  | MOV_SEG_AX sreg
  | MOV_SEG_BX sreg
  | REP_STOSW
  | LIDT reg
  | LGDT u32
  | JMP_FAR u16
  | CLI
  | STI
  | IRET

subsection \<open>Execution\<close>

abbreviation set_reg :: "reg \<Rightarrow> u32 \<Rightarrow> cpu \<Rightarrow> cpu" where
  "set_reg r v c \<equiv> c\<lparr>gpr := (gpr c)(r := v)\<rparr>"

abbreviation set_seg :: "sreg \<Rightarrow> u16 \<Rightarrow> cpu \<Rightarrow> cpu" where
  "set_seg r v c \<equiv> c\<lparr>segm := (segm c)(r := v)\<rparr>"

definition IF_flag :: u32 where "IF_flag = 0x200"

definition set_low16 :: "u32 \<Rightarrow> u16 \<Rightarrow> u32" where
  "set_low16 old v = (old AND 0xFFFF0000) OR ucast v"

definition set_low8 :: "u32 \<Rightarrow> u8 \<Rightarrow> u32" where
  "set_low8 old v = (old AND 0xFFFFFF00) OR ucast v"

definition push :: "u32 \<Rightarrow> 'a pm \<Rightarrow> 'a pm" where
  "push v = (\<lambda>(c, s). (set_reg ESP (gpr c ESP - 4) c, s\<lparr>ram := store32 (ram s) (gpr c ESP - 4) v\<rparr>))"

definition pop :: "'a pm \<Rightarrow> u32 \<times> 'a pm" where
  "pop = (\<lambda>(c, s). (load32 (ram s) (gpr c ESP), (set_reg ESP (gpr c ESP + 4) c, s)))"

definition pop_reg :: "reg \<Rightarrow> 'a pm \<Rightarrow> 'a pm" where
  "pop_reg r p = (case pop p of (v, c, s) \<Rightarrow> (set_reg r v c, s))"

text \<open>\<^verbatim>\<open>rep stosw\<close> with the direction flag clear.\<close>

primrec stosw_loop :: "nat \<Rightarrow> u32 \<Rightarrow> u16 \<Rightarrow> mem \<Rightarrow> mem" where
  "stosw_loop 0 p v m = m"
| "stosw_loop (Suc n) p v m = stosw_loop n (p + 2) v (store16 m p v)"

fun exec1 :: "insn \<Rightarrow> 'a pm \<Rightarrow> 'a pm" where
  "exec1 (PUSHI v) p = push v p"
| "exec1 (PUSH r) p = push (gpr (fst p) r) p"
| "exec1 (POP r) p = pop_reg r p"
| "exec1 PUSHA p =
     fold push (map (gpr (fst p)) [EAX, ECX, EDX, EBX, ESP, EBP, ESI, EDI]) p"
| "exec1 POPA p =
     fold pop_reg [EBX, EDX, ECX, EAX] (snd (pop (fold pop_reg [EDI, ESI, EBP] p)))"
| "exec1 POPF p = (case pop p of (v, c, s) \<Rightarrow> (c\<lparr>eflags := v\<rparr>, s))"
| "exec1 (MOVI r v) (c, s) = (set_reg r v c, s)"
| "exec1 (MOV r r') (c, s) = (set_reg r (gpr c r') c, s)"
| "exec1 (LOAD r b off) (c, s) = (set_reg r (load32 (ram s) (gpr c b + off)) c, s)"
| "exec1 (STORE a v) (c, s) = (c, s\<lparr>ram := store32 (ram s) a v\<rparr>)"
| "exec1 (ADDI r v) (c, s) = (set_reg r (gpr c r + v) c, s)"
| "exec1 (MOV_AX v) (c, s) = (set_reg EAX (set_low16 (gpr c EAX) v) c, s)"
| "exec1 (MOV_AL v) (c, s) = (set_reg EAX (set_low8 (gpr c EAX) v) c, s)"
| "exec1 XOR_AL (c, s) = (set_reg EAX (set_low8 (gpr c EAX) 0) c, s)"
| "exec1 (MOV_DX v) (c, s) = (set_reg EDX (set_low16 (gpr c EDX) v) c, s)"
| "exec1 INC_DX (c, s) = (set_reg EDX (set_low16 (gpr c EDX) (ucast (gpr c EDX) + 1)) c, s)"
| "exec1 DEC_DX (c, s) = (set_reg EDX (set_low16 (gpr c EDX) (ucast (gpr c EDX) - 1)) c, s)"
| "exec1 OUT_DX_AL (c, s) = (c, outb (ucast (gpr c EDX)) (ucast (gpr c EAX)) s)"
| "exec1 (MOV_AX_SEG r) (c, s) = (set_reg EAX (set_low16 (gpr c EAX) (segm c r)) c, s)"
| "exec1 (MOV_SEG_AX r) (c, s) = (set_seg r (ucast (gpr c EAX)) c, s)"
| "exec1 (MOV_SEG_BX r) (c, s) = (set_seg r (ucast (gpr c EBX)) c, s)"
| "exec1 REP_STOSW (c, s) =
     (c\<lparr>gpr := (gpr c)(EDI := gpr c EDI + 2 * gpr c ECX, ECX := 0)\<rparr>,
      s\<lparr>ram := stosw_loop (unat (gpr c ECX)) (gpr c EDI) (ucast (gpr c EAX)) (ram s)\<rparr>)"
| "exec1 (LIDT r) (c, s) = (c, s\<lparr>events := events s @
     [Lidt (load16 (ram s) (gpr c r)) (load32 (ram s) (gpr c r + 2))]\<rparr>)"
| "exec1 (LGDT a) (c, s) = (c, s\<lparr>events := events s @
     [Lgdt (load16 (ram s) a) (load32 (ram s) (a + 2))]\<rparr>)"
| "exec1 (JMP_FAR v) (c, s) = (set_seg CS v c, s)"
| "exec1 CLI (c, s) = (c\<lparr>eflags := eflags c AND NOT IF_flag\<rparr>, s\<lparr>events := events s @ [Cli]\<rparr>)"
| "exec1 STI (c, s) = (c\<lparr>eflags := eflags c OR IF_flag\<rparr>, s\<lparr>events := events s @ [Sti]\<rparr>)"
| "exec1 IRET p =
     (case pop p of (v, p) \<Rightarrow> case pop p of (sel, p) \<Rightarrow> case pop p of (fl, c, s) \<Rightarrow>
        (c\<lparr>eip := v, segm := (segm c)(CS := ucast sel), eflags := fl\<rparr>, s))"

definition exec :: "insn list \<Rightarrow> 'a pm \<Rightarrow> 'a pm" where
  "exec is = fold exec1 is"

lemma exec_simps [simp]:
  "exec [] p = p"
  "exec (i # is) p = exec is (exec1 i p)"
  by (simp_all add: exec_def)

lemma exec_append: "exec (is @ js) p = exec js (exec is p)"
  by (simp add: exec_def)

text \<open>
  A call of a C function of one argument, as the compiler's calling convention has it: the
  return address is pushed, the function finds its argument above it, it may leave anything
  in the scratch registers (\<^verbatim>\<open>eax\<close>, \<^verbatim>\<open>ecx\<close>, \<^verbatim>\<open>edx\<close>, here the argument
  \<^term>\<open>scratch\<close>) and keeps the others. \<^verbatim>\<open>call_enter\<close> is the way into it,
  \<^verbatim>\<open>call_leave\<close> its return.
\<close>

definition call_enter :: "u32 \<Rightarrow> 'a pm \<Rightarrow> u32 \<times> 'a pm" where
  "call_enter ret p = (case push ret p of (c, s) \<Rightarrow> (load32 (ram s) (gpr c ESP + 4), (c, s)))"

definition call_leave :: "(reg \<Rightarrow> u32) \<Rightarrow> cpu \<Rightarrow> cpu" where
  "call_leave scratch c = set_reg ESP (gpr c ESP + 4)
     (c\<lparr>gpr := (\<lambda>r. if r \<in> {EAX, ECX, EDX} then scratch r else gpr c r)\<rparr>)"

subsection \<open>Lemmas\<close>

lemma all_reg: "(\<forall>r. P r) \<longleftrightarrow> P EAX \<and> P ECX \<and> P EDX \<and> P EBX \<and> P ESP \<and> P EBP \<and> P ESI \<and> P EDI"
  by (metis reg.exhaust)

lemma all_sreg: "(\<forall>r. P r) \<longleftrightarrow> P CS \<and> P DS \<and> P ES \<and> P FS \<and> P GS \<and> P SS"
  by (metis sreg.exhaust)

text \<open>Equality of processors, register by register.\<close>

lemma cpu_eqI:
  fixes c d :: cpu
  assumes "\<forall>r. gpr c r = gpr d r" and "\<forall>r. segm c r = segm d r" and "eflags c = eflags d" and "eip c = eip d"
  shows "c = d"
  using assms by (intro cpu.equality) auto

lemma ucast_set_low16 [simp]: "ucast (set_low16 a v) = v"
proof -
  have m: "(0xFFFF0000 :: u32) = NOT (mask 16)" by (simp add: mask_eq_exp_minus_1)
  show ?thesis unfolding set_low16_def m by (rule bit_word_eqI) (auto simp: bit_simps)
qed

lemma ucast_set_low8 [simp]: "ucast (set_low8 a v) = v"
proof -
  have m: "(0xFFFFFF00 :: u32) = NOT (mask 8)" by (simp add: mask_eq_exp_minus_1)
  show ?thesis unfolding set_low8_def m by (rule bit_word_eqI) (auto simp: bit_simps)
qed

lemma push_eq: "push v (c, s) =
    (set_reg ESP (gpr c ESP - 4) c, s\<lparr>ram := store32 (ram s) (gpr c ESP - 4) v\<rparr>)"
  by (simp add: push_def)

lemma pop_eq: "pop (c, s) = (load32 (ram s) (gpr c ESP), (set_reg ESP (gpr c ESP + 4) c, s))"
  by (simp add: pop_def)

lemma pop_reg_eq: "r \<noteq> ESP \<Longrightarrow> pop_reg r (c, s) =
    (c\<lparr>gpr := (gpr c)(ESP := gpr c ESP + 4, r := load32 (ram s) (gpr c ESP))\<rparr>, s)"
  by (simp add: pop_reg_def pop_def)

text \<open>Filling a run of words.\<close>

lemma stosw_loop_outside: "\<not> in_run a p (2 * n) \<Longrightarrow> 2 * n \<le> 2 ^ 32 \<Longrightarrow> stosw_loop n p v m a = m a"
proof (induction n arbitrary: p m)
  case (Suc n)
  have two: "\<not> in_run a p 2" using Suc.prems(1) by (simp add: in_run_def)
  have "\<not> in_run a (p + 2) (2 * n)"
  proof
    assume r: "in_run a (p + 2) (2 * n)"
    have "unat (a - p) = unat (a - (p + 2) + of_nat 2)" by (simp add: algebra_simps)
    also have "\<dots> = unat (a - (p + 2)) + 2"
      using r Suc.prems(2) by (subst unat_plus_nowrap) (simp_all add: in_run_def)
    finally show False using r Suc.prems(1) by (simp add: in_run_def)
  qed
  then show ?case using Suc.IH [of "p + 2" "store16 m p v"] Suc.prems(2) store16_outside [OF two] by simp
qed simp

end
