(* ===== verification/Stubs.thy ===== *)
theory Stubs
  imports Interrupts Cpu
begin

text \<open>
  The way of an interrupt through the machine: the processor goes through a gate of the
  descriptor table, the entry stub of \<^verbatim>\<open>kernel/isr.asm\<close> saves the registers and calls the
  handler of \<^verbatim>\<open>kernel/interrupts.cpp\<close>, and the stub restores the registers and returns to
  the interrupted code. The theorems say what comes back unchanged, and what the handler
  gets to see.
\<close>

subsection \<open>The stubs\<close>

definition isr0_entry :: "insn list" where "isr0_entry = [CLI, PUSHI 0, PUSHI 0]"
definition isr1_entry :: "insn list" where "isr1_entry = [CLI, PUSHI 0, PUSHI 1]"
definition irq0_entry :: "insn list" where "irq0_entry = [CLI, PUSHI 0, PUSHI 32]"
definition irq1_entry :: "insn list" where "irq1_entry = [CLI, PUSHI 0, PUSHI 33]"

text \<open>The two common stubs have the same text but for the function they call.\<close>

definition stub_save :: "insn list" where
  "stub_save = [PUSHA, MOV_AX_SEG DS, PUSH EAX,
     MOV_AX 0x10, MOV_SEG_AX DS, MOV_SEG_AX ES, MOV_SEG_AX FS, MOV_SEG_AX GS]"

definition stub_restore :: "insn list" where
  "stub_restore = [POP EAX, MOV_SEG_AX DS, MOV_SEG_AX ES, MOV_SEG_AX FS, MOV_SEG_AX GS,
     POPA, ADDI ESP 8, STI, IRET]"

definition irq_common_stub ::
  "(reg \<Rightarrow> u32) \<Rightarrow> u32 \<Rightarrow> cpu \<times> 'a interrupts_scheme \<Rightarrow> cpu \<times> 'a interrupts_scheme" where
  "irq_common_stub scratch ret p =
     (case call_enter ret (exec stub_save p) of (arg, c, s) \<Rightarrow>
        exec stub_restore (call_leave scratch c, irq_handler arg s))"

definition isr_common_stub ::
  "(reg \<Rightarrow> u32) \<Rightarrow> u32 \<Rightarrow> cpu \<times> 'a interrupts_scheme \<Rightarrow> fault + (cpu \<times> 'a interrupts_scheme) run" where
  "isr_common_stub scratch ret p =
     (case call_enter ret (exec stub_save p) of (arg, c, s) \<Rightarrow>
        rbind (isr_handler arg s) (\<lambda>r. case r of
            Running s \<Rightarrow> Inr (Running (exec stub_restore (call_leave scratch c, s)))
          | Halted s \<Rightarrow> Inr (Halted (c, s))))"

text \<open>\<^verbatim>\<open>idt_load\<close>: \<^verbatim>\<open>ret\<close> takes the return address from the stack.\<close>

definition idt_load_code :: "'a pm \<Rightarrow> 'a pm" where
  "idt_load_code p =
     (case pop (exec [PUSH EBP, MOV EBP ESP, LOAD EAX EBP 8, LIDT EAX, POP EBP] p) of
        (a, c, s) \<Rightarrow> (c\<lparr>eip := a\<rparr>, s))"

subsection \<open>The processor\<close>

text \<open>
  An interrupt gate of the same privilege: flags, code segment and instruction pointer go to
  the stack, interrupts and single steps are switched off.
\<close>

definition enter_gate :: "idt_entry \<Rightarrow> 'a pm \<Rightarrow> 'a pm" where
  "enter_gate g p =
     (case push (eip (fst p)) (push (ucast (segm (fst p) CS)) (push (eflags (fst p)) p)) of (c, s) \<Rightarrow>
        (c\<lparr>eflags := eflags c AND NOT 0x300, segm := (segm c)(CS := sel g), eip := gate_address g\<rparr>, s))"

text \<open>
  An interrupt of a vector, down to the return to the interrupted code. \<^const>\<open>None\<close>: the
  gate is absent, or leads to none of the stubs.
\<close>

definition interrupt :: "(reg \<Rightarrow> u32) \<Rightarrow> u32 \<Rightarrow> nat \<Rightarrow> cpu \<times> 'a interrupts_scheme \<Rightarrow>
    (fault + (cpu \<times> 'a interrupts_scheme) run) option" where
  "interrupt scratch ret vec p =
     (let s = snd p; g = idt s ! vec; a = gate_address g; p = enter_gate g p in
      if \<not> bit (flags g) 7 then None
      else if a = addr_isr0 (linked s) then Some (isr_common_stub scratch ret (exec isr0_entry p))
      else if a = addr_isr1 (linked s) then Some (isr_common_stub scratch ret (exec isr1_entry p))
      else if a = addr_irq0 (linked s) then Some (Inr (Running (irq_common_stub scratch ret (exec irq0_entry p))))
      else if a = addr_irq1 (linked s) then Some (Inr (Running (irq_common_stub scratch ret (exec irq1_entry p))))
      else None)"

subsection \<open>Words on the stack\<close>

fun push_words :: "u32 list \<Rightarrow> u32 \<Rightarrow> mem \<Rightarrow> mem" where
  "push_words [] sp m = m"
| "push_words (v # vs) sp m = push_words vs (sp - 4) (store32 m (sp - 4) v)"

lemma push_words_append:
  "push_words (vs @ ws) sp m = push_words ws (sp - 4 * of_nat (length vs)) (push_words vs sp m)"
  by (induction vs arbitrary: sp m) (simp_all add: algebra_simps)

text \<open>A run below the stack pointer: addresses by their distance from it.\<close>

definition below :: "u32 \<Rightarrow> u32 \<Rightarrow> nat \<Rightarrow> bool" where
  "below a sp n \<longleftrightarrow> a \<noteq> sp \<and> unat (sp - a) \<le> n"

lemma below_four: "\<not> below a sp 4 \<Longrightarrow> \<not> in_run a (sp - 4) 4"
proof (rule notI)
  assume nb: "\<not> below a sp 4" and "in_run a (sp - 4) 4"
  then have "unat (a - (sp - 4)) < 4" by (simp add: in_run_def)
  define d where "d = a - (sp - 4)"
  have a: "sp - a = 4 - d" by (simp add: d_def)
  have d: "unat d < 4" using \<open>unat (a - (sp - 4)) < 4\<close> by (simp add: d_def)
  then have "d < 4" by (simp add: word_less_nat_alt)
  then have "unat (4 - d) = 4 - unat d" by (simp add: unat_sub)
  then have "unat (sp - a) \<le> 4" "unat (sp - a) \<noteq> 0" using a d by auto
  with nb show False by (auto simp: below_def)
qed

lemma below_mono: "below a sp n \<Longrightarrow> n \<le> k \<Longrightarrow> below a sp k"
  by (simp add: below_def)

lemma below_down:
  assumes "below a (sp - 4) n" and "n + 4 < 2 ^ 32"
  shows "below a sp (n + 4)"
proof -
  have eq: "sp - a = (sp - 4 - a) + 4" by simp
  have "unat (sp - 4 - a) + unat (4 :: u32) < 2 ^ 32" using assms by (simp add: below_def)
  then have "unat (sp - a) = unat (sp - 4 - a) + 4" unfolding eq by (subst unat_plus_nowrap) simp_all
  then show ?thesis using assms by (auto simp: below_def)
qed

lemma push_words_outside:
  "\<not> below a sp (4 * length vs) \<Longrightarrow> 4 * length vs < 2 ^ 32 \<Longrightarrow> push_words vs sp m a = m a"
proof (induction vs arbitrary: sp m)
  case (Cons v vs)
  have "\<not> below a (sp - 4) (4 * length vs)"
    using Cons.prems below_down [of a sp "4 * length vs"] by (auto simp: add.commute)
  moreover have "store32 m (sp - 4) v a = m a"
    using Cons.prems below_mono [of a sp 4] by (intro store32_outside below_four) auto
  ultimately show ?case using Cons.IH Cons.prems(2) by simp
qed simp

lemma push_words_load:
  assumes "i < length vs" and "4 * length vs < 2 ^ 31"
  shows "load32 (push_words vs sp m) (sp - 4 * of_nat (Suc i)) = vs ! i"
  using assms
proof (induction vs arbitrary: sp m i)
  case (Cons v vs)
  show ?case
  proof (cases i)
    case 0
    have "push_words vs (sp - 4) (store32 m (sp - 4) v) (sp - 4 + of_nat j) = store32 m (sp - 4) v (sp - 4 + of_nat j)"
      if j: "j < 4" for j
    proof (rule push_words_outside)
      have "(of_nat j :: u32) \<noteq> 0 \<or> j = 0" using j unat_of_nat32 [of j] by auto
      then have "j = 0 \<or> unat (sp - 4 - (sp - 4 + of_nat j)) + j = 2 ^ 32"
        using j unat_minus_swap [of "sp - 4" "sp - 4 + of_nat j"] unat_offset [of j "sp - 4"] by auto
      then show "\<not> below (sp - 4 + of_nat j) (sp - 4) (4 * length vs)"
        using j Cons.prems(2) by (auto simp: below_def)
    qed (use Cons.prems(2) in simp)
    then have "bytes_at (push_words vs (sp - 4) (store32 m (sp - 4) v)) (sp - 4) 4
        = bytes_at (store32 m (sp - 4) v) (sp - 4) 4" by (intro bytes_at_cong) simp
    from load32_cong [OF this] show ?thesis using 0 by simp
  next
    case (Suc k)
    then show ?thesis using Cons.IH [of k "sp - 4" "store32 m (sp - 4) v"] Cons.prems
      by (simp add: algebra_simps)
  qed
qed simp

subsection \<open>In and out\<close>

text \<open>
  What lies on the stack when the handler is called, from the interrupted stack pointer down, for
  an error code and a vector.
\<close>

definition frame_words :: "u32 \<Rightarrow> u32 \<Rightarrow> cpu \<Rightarrow> u32 list" where
  "frame_words e n c = [eflags c, ucast (segm c CS), eip c, e, n, gpr c EAX, gpr c ECX, gpr c EDX,
     gpr c EBX, gpr c ESP - 20, gpr c EBP, gpr c ESI, gpr c EDI, set_low16 (gpr c EAX) (segm c DS)]"

abbreviation saved_words :: "u32 \<Rightarrow> cpu \<Rightarrow> u32 list" where
  "saved_words \<equiv> frame_words 0"

lemmas saved_words_def = frame_words_def

definition handler_cpu :: "idt_entry \<Rightarrow> cpu \<Rightarrow> cpu" where
  "handler_cpu g c = c\<lparr>
     gpr := (gpr c)(EAX := set_low16 (set_low16 (gpr c EAX) (segm c DS)) 0x10, ESP := gpr c ESP - 60),
     segm := (segm c)(CS := sel g, DS := 0x10, ES := 0x10, FS := 0x10, GS := 0x10),
     eflags := (eflags c AND NOT 0x300) AND NOT IF_flag, eip := gate_address g\<rparr>"

lemma code_stub_in:
  "call_enter ret (exec stub_save (exec [CLI, PUSHI n] (push e (enter_gate g (c, s))))) =
    (set_low16 (gpr c EAX) (segm c DS), handler_cpu g c,
     s\<lparr>ram := push_words (frame_words e n c @ [ret]) (gpr c ESP) (ram s), events := events s @ [Cli]\<rparr>)"
  by (simp add: call_enter_def stub_save_def enter_gate_def push_eq frame_words_def store32_apart)
    (rule cpu_eqI; simp add: handler_cpu_def all_reg all_sreg)

lemma dummy_code: "exec [CLI, PUSHI 0, PUSHI n] p = exec [CLI, PUSHI n] (push 0 p)"
  by (cases p) (simp add: push_eq)

lemma stub_in:
  "call_enter ret (exec stub_save (exec [CLI, PUSHI 0, PUSHI n] (enter_gate g (c, s)))) =
    (set_low16 (gpr c EAX) (segm c DS), handler_cpu g c,
     s\<lparr>ram := push_words (saved_words n c @ [ret]) (gpr c ESP) (ram s), events := events s @ [Cli]\<rparr>)"
  unfolding dummy_code by (rule code_stub_in)

text \<open>The data segments after the return: \<^verbatim>\<open>es\<close>, \<^verbatim>\<open>fs\<close> and \<^verbatim>\<open>gs\<close> get the value of \<^verbatim>\<open>ds\<close>.\<close>

definition returned_cpu :: "cpu \<Rightarrow> cpu" where
  "returned_cpu c = c\<lparr>segm := (segm c)(ES := segm c DS, FS := segm c DS, GS := segm c DS)\<rparr>"

lemma ucast_segment: "ucast (ucast v :: u32) = (v :: u16)"
  by (rule bit_word_eqI) (auto simp: bit_simps)

lemma stub_out:
  assumes "\<And>i. i < 14 \<Longrightarrow> load32 (ram s) (gpr c ESP - 4 * of_nat (Suc i)) = frame_words e n c ! i"
  shows "exec stub_restore (call_leave scratch (handler_cpu g c), s)
    = (returned_cpu c, s\<lparr>events := events s @ [Sti]\<rparr>)"
proof -
  let ?sp = "gpr c ESP" and ?l = "load32 (ram s)"
  have w: "?l (?sp - 4) = eflags c" "?l (?sp - 8) = ucast (segm c CS)" "?l (?sp - 12) = eip c"
    "?l (?sp - 24) = gpr c EAX" "?l (?sp - 28) = gpr c ECX" "?l (?sp - 32) = gpr c EDX"
    "?l (?sp - 36) = gpr c EBX" "?l (?sp - 44) = gpr c EBP" "?l (?sp - 48) = gpr c ESI"
    "?l (?sp - 52) = gpr c EDI" "?l (?sp - 56) = set_low16 (gpr c EAX) (segm c DS)"
    using assms [of 0] assms [of 1] assms [of 2] assms [of 5] assms [of 6] assms [of 7] assms [of 8]
      assms [of 10] assms [of 11] assms [of 12] assms [of 13]
    by (simp_all add: saved_words_def)
  show ?thesis
    by (simp add: stub_restore_def call_leave_def handler_cpu_def pop_eq pop_reg_eq w)
      (rule cpu_eqI; simp add: returned_cpu_def all_reg all_sreg ucast_segment)
qed

text \<open>The handler's argument, and the machine it starts in.\<close>

definition stub_argument :: "cpu \<Rightarrow> u32" where
  "stub_argument c = set_low16 (gpr c EAX) (segm c DS)"

definition code_start :: "u32 \<Rightarrow> u32 \<Rightarrow> u32 \<Rightarrow> cpu \<Rightarrow> 'a machine_scheme \<Rightarrow> 'a machine_scheme" where
  "code_start ret e n c s = s\<lparr>ram := push_words (frame_words e n c @ [ret]) (gpr c ESP) (ram s),
     events := events s @ [Cli]\<rparr>"

abbreviation handler_start :: "u32 \<Rightarrow> u32 \<Rightarrow> cpu \<Rightarrow> 'a machine_scheme \<Rightarrow> 'a machine_scheme" where
  "handler_start ret \<equiv> code_start ret 0"

lemmas handler_start_def = code_start_def

definition resume :: "'a machine_scheme \<Rightarrow> 'a machine_scheme" where
  "resume s = s\<lparr>events := events s @ [Sti]\<rparr>"

lemma length_saved_words [simp]: "length (frame_words e n c) = 14"
  by (simp add: saved_words_def)

lemma handler_start_ram:
  "\<not> below a (gpr c ESP) 60 \<Longrightarrow> ram (code_start ret e n c s) a = ram s a"
  by (simp add: handler_start_def push_words_outside)

lemma handler_start_word:
  "i < 14 \<Longrightarrow> load32 (ram (code_start ret e n c s)) (gpr c ESP - 4 * of_nat (Suc i)) = frame_words e n c ! i"
  using push_words_load [of i "frame_words e n c @ [ret]" "gpr c ESP" "ram s"]
  by (simp add: handler_start_def nth_append del: of_nat_Suc)

lemma handler_start_int_no:
  assumes "\<And>i. i < 4 \<Longrightarrow> \<not> below (regs + 36 + of_nat i) (gpr c ESP) 60"
  shows "int_no regs (handler_start ret n c s) = load32 (ram s) (regs + 36)"
  unfolding int_no_def by (intro load32_cong bytes_at_cong handler_start_ram assms)

lemma ram_irq_handler [simp]: "ram (irq_handler regs s) = ram s"
  by (auto simp: irq_handler_def outb_def timer_handler_def keyboard_handler_def inb_def buffer_put_def Let_def)

lemma irq_stub_eq:
  "irq_common_stub scratch ret (exec [CLI, PUSHI 0, PUSHI n] (enter_gate g (c, s)))
    = (returned_cpu c, resume (irq_handler (stub_argument c) (handler_start ret n c s)))"
proof -
  let ?s = "irq_handler (stub_argument c) (handler_start ret n c s)"
  have "load32 (ram ?s) (gpr c ESP - 4 * of_nat (Suc i)) = saved_words n c ! i" if "i < 14" for i
    using handler_start_word [OF that] by (simp del: of_nat_Suc)
  from stub_out [OF this] show ?thesis
    unfolding irq_common_stub_def stub_in by (simp add: stub_argument_def handler_start_def resume_def)
qed

lemma isr_stub_eq:
  "isr_common_stub scratch ret (exec [CLI, PUSHI 0, PUSHI n] (enter_gate g (c, s)))
    = rbind (isr_handler (stub_argument c) (handler_start ret n c s)) (\<lambda>r. case r of
        Running t \<Rightarrow> Inr (Running (returned_cpu c, resume t)) | Halted t \<Rightarrow> Inr (Halted (handler_cpu g c, t)))"
proof -
  let ?s = "handler_start ret n c s"
  have out: "exec stub_restore (call_leave scratch (handler_cpu g c), ?s) = (returned_cpu c, resume ?s)"
    unfolding resume_def by (rule stub_out [OF handler_start_word])
  have same: "t = ?s" if "isr_handler (stub_argument c) ?s = Inr (Running t)" for t
    using that by (auto simp: isr_handler_def rbind_Inr_iff split: if_splits)
  have "isr_common_stub scratch ret (exec [CLI, PUSHI 0, PUSHI n] (enter_gate g (c, s)))
    = rbind (isr_handler (stub_argument c) ?s) (\<lambda>r. case r of
        Running t \<Rightarrow> Inr (Running (exec stub_restore (call_leave scratch (handler_cpu g c), t)))
      | Halted t \<Rightarrow> Inr (Halted (handler_cpu g c, t)))"
    unfolding isr_common_stub_def stub_in by (simp add: stub_argument_def handler_start_def)
  also have "\<dots> = rbind (isr_handler (stub_argument c) ?s) (\<lambda>r. case r of
        Running t \<Rightarrow> Inr (Running (returned_cpu c, resume t)) | Halted t \<Rightarrow> Inr (Halted (handler_cpu g c, t)))"
    using same out by (intro rbind_cong) (auto split: run.splits)
  finally show ?thesis .
qed

subsection \<open>Properties\<close>

text \<open>The descriptor table as \<^const>\<open>interrupts_init\<close> leaves it, for stubs at different addresses.\<close>

definition gates_installed :: "'a interrupts_scheme \<Rightarrow> bool" where
  "gates_installed s \<longleftrightarrow> idt s = idt (interrupts_init s) \<and>
     distinct [addr_isr0 (linked s), addr_isr1 (linked s), addr_irq0 (linked s), addr_irq1 (linked s)]"

lemma installed_gate:
  assumes "gates_installed s"
  shows "idt s ! 0 = interrupt_gate (addr_isr0 (linked s))" "idt s ! 1 = interrupt_gate (addr_isr1 (linked s))"
    "idt s ! 32 = interrupt_gate (addr_irq0 (linked s))" "idt s ! 33 = interrupt_gate (addr_irq1 (linked s))"
  using assms by (simp_all add: gates_installed_def interrupts_init_idt)

lemma gate_present: "bit (flags (interrupt_gate a)) 7"
  by (simp add: interrupt_gate_def)

lemma interrupt_stub:
  assumes "gates_installed s" and "vec \<in> {0, 1, 32, 33}"
  shows "interrupt scratch ret vec (c, s) = Some (
    let p = exec [CLI, PUSHI 0, PUSHI (of_nat vec)] (enter_gate (idt s ! vec) (c, s)) in
    if vec < 32 then isr_common_stub scratch ret p else Inr (Running (irq_common_stub scratch ret p)))"
proof -
  note g = installed_gate [OF assms(1)]
  have d: "addr_isr1 (linked s) \<noteq> addr_isr0 (linked s)" "addr_irq0 (linked s) \<noteq> addr_isr0 (linked s)"
    "addr_irq0 (linked s) \<noteq> addr_isr1 (linked s)" "addr_irq1 (linked s) \<noteq> addr_isr0 (linked s)"
    "addr_irq1 (linked s) \<noteq> addr_isr1 (linked s)" "addr_irq1 (linked s) \<noteq> addr_irq0 (linked s)"
    using assms(1) by (auto simp: gates_installed_def)
  from assms(2) consider "vec = 0" | "vec = 1" | "vec = 32" | "vec = 33" by blast
  then show ?thesis
    by cases (simp_all add: interrupt_def g gate_present gate_address_interrupt_gate d Let_def
        isr0_entry_def isr1_entry_def irq0_entry_def irq1_entry_def del: One_nat_def)
qed

text \<open>
  \<^verbatim>\<open>idt_load\<close> loads the descriptor that its argument points to and returns to its caller,
  with every register but \<^verbatim>\<open>eax\<close> as before.
\<close>

lemma idt_load_code_eq:
  "idt_load_code (c, s) =
    (let p = load32 (ram s) (gpr c ESP + 4); s' = s\<lparr>ram := store32 (ram s) (gpr c ESP - 4) (gpr c EBP)\<rparr> in
     (c\<lparr>gpr := (gpr c)(ESP := gpr c ESP + 4, EAX := p), eip := load32 (ram s) (gpr c ESP)\<rparr>,
      idt_load (load16 (ram s') p) (load32 (ram s') (p + 2)) s'))"
  by (simp add: idt_load_code_def push_eq pop_eq pop_reg_eq Let_def store32_apart idt_load_def)
    (intro conjI; (rule cpu_eqI)?; simp add: all_reg add.commute)

text \<open>
  C8. A timer or keyboard interrupt comes back: through the installed gates the stub saves the
  registers, calls \<^verbatim>\<open>irq_handler\<close> once and returns to the interrupted instruction with all
  general registers, the stack pointer, the flags, \<^verbatim>\<open>cs\<close>, \<^verbatim>\<open>ds\<close> and \<^verbatim>\<open>ss\<close> as
  they were (\<^verbatim>\<open>es\<close>, \<^verbatim>\<open>fs\<close> and \<^verbatim>\<open>gs\<close> get the value of \<^verbatim>\<open>ds\<close>), and no memory
  but the 60 bytes below the stack pointer has changed, whatever the handler leaves in the
  scratch registers.
\<close>

theorem interrupt_returns:
  assumes "gates_installed s" and "vec \<in> {32, 33}"
  shows "\<exists>m. interrupt scratch ret vec (c, s) = Some (Inr (Running (returned_cpu c,
        resume (irq_handler (stub_argument c) (s\<lparr>ram := m, events := events s @ [Cli]\<rparr>))))) \<and>
      (\<forall>a. \<not> below a (gpr c ESP) 60 \<longrightarrow> m a = ram s a) \<and>
      load32 m (gpr c ESP - 20) = of_nat vec"
proof -
  let ?m = "ram (handler_start ret (of_nat vec) c s)"
  have "interrupt scratch ret vec (c, s) = Some (Inr (Running (returned_cpu c,
      resume (irq_handler (stub_argument c) (s\<lparr>ram := ?m, events := events s @ [Cli]\<rparr>)))))"
    using interrupt_stub [OF assms(1), of vec] assms(2)
    by (auto simp: irq_stub_eq Let_def handler_start_def simp del: exec_simps)
  moreover have "load32 ?m (gpr c ESP - 20) = of_nat vec"
    using handler_start_word [of 4 ret 0 "of_nat vec" c s] by (simp add: saved_words_def)
  ultimately show ?thesis
    using handler_start_ram [of _ c ret 0 "of_nat vec" s] by (intro exI [of _ ?m]) blast
qed

text \<open>A processor in kernel code, and a machine with the gates installed.\<close>

definition kernel_cpu :: cpu where
  "kernel_cpu = \<lparr>gpr = (\<lambda>r. if r = ESP then 0x200000 else 7),
     segm = (\<lambda>r. if r = CS then 8 else 16), eflags = 0x202, eip = 0x101000\<rparr>"

definition gated :: "mem \<Rightarrow> interrupts" where
  "gated m = (interrupts_init blank_interrupts)\<lparr>ram := m\<rparr>"

lemma linked_interrupts_init [simp]: "linked (interrupts_init s) = linked s"
  by (simp add: interrupts_init_def pic_init_def outb_def idt_load_def idt_set_gate_def Let_def)

lemma terminal_interrupts_init [simp]:
  "terminal_row (interrupts_init s) = terminal_row s" "terminal_column (interrupts_init s) = terminal_column s"
  by (simp_all add: interrupts_init_def pic_init_def outb_def idt_load_def idt_set_gate_def Let_def)

lemma gated_simps [simp]: "ram (gated m) = m" "term_ok (gated m)"
  using blank_interrupts_simps(1) by (simp_all add: gated_def term_ok_def)

lemma gated_installed: "gates_installed (gated m)"
proof -
  have "distinct [addr_isr0 (linked blank_interrupts), addr_isr1 (linked blank_interrupts),
    addr_irq0 (linked blank_interrupts), addr_irq1 (linked blank_interrupts)]"
    by (simp add: blank_interrupts_def filesystem.defs)
  then show ?thesis by (simp add: gates_installed_def gated_def interrupts_init_idt)
qed

theorem interrupt_returns_witness:
  "\<exists>t. interrupt (\<lambda>_. 0) 0x104000 33 (kernel_cpu, gated (\<lambda>_. 0)) = Some (Inr (Running (kernel_cpu, t)))"
proof -
  have "returned_cpu kernel_cpu = kernel_cpu"
    by (rule cpu_eqI; simp add: kernel_cpu_def returned_cpu_def all_sreg)
  with interrupt_returns [OF gated_installed [of "\<lambda>_. 0"], where vec = 33 and c = kernel_cpu and ret = "0x104000"
      and scratch = "\<lambda>_. 0"] show ?thesis by auto
qed

text \<open>
  C28. What an exception through the stubs does: the handler does not see the vector but the word
  36 bytes after the address made of the data segment and the upper half of \<^verbatim>\<open>eax\<close>. If
  that is 32 or more, there is no panic and the stub returns to the faulting instruction;
  otherwise the panic reports this word for the vector.
\<close>

theorem exception_misread:
  fixes s :: "'a interrupts_scheme" and ret :: u32
  assumes "gates_installed s" and "vec \<in> {0, 1}"
    and "term_ok s" and "\<forall>i < 4. \<not> below (stub_argument c + 36 + of_nat i) (gpr c ESP) 60"
  defines "n \<equiv> load32 (ram s) (stub_argument c + 36)" and "h \<equiv> handler_start ret (of_nat vec) c s"
  shows "if 32 \<le> n
    then interrupt scratch ret vec (c, s) = Some (Inr (Running (returned_cpu c, resume h)))
    else \<exists>c' t. interrupt scratch ret vec (c, s) = Some (Inr (Halted (c', t))) \<and>
      view t = fold (scr_write 4) (panic_text (decimal (uint n))) (view h)"
proof -
  have n: "int_no (stub_argument c) h = n"
    unfolding h_def n_def using assms(4) by (intro handler_start_int_no) auto
  have stub: "interrupt scratch ret vec (c, s) = Some (
      rbind (isr_handler (stub_argument c) h) (\<lambda>r. case r of
        Running t \<Rightarrow> Inr (Running (returned_cpu c, resume t))
      | Halted t \<Rightarrow> Inr (Halted (handler_cpu (idt s ! vec) c, t))))"
    using interrupt_stub [OF assms(1), of vec] assms(2)
    by (auto simp: isr_stub_eq Let_def h_def simp del: exec_simps)
  show ?thesis
  proof (cases "32 \<le> n")
    case True
    then have "\<not> int_no (stub_argument c) h < 32" using n by (simp add: linorder_not_less)
    then have "isr_handler (stub_argument c) h = Inr (Running h)" by (simp add: isr_handler_def)
    then show ?thesis using True stub by simp
  next
    case False
    have "term_ok h" using assms(3) by (simp add: h_def handler_start_def term_ok_def)
    moreover have "int_no (stub_argument c) h < 32" using False n by (simp add: linorder_not_le)
    ultimately obtain t where "isr_handler (stub_argument c) h = Inr (Halted t)"
      "view t = fold (scr_write 4) (panic_text (decimal (uint n))) (view h)"
      unfolding n [symmetric] using exception_panics by blast
    then show ?thesis using False stub by simp
  qed
qed

theorem exception_misread_witness:
  "interrupt (\<lambda>_. 0) 0x104000 0 (kernel_cpu, gated (store32 (\<lambda>_. 0) 0x34 99))
    = Some (Inr (Running (returned_cpu kernel_cpu,
        resume (handler_start 0x104000 0 kernel_cpu (gated (store32 (\<lambda>_. 0) 0x34 99))))))"
proof -
  let ?s = "gated (store32 (\<lambda>_. 0) 0x34 99)"
  have a: "stub_argument kernel_cpu = 0x10" by (simp add: stub_argument_def kernel_cpu_def set_low16_def)
  have "\<not> below (0x10 + 36 + of_nat i) (0x200000) 60" if "i < 4" for i
  proof -
    from that consider "i = 0" | "i = 1" | "i = 2" | "i = 3" by linarith
    then show ?thesis by cases (simp_all add: below_def)
  qed
  then have "\<forall>i < 4. \<not> below (stub_argument kernel_cpu + 36 + of_nat i) (gpr kernel_cpu ESP) 60"
    unfolding a by (simp add: kernel_cpu_def)
  from exception_misread [OF gated_installed _ gated_simps(2) this, of 0 "store32 (\<lambda>_. 0) 0x34 99" "\<lambda>_. 0" "0x104000"]
  show ?thesis by (simp add: a)
qed

end
