(* ===== verification/Boot.thy ===== *)
theory Boot
  imports Stubs
begin

text \<open>
  The entry of the kernel, \<^verbatim>\<open>boot/boot.asm\<close>: the multiboot header, the segment
  descriptor table, and \<^verbatim>\<open>_start\<close> up to the call of \<^verbatim>\<open>kernel_main\<close>. The addresses that
  the linker chooses are arguments.
\<close>

subsection \<open>The data of the file\<close>

definition MBALIGN :: u32 where "MBALIGN = push_bit 0 1"
definition MEMINFO :: u32 where "MEMINFO = push_bit 1 1"
definition VIDINFO :: u32 where "VIDINFO = push_bit 2 1"
definition FLAGS :: u32 where "FLAGS = MBALIGN OR MEMINFO OR VIDINFO"
definition MAGIC :: u32 where "MAGIC = 0x1BADB002"
definition CHECKSUM :: u32 where "CHECKSUM = - (MAGIC + FLAGS)"

definition multiboot_header :: "u32 list" where
  "multiboot_header = [MAGIC, FLAGS, CHECKSUM, 0, 0, 0, 0, 0, 0, 80, 25, 0]"

definition KERNEL_CODE_SEG :: u16 where "KERNEL_CODE_SEG = 0x08"
definition KERNEL_DATA_SEG :: u16 where "KERNEL_DATA_SEG = 0x10"

definition dw :: "u16 \<Rightarrow> u8 list" where "dw v = [ucast v, ucast (drop_bit 8 v)]"
definition dd :: "u32 \<Rightarrow> u8 list" where
  "dd v = [ucast v, ucast (drop_bit 8 v), ucast (drop_bit 16 v), ucast (drop_bit 24 v)]"

text \<open>The null descriptor, the code and the data segment.\<close>

definition gdt :: "u8 list" where
  "gdt = replicate 8 0
     @ dw 0xFFFF @ dw 0 @ [0, 0b10011010, 0b11001111, 0]
     @ dw 0xFFFF @ dw 0 @ [0, 0b10010010, 0b11001111, 0]"

definition gdt_descriptor :: "u32 \<Rightarrow> u8 list" where
  "gdt_descriptor addr = dw (of_nat (length gdt - 1)) @ dd addr"

subsection \<open>The code\<close>

record boot_link =
  stack_top :: u32
  addr_gdt :: u32
  addr_gdt_descriptor :: u32
  ret_init :: u32
  ret_kernel_main :: u32

definition start_setup :: "boot_link \<Rightarrow> insn list" where
  "start_setup l = [MOVI ESP (stack_top l), PUSHI 0, POPF, CLI, LGDT (addr_gdt_descriptor l),
     JMP_FAR KERNEL_CODE_SEG, MOV_AX KERNEL_DATA_SEG, MOV_SEG_AX DS, MOV_SEG_AX ES,
     MOV_SEG_AX FS, MOV_SEG_AX GS, MOV_SEG_AX SS]"

definition start_screen :: "insn list" where
  "start_screen = [MOVI EDI 0xB8000, MOVI ECX 2000, MOV_AX 0x0720, REP_STOSW]"

definition start_cursor :: "insn list" where
  "start_cursor = [MOV_DX 0x3D4, MOV_AL 0x0F, OUT_DX_AL, INC_DX, XOR_AL, OUT_DX_AL,
     DEC_DX, MOV_AL 0x0E, OUT_DX_AL, INC_DX, XOR_AL, OUT_DX_AL]"

text \<open>\<^verbatim>\<open>_init\<close> is a single \<^verbatim>\<open>ret\<close>.\<close>

definition call_init :: "boot_link \<Rightarrow> 'a pm \<Rightarrow> 'a pm" where
  "call_init l p = snd (pop (push (ret_init l) p))"

definition no_multiboot :: "insn list" where
  "no_multiboot = [STORE 0xB8000 0x4F524F45, STORE 0xB8004 0x4F3A4F52, STORE 0xB8008 0x4F4F4F20,
     STORE 0xB800C 0x4F424F4D, CLI]"

text \<open>
  \<^const>\<open>Running\<close>: the state on entry to \<^verbatim>\<open>kernel_main\<close>; \<^const>\<open>Halted\<close>: the
  first \<^verbatim>\<open>hlt\<close> of the error branch.
\<close>

definition start :: "boot_link \<Rightarrow> cpu \<times> 'a machine_scheme \<Rightarrow> (cpu \<times> 'a machine_scheme) run" where
  "start l p =
     (if gpr (fst p) EAX \<noteq> 0x2BADB002
      then (case exec no_multiboot p of (c, s) \<Rightarrow> Halted (c, s\<lparr>events := events s @ [Hlt]\<rparr>))
      else
        let p = exec (start_setup l) p;
            p = exec start_screen p;
            p = exec start_cursor p;
            p = call_init l p
        in Running (push (ret_kernel_main l) (exec [PUSH EBX] p)))"

subsection \<open>Segments\<close>

text \<open>
  How the processor reads a descriptor (the eight bytes that a selector picks): base, limit in
  bytes, and the access byte.
\<close>

definition descriptor :: "u8 list \<Rightarrow> u16 \<Rightarrow> u8 list" where
  "descriptor table selector = take 8 (drop (unat (selector AND 0xFFF8)) table)"

definition desc_base :: "u8 list \<Rightarrow> u32" where
  "desc_base d = ucast (d ! 2) OR push_bit 8 (ucast (d ! 3)) OR push_bit 16 (ucast (d ! 4))
     OR push_bit 24 (ucast (d ! 7))"

definition desc_limit :: "u8 list \<Rightarrow> u32" where
  "desc_limit d = (let n = ucast (d ! 0) OR push_bit 8 (ucast (d ! 1)) OR push_bit 16 (ucast (d ! 6 AND 0xF))
     in if bit (d ! 6) 7 then push_bit 12 n OR 0xFFF else n)"

text \<open>Present, ring 0, code or data, executable, readable or writable.\<close>

definition flat :: "bool \<Rightarrow> u8 list \<Rightarrow> bool" where
  "flat code d \<longleftrightarrow> desc_base d = 0 \<and> desc_limit d = 0xFFFFFFFF \<and> bit (d ! 6) 6 \<and>
     bit (d ! 5) 7 \<and> (d ! 5) AND 0x60 = 0 \<and> bit (d ! 5) 4 \<and> bit (d ! 5) 3 = code \<and> bit (d ! 5) 1"

lemma gdt_descriptors:
  "descriptor gdt KERNEL_CODE_SEG = [0xFF, 0xFF, 0, 0, 0, 0x9A, 0xCF, 0]"
  "descriptor gdt KERNEL_DATA_SEG = [0xFF, 0xFF, 0, 0, 0, 0x92, 0xCF, 0]"
  by (simp_all add: descriptor_def gdt_def KERNEL_CODE_SEG_def KERNEL_DATA_SEG_def dw_def)

lemma gdt_flat: "flat True (descriptor gdt KERNEL_CODE_SEG)" "flat False (descriptor gdt KERNEL_DATA_SEG)"
  unfolding gdt_descriptors by (simp_all add: flat_def desc_base_def desc_limit_def)

subsection \<open>Filling the screen\<close>

lemma store16_cells:
  assumes "\<not> in_run a p 2" and "\<not> in_run (a + 1) p 2"
  shows "load16 (store16 m p v) a = load16 m a"
  using assms by (intro load16_cong store16_outside)

lemma stosw_loop_cell:
  assumes "i < n" and "2 * n < 2 ^ 31"
  shows "load16 (stosw_loop n p v m) (p + 2 * of_nat i) = v"
  using assms
proof (induction n arbitrary: p m i)
  case (Suc n)
  show ?case
  proof (cases i)
    case 0
    have out: "stosw_loop n (p + 2) v (store16 m p v) (p + of_nat j) = store16 m p v (p + of_nat j)" if "j < 2" for j
    proof (rule stosw_loop_outside)
      have "unat (p + of_nat j - (p + 2)) + unat (p + 2 - (p + of_nat j)) = 2 ^ 32"
        using that by (intro unat_minus_swap) (auto simp: less_2_cases_iff)
      moreover have "unat (p + 2 - (p + of_nat j)) \<le> 2" using that by (auto simp: less_2_cases_iff)
      ultimately show "\<not> in_run (p + of_nat j) (p + 2) (2 * n)" using Suc.prems(2) by (simp add: in_run_def)
    qed (use Suc.prems(2) in simp)
    from out [of 0] out [of 1] show ?thesis
      using load16_cong [of "stosw_loop n (p + 2) v (store16 m p v)" p "store16 m p v"] 0 by simp
  next
    case (Suc k)
    then show ?thesis
      using Suc.IH [of k "p + 2" "store16 m p v"] Suc.prems by (simp add: algebra_simps)
  qed
qed simp

subsection \<open>From the boot loader to the kernel\<close>

lemma load_descriptor:
  assumes "bytes_at m p 6 = dw v @ dd w"
  shows "load16 m p = v" and "load32 m (p + 2) = w"
proof -
  have b: "m p = ucast v" "m (p + 1) = ucast (drop_bit 8 v)" "m (p + 2) = ucast w"
    "m (p + 2 + 1) = ucast (drop_bit 8 w)" "m (p + 2 + 2) = ucast (drop_bit 16 w)"
    "m (p + 2 + 3) = ucast (drop_bit 24 w)"
    using assms by (simp_all add: bytes_at_def dw_def dd_def numeral_eq_Suc add.assoc)
  show "load16 m p = v" unfolding load16_def b by (rule join16)
  show "load32 m (p + 2) = w" unfolding load32_def b by (rule join32)
qed

text \<open>The memory on entry to \<^verbatim>\<open>kernel_main\<close>.\<close>

definition started_ram :: "boot_link \<Rightarrow> u32 \<Rightarrow> mem \<Rightarrow> mem" where
  "started_ram l ebx m =
     push_words [ebx, ret_kernel_main l] (stack_top l) (push_words [ret_init l] (stack_top l)
       (stosw_loop 2000 0xB8000 0x720 (push_words [0] (stack_top l) m)))"

lemma push_outside:
  "\<not> below a sp 4 \<Longrightarrow> push_words [v] sp m a = m a"
  "\<not> below a sp 8 \<Longrightarrow> push_words [v, w] sp m a = m a"
  using push_words_outside [of a sp "[v]" m] push_words_outside [of a sp "[v, w]" m] by simp_all

lemma started_ram_outside:
  assumes "\<not> below a (stack_top l) 8"
  shows "started_ram l ebx m a = stosw_loop 2000 0xB8000 0x720 (push_words [0] (stack_top l) m) a"
proof -
  have "\<not> below a (stack_top l) 4" using assms by (auto simp: below_def)
  with assms show ?thesis by (simp add: started_ram_def push_outside del: push_words.simps)
qed

lemma start_running:
  assumes "gpr c EAX = 0x2BADB002"
    and image: "bytes_at (ram s) (addr_gdt_descriptor l) 6 = gdt_descriptor (addr_gdt l)"
      "\<forall>i < 6. \<not> below (addr_gdt_descriptor l + of_nat i) (stack_top l) 8"
  obtains c' where "start l (c, s) = Running (c', s\<lparr>ram := started_ram l (gpr c EBX) (ram s),
       events := events s @ [Cli, Lgdt 23 (addr_gdt l), Out 0x3D4 0x0F, Out 0x3D5 0, Out 0x3D4 0x0E, Out 0x3D5 0]\<rparr>)"
    "gpr c' ESP = stack_top l - 8" "eflags c' = 0" "\<forall>r. segm c' r = (if r = CS then 8 else 16)"
proof -
  let ?m1 = "store32 (ram s) (stack_top l - 4) 0"
  have "bytes_at (push_words [0] (stack_top l) (ram s)) (addr_gdt_descriptor l) 6 = bytes_at (ram s) (addr_gdt_descriptor l) 6"
    using image(2) below_mono [of _ "stack_top l" 4 8] by (intro bytes_at_cong push_words_outside) auto
  then have d: "bytes_at ?m1 (addr_gdt_descriptor l) 6 = dw 23 @ dd (addr_gdt l)"
    using image(1) by (simp add: gdt_descriptor_def gdt_def dw_def)
  note ld = load_descriptor [OF d]
  define c' where "c' = fst (case start l (c, s) of Running p \<Rightarrow> p | Halted p \<Rightarrow> p)"
  show ?thesis
    by (rule that [of c'])
      (simp_all add: c'_def start_def assms(1) start_setup_def start_screen_def start_cursor_def call_init_def
        push_eq pop_eq Let_def started_ram_def ld outb_def KERNEL_CODE_SEG_def KERNEL_DATA_SEG_def all_sreg
        IF_flag_def)
qed

subsection \<open>Properties\<close>

text \<open>
  C30. From a multiboot loader, with the descriptor table of the file in memory, \<^verbatim>\<open>_start\<close>
  enters \<^verbatim>\<open>kernel_main\<close> with interrupts off, every segment register on a flat 4 GiB segment
  of the table (\<^verbatim>\<open>cs\<close> on code, the others on data), the multiboot pointer as argument on
  the stack, a blank screen and the hardware cursor at its start; nothing else has changed but
  eight bytes below the top of the stack.
\<close>

theorem start_enters_kernel:
  fixes s :: "'a machine_scheme"
  assumes "gpr c EAX = 0x2BADB002"
    and "bytes_at (ram s) (addr_gdt_descriptor l) 6 = gdt_descriptor (addr_gdt l)"
    and "\<forall>i < 6. \<not> below (addr_gdt_descriptor l + of_nat i) (stack_top l) 8"
    and "\<forall>a. below a (stack_top l) 8 \<longrightarrow> \<not> in_run a 0xB8000 4000"
  shows "\<exists>c' m es. start l (c, s) = Running (c', s\<lparr>ram := m, events := events s @ es\<rparr>) \<and>
    eflags c' = 0 \<and> (\<forall>r. flat (r = CS) (descriptor gdt (segm c' r))) \<and>
    load32 m (gpr c' ESP + 4) = gpr c EBX \<and>
    (\<forall>i < 2000. load16 m (0xB8000 + 2 * of_nat i) = 0x720) \<and>
    (\<forall>a. \<not> below a (stack_top l) 8 \<and> \<not> in_run a 0xB8000 4000 \<longrightarrow> m a = ram s a) \<and>
    Lgdt (of_nat (length gdt) - 1) (addr_gdt l) \<in> set es \<and> hardware_cursor (events s @ es) = 0"
proof -
  let ?es = "[Cli, Lgdt 23 (addr_gdt l), Out 0x3D4 0x0F, Out 0x3D5 0, Out 0x3D4 0x0E, Out 0x3D5 0]"
  let ?m = "started_ram l (gpr c EBX) (ram s)" and ?st = "stack_top l"
  obtain c' where c': "start l (c, s) = Running (c', s\<lparr>ram := ?m, events := events s @ ?es\<rparr>)"
    "gpr c' ESP = ?st - 8" "eflags c' = 0" "\<forall>r. segm c' r = (if r = CS then 8 else 16)"
    by (rule start_running [OF assms(1-3)])
  have seg: "\<forall>r. flat (r = CS) (descriptor gdt (segm c' r))"
    using c'(4) gdt_flat by (simp add: KERNEL_CODE_SEG_def KERNEL_DATA_SEG_def)
  have arg: "load32 ?m (gpr c' ESP + 4) = gpr c EBX"
    by (simp add: c'(2) started_ram_def store32_apart)
  have cells: "load16 ?m (0xB8000 + 2 * of_nat i) = 0x720" if i: "i < 2000" for i
  proof -
    have run: "in_run (0xB8000 + 2 * of_nat i + of_nat j) 0xB8000 4000" if "j < 2" for j
    proof -
      have "0xB8000 + 2 * of_nat i + of_nat j = (0xB8000 :: u32) + of_nat (2 * i + j)" by simp
      moreover have "unat (0xB8000 + of_nat (2 * i + j) - 0xB8000 :: u32) = 2 * i + j"
        using i that by (intro unat_offset) simp
      ultimately show ?thesis using i that by (simp add: in_run_def)
    qed
    have "load16 ?m (0xB8000 + 2 * of_nat i)
        = load16 (stosw_loop 2000 0xB8000 0x720 (push_words [0] ?st (ram s))) (0xB8000 + 2 * of_nat i)"
      using run [of 0] run [of 1] assms(4) by (intro load16_cong started_ram_outside) auto
    then show ?thesis using i by (simp add: stosw_loop_cell)
  qed
  have other: "?m a = ram s a" if a: "\<not> below a ?st 8" "\<not> in_run a 0xB8000 4000" for a
  proof -
    have "\<not> below a ?st 4" using a(1) by (auto simp: below_def)
    with a show ?thesis
      by (simp add: started_ram_outside stosw_loop_outside push_outside del: push_words.simps)
  qed
  have "hardware_cursor (events s @ ?es) = 0"
    by (cases "fold crt_step (events s) (0, 0, 0)") (simp add: hardware_cursor_def)
  then show ?thesis
    using c'(1,3) seg arg cells other by (intro exI [of _ c'] exI [of _ ?m] exI [of _ ?es]) (simp add: gdt_def dw_def)
qed

text \<open>A loaded image, with its stack at 3 MiB.\<close>

definition boot_layout :: boot_link where
  "boot_layout = \<lparr>stack_top = 0x300000, addr_gdt = 0x104000, addr_gdt_descriptor = 0x104018,
     ret_init = 0x101100, ret_kernel_main = 0x101106\<rparr>"

definition loaded_image :: machine where
  "loaded_image = \<lparr>ram = write_bytes (\<lambda>_. 0) 0x104018 (gdt_descriptor 0x104000), events = [], device = \<lambda>_ _. 0\<rparr>"

definition loader_cpu :: cpu where
  "loader_cpu = \<lparr>gpr = (\<lambda>r. if r = EAX then 0x2BADB002 else 0x9000), segm = (\<lambda>_. 0x18), eflags = 2, eip = 0x101000\<rparr>"

lemma loaded_image_ok:
  "gpr loader_cpu EAX = 0x2BADB002"
  "bytes_at (ram loaded_image) (addr_gdt_descriptor boot_layout) 6 = gdt_descriptor (addr_gdt boot_layout)"
  "\<forall>i < 6. \<not> below (addr_gdt_descriptor boot_layout + of_nat i) (stack_top boot_layout) 8"
  "\<forall>a. below a (stack_top boot_layout) 8 \<longrightarrow> \<not> in_run a 0xB8000 4000"
proof -
  show "gpr loader_cpu EAX = 0x2BADB002" by (simp add: loader_cpu_def)
  have "length (gdt_descriptor 0x104000) = 6" by (simp add: gdt_descriptor_def dw_def dd_def)
  then show "bytes_at (ram loaded_image) (addr_gdt_descriptor boot_layout) 6 = gdt_descriptor (addr_gdt boot_layout)"
    using bytes_at_write_same [of "gdt_descriptor 0x104000" "\<lambda>_. 0" "0x104018"]
    by (simp add: loaded_image_def boot_layout_def)
  show "\<forall>i < 6. \<not> below (addr_gdt_descriptor boot_layout + of_nat i) (stack_top boot_layout) 8"
  proof (intro allI impI)
    fix i :: nat assume "i < 6"
    then consider "i = 0" | "i = 1" | "i = 2" | "i = 3" | "i = 4" | "i = 5" by linarith
    then show "\<not> below (addr_gdt_descriptor boot_layout + of_nat i) (stack_top boot_layout) 8"
      by cases (simp_all add: boot_layout_def below_def)
  qed
  show "\<forall>a. below a (stack_top boot_layout) 8 \<longrightarrow> \<not> in_run a 0xB8000 4000"
  proof (intro allI impI)
    fix a assume "below a (stack_top boot_layout) 8"
    then have d: "unat (0x300000 - a) \<le> 8" by (simp add: below_def boot_layout_def)
    then have "0x300000 - a \<le> 0x248000" by (simp add: word_le_nat_alt)
    then have "unat (0x248000 - (0x300000 - a)) = unat (0x248000 :: u32) - unat (0x300000 - a)" by (rule unat_sub)
    moreover have "0x248000 - (0x300000 - a) = a - 0xB8000" by simp
    ultimately show "\<not> in_run a 0xB8000 4000" using d by (simp add: in_run_def)
  qed
qed

theorem start_enters_kernel_witness:
  "\<exists>c' s'. start boot_layout (loader_cpu, loaded_image) = Running (c', s') \<and> load16 (ram s') 0xB8000 = 0x720"
  using start_enters_kernel [OF loaded_image_ok] by fastforce

text \<open>
  C31. Without the multiboot magic number, \<^verbatim>\<open>_start\<close> prints and halts with interrupts off
  without touching anything but 16 bytes of the screen: they read \<^verbatim>\<open>ERR: OMB\<close>, white on
  red, not the \<^verbatim>\<open>ERR: No Multiboot\<close> that the comment promises.
\<close>

theorem start_refuses:
  assumes "gpr c EAX \<noteq> 0x2BADB002"
  shows "\<exists>c' m. start l (c, s) = Halted (c', s\<lparr>ram := m, events := events s @ [Cli, Hlt]\<rparr>) \<and>
    bytes_at m 0xB8000 16 = concat (map (\<lambda>ch. [ch, 0x4F]) (chars ''ERR: OMB'')) \<and>
    (\<forall>a. \<not> in_run a 0xB8000 16 \<longrightarrow> m a = ram s a)"
proof -
  let ?m = "store32 (store32 (store32 (store32 (ram s) 0xB8000 0x4F524F45) 0xB8004 0x4F3A4F52)
    0xB8008 0x4F4F4F20) 0xB800C 0x4F424F4D"
  have "\<exists>c'. start l (c, s) = Halted (c', s\<lparr>ram := ?m, events := events s @ [Cli, Hlt]\<rparr>)"
    using assms by (simp add: start_def no_multiboot_def)
  moreover have "bytes_at ?m 0xB8000 16 = concat (map (\<lambda>ch. [ch, 0x4F]) (chars ''ERR: OMB''))"
    by (simp add: bytes_at_def store32_def upt_rec)
  moreover have "?m a = ram s a" if "\<not> in_run a 0xB8000 16" for a
    using that by (auto simp: store32_def in_run_def)
  ultimately show ?thesis by blast
qed

theorem start_refuses_witness:
  "\<exists>c' m. start boot_layout (set_reg EAX 0 loader_cpu, loaded_image) = Halted (c', loaded_image\<lparr>ram := m, events := [Cli, Hlt]\<rparr>)"
  using start_refuses [of "set_reg EAX 0 loader_cpu" boot_layout loaded_image] by (auto simp: loaded_image_def)

end
