(* ===== verification/System.thy ===== *)
theory System
  imports Kernel Boot
begin

text \<open>
  The whole machine: from the boot loader through \<^verbatim>\<open>_start\<close> and \<^verbatim>\<open>kernel_main\<close> to the
  main loop, and then interrupts as they come, through the gates and stubs to the handlers; and the
  image of the kernel, which the heap is laid over.
\<close>

subsection \<open>Power on\<close>

text \<open>The initialiser of \<^verbatim>\<open>kernel_state\<close> in the loaded image.\<close>

definition initial_kernel_state :: "'a terminal_scheme \<Rightarrow> 'a terminal_scheme" where
  "initial_kernel_state s = s\<lparr>terminal_row := 0, terminal_column := 0, terminal_color := 0,
     terminal_buffer := 0, is_initialized := False, total_memory := 0, free_memory := 0\<rparr>"

lemma load32_halves:
  "load32 m p = ucast (load16 m p) OR push_bit 16 (ucast (load16 m (p + 2)))"
proof (rule bit_word_eqI)
  fix n assume "n < LENGTH(32)"
  then consider "n < 8" | "8 \<le> n" "n < 16" | "16 \<le> n" "n < 24" | "24 \<le> n" "n < 32"
    by fastforce
  then show "bit (load32 m p) n = bit (ucast (load16 m p) OR push_bit 16 (ucast (load16 m (p + 2))) :: u32) n"
    by cases (auto simp: load32_def load16_def bit_simps add.assoc dest: bit_imp_le_length)
qed

text \<open>
  What is printed with the null terminal buffer goes to the low memory. The word at 0x34 is
  two of the blank cells.
\<close>

lemma first_output_low:
  assumes "terminal_row s = 0" and "terminal_column s = 0" and "terminal_color s = 0" and "terminal_buffer s = 0"
  shows "load32 (ram (first_output s)) 0x34 = 0x00200020"
proof -
  let ?c = "terminal_clear s"
  have ok: "term_ok s" using assms by (simp add: term_ok_def VGA_WIDTH_def VGA_HEIGHT_def)
  note so = terminal_clear_screen_only [of s]
  have c: "term_ok ?c" "terminal_color ?c = 0" "terminal_buffer ?c = 0"
    "view ?c = (0, 0, replicate cell_count (make_vgaentry 32 0))"
    using screen_only_fields [OF so] ok assms by (simp_all add: term_ok_def view_def cells_terminal_clear)
  have nz: "0 \<notin> set (chars ''GHOST'')" "\<forall>i \<in> set [0..<3::nat]. 0 \<notin> set (chars ''.'')" "0 \<notin> set (chars crlf)" by simp_all
  note g = print_view [OF c(1) nz(1)]
  note d = print_all_view [OF g(2) nz(2)]
  note e = print_view [OF conjunct1 [OF conjunct2 [OF d]] nz(3)]
  have col: "terminal_color (print ''GHOST'' ?c) = 0" "terminal_buffer (print ''GHOST'' ?c) = 0"
    using term_only_fields(1,2) [OF g(3)] c by simp_all
  have od: "term_only (print ''GHOST'' ?c) (fold (\<lambda>i. print ''.'') [0..<3::nat] (print ''GHOST'' ?c))"
    using d by blast
  have col2: "terminal_color (fold (\<lambda>i. print ''.'') [0..<3::nat] (print ''GHOST'' ?c)) = 0"
    "terminal_buffer (fold (\<lambda>i. print ''.'') [0..<3::nat] (print ''GHOST'' ?c)) = 0"
    using term_only_fields(1,2) [OF od] col by simp_all
  have buf: "terminal_buffer (first_output s) = 0"
    using term_only_fields(2) [OF e(3)] col2 by (simp add: first_output_def)
  have "view (first_output s) = fold (scr_write 0) (chars ''GHOST...'' @ chars crlf)
      (0, 0, replicate cell_count (make_vgaentry 32 0))"
  proof -
    have dots: "concat (map (\<lambda>i. chars ''.'') [0..<3::nat]) = chars ''...''" by (simp add: upt_rec)
    have "chars ''GHOST...'' @ chars crlf = chars ''GHOST'' @ chars ''...'' @ chars crlf" by simp
    then show ?thesis
      unfolding first_output_def e(1) conjunct1 [OF d] g(1) col col2 c(2,4) dots by (simp only: fold_append o_apply)
  qed
  then have "cells (first_output s) ! 26 = 0x20" "cells (first_output s) ! 27 = 0x20"
    by (simp_all add: VGA_WIDTH_def VGA_HEIGHT_def make_vgaentry_def Let_def view_def cell_count_def)
  then have "load16 (ram (first_output s)) 0x34 = 0x20" "load16 (ram (first_output s)) 0x36 = 0x20"
    using buf by (simp_all add: cells_def get_cell_def cell_count_def VGA_WIDTH_def VGA_HEIGHT_def)
  then show ?thesis by (simp add: load32_halves)
qed

text \<open>The conditions on the loaded machine under which \<^verbatim>\<open>_start\<close> works.\<close>

definition loaded :: "boot_link \<Rightarrow> cpu \<Rightarrow> 'a machine_scheme \<Rightarrow> bool" where
  "loaded l c s \<longleftrightarrow> gpr c EAX = 0x2BADB002 \<and>
     bytes_at (ram s) (addr_gdt_descriptor l) 6 = gdt_descriptor (addr_gdt l) \<and>
     (\<forall>i < 6. \<not> below (addr_gdt_descriptor l + of_nat i) (stack_top l) 8)"

lemma power_on_state:
  assumes "loaded l c s" and "ring_reset s" and "\<forall>es. device s es KEYBOARD_STATUS_PORT = 1"
  obtains c' t s' where "start l (c, initial_kernel_state s) = Running (c', t)" "kernel_boot t = Some (Inr s')"
    "\<forall>r. flat (r = CS) (descriptor gdt (segm c' r))" "segm c' DS = 0x10"
    "sys_ok s' {}" "fresh_editor s'" "kb_queue s' = []"
    "view s' = fold (scr_write 7) boot_text (0, 0, replicate cell_count (make_vgaentry 32 7))"
    "idt s' = idt (interrupts_init s')" "linked s' = linked s" "load32 (ram s') 0x34 = 0x00200020"
proof -
  let ?s = "initial_kernel_state s"
  have l: "gpr c EAX = 0x2BADB002" "bytes_at (ram ?s) (addr_gdt_descriptor l) 6 = gdt_descriptor (addr_gdt l)"
    "\<forall>i < 6. \<not> below (addr_gdt_descriptor l + of_nat i) (stack_top l) 8"
    using assms(1) by (simp_all add: loaded_def initial_kernel_state_def)
  obtain c' where c': "start l (c, ?s) = Running (c', ?s\<lparr>ram := started_ram l (gpr c EBX) (ram ?s),
      events := events ?s @ [Cli, Lgdt 23 (addr_gdt l), Out 0x3D4 0x0F, Out 0x3D5 0, Out 0x3D4 0x0E, Out 0x3D5 0]\<rparr>)"
    "\<forall>r. segm c' r = (if r = CS then 8 else 16)"
    by (rule start_running [OF l])
  define t where "t = ?s\<lparr>ram := started_ram l (gpr c EBX) (ram ?s),
      events := events ?s @ [Cli, Lgdt 23 (addr_gdt l), Out 0x3D4 0x0F, Out 0x3D5 0, Out 0x3D4 0x0E, Out 0x3D5 0]\<rparr>"
  have t: "term_ok t" "ring_reset t" "\<forall>es. device t es KEYBOARD_STATUS_PORT = 1"
    "terminal_row t = 0" "terminal_column t = 0" "terminal_color t = 0" "terminal_buffer t = 0" "linked t = linked s"
    using assms(2,3) by (simp_all add: t_def initial_kernel_state_def term_ok_def ring_reset_def VGA_WIDTH_def VGA_HEIGHT_def)
  obtain s' where s': "kernel_boot t = Some (Inr s')" "sys_ok s' {}" "fresh_editor s'" "kb_queue s' = []"
    "heap_slack 0xE0000000 s'"
    "view s' = fold (scr_write 7) boot_text (0, 0, replicate cell_count (make_vgaentry 32 7))"
    "low_same (ram (first_output t)) (ram s')" "linked s' = linked t" "idt s' = idt (interrupts_init s')"
    "heap_ok s' [(HEAP_SIZE - sizeof_block_meta, True)]"
    by (rule kernel_boot_state [OF t(1-3)])
  have "load32 (ram s') 0x34 = load32 (ram (first_output t)) 0x34"
    using s'(7) unfolding load32_def low_same_def by simp
  then have w: "load32 (ram s') 0x34 = 0x00200020" using first_output_low [OF t(4-7)] by simp
  have seg: "\<forall>r. flat (r = CS) (descriptor gdt (segm c' r))"
    using c'(2) gdt_flat by (simp add: KERNEL_CODE_SEG_def KERNEL_DATA_SEG_def)
  have "start l (c, ?s) = Running (c', t)" "segm c' DS = 0x10" using c' by (simp_all add: t_def)
  from that [OF this(1) s'(1) seg this(2) s'(2-4,6,9) _ w] show ?thesis using s'(8) t(8) by simp
qed

subsection \<open>Interrupts as they come\<close>

text \<open>
  The processor in kernel code: data segment from the table of \<^verbatim>\<open>_start\<close>, the upper half of
  \<^verbatim>\<open>eax\<close> clear, and a stack that does not reach down to the word at 0x34. A step of the
  machine is an interrupt of one of the four vectors with a gate, through the stub and back, or a
  turn of the main loop.
\<close>

definition kernel_code :: "cpu \<Rightarrow> bool" where
  "kernel_code c \<longleftrightarrow> segm c DS = 0x10 \<and> gpr c EAX AND 0xFFFF0000 = 0 \<and>
     (\<forall>i < 4. \<not> below (0x34 + of_nat i) (gpr c ESP) 60)"

inductive machine_step ::
  "(u32 \<Rightarrow> 'a editor_scheme \<Rightarrow> 'a editor_scheme option) \<Rightarrow> 'a editor_scheme \<Rightarrow> 'a editor_scheme \<Rightarrow> bool"
  for call where
  interrupted: "\<lbrakk>kernel_code c; vec \<in> {0, 1, 32, 33};
     interrupt scratch ret vec (c, s) = Some (Inr (Running (c', s')))\<rbrakk> \<Longrightarrow> machine_step call s s'"
| turn: "editor_process_keypress call s = Some (Inr (Running s')) \<Longrightarrow> machine_step call s s'"

text \<open>The editor and the clock at rest, and a word at 0x34 that no handler takes for a vector.\<close>

definition deaf :: "'a editor_scheme \<Rightarrow> bool" where
  "deaf s \<longleftrightarrow> gates_installed s \<and> load32 (ram s) 0x34 = 0x00200020 \<and> buffer_start s = buffer_end s"

definition at_rest :: "'a editor_scheme \<Rightarrow> 'a editor_scheme \<Rightarrow> bool" where
  "at_rest s s' \<longleftrightarrow> (\<exists>m es. s' = s\<lparr>ram := m, events := es\<rparr> \<and> load32 m 0x34 = load32 (ram s) 0x34)"

lemma at_restI:
  "s' = s\<lparr>ram := m, events := es\<rparr> \<Longrightarrow> load32 m 0x34 = load32 (ram s) 0x34 \<Longrightarrow> at_rest s s'"
  unfolding at_rest_def by blast

lemma at_rest_refl [simp]: "at_rest s s"
  by (rule at_restI [where m = "ram s" and es = "events s"]) simp_all

lemma gates_installed_cong: "idt s' = idt s \<Longrightarrow> linked s' = linked s \<Longrightarrow> gates_installed s' = gates_installed s"
  by (simp add: gates_installed_def interrupts_init_idt)

lemma at_rest_deaf: "at_rest s s' \<Longrightarrow> deaf s \<Longrightarrow> deaf s'"
  using gates_installed_cong [of s' s] by (auto simp: at_rest_def deaf_def)

lemma at_rest_trans: "at_rest s t \<Longrightarrow> at_rest t u \<Longrightarrow> at_rest s u"
  unfolding at_rest_def by (elim exE conjE, rule_tac x = ma in exI, rule_tac x = esa in exI) simp

lemma lost_interrupt:
  assumes "deaf s" and "kernel_code c" and "vec \<in> {0, 1, 32, 33}"
  shows "\<exists>t. interrupt scratch ret vec (c, s) = Some (Inr (Running (returned_cpu c, t))) \<and> at_rest s t"
proof -
  let ?h = "handler_start ret (of_nat vec) c s"
  have arg: "stub_argument c = 0x10" using assms(2) by (simp add: kernel_code_def stub_argument_def set_low16_def)
  have low: "\<forall>i < 4. \<not> below (0x34 + of_nat i) (gpr c ESP) 60" using assms(2) by (simp add: kernel_code_def)
  have n: "int_no 0x10 ?h = 0x00200020"
    using handler_start_int_no [of "0x10" c ret "of_nat vec" s] low assms(1) by (simp add: deaf_def)
  have m: "load32 (ram ?h) 0x34 = load32 (ram s) 0x34" using n assms(1) by (simp add: int_no_def deaf_def)
  note stub = interrupt_stub [of s vec scratch ret c, OF conjunct1 [OF assms(1) [unfolded deaf_def]] assms(3)]
  show ?thesis
  proof (cases "vec < 32")
    case True
    have "isr_handler 0x10 ?h = Inr (Running ?h)" using n by (simp add: isr_handler_def)
    then have "interrupt scratch ret vec (c, s) = Some (Inr (Running (returned_cpu c, resume ?h)))"
      using stub True by (simp add: isr_stub_eq arg Let_def del: exec_simps)
    moreover have "at_rest s (resume ?h)"
      by (rule at_restI [where m = "ram ?h"]) (use m in \<open>simp_all add: resume_def handler_start_def\<close>)
    ultimately show ?thesis by blast
  next
    case False
    have "irq_handler 0x10 ?h = outb 0x20 0x20 (outb 0xA0 0x20 ?h)" using n by (simp add: irq_handler_def Let_def)
    then have "interrupt scratch ret vec (c, s)
        = Some (Inr (Running (returned_cpu c, resume (outb 0x20 0x20 (outb 0xA0 0x20 ?h)))))"
      using stub False by (simp add: irq_stub_eq arg Let_def del: exec_simps)
    moreover have "at_rest s (resume (outb 0x20 0x20 (outb 0xA0 0x20 ?h)))"
      by (rule at_restI [where m = "ram ?h"]) (use m in \<open>simp_all add: resume_def handler_start_def outb_def\<close>)
    ultimately show ?thesis by blast
  qed
qed

lemma machine_step_at_rest:
  assumes "machine_step call s s'" and "deaf s"
  shows "at_rest s s'"
  using assms(1)
proof cases
  case (interrupted c vec scratch ret c')
  then show ?thesis using lost_interrupt [OF assms(2), of c vec scratch ret] by auto
next
  case turn
  then have "s' = s" using assms(2) by (simp add: editor_process_keypress_def keyboard_getchar_def deaf_def)
  then show ?thesis by simp
qed

lemma machine_steps_at_rest: "(machine_step call)\<^sup>*\<^sup>* s s' \<Longrightarrow> deaf s \<Longrightarrow> at_rest s s'"
proof (induction rule: rtranclp_induct)
  case base
  show ?case by simp
next
  case (step t u)
  then show ?case using machine_step_at_rest at_rest_deaf at_rest_trans by blast
qed

text \<open>Where \<^verbatim>\<open>linker.ld\<close> puts the kernel: 1 MiB.\<close>

definition kernel_start :: u32 where "kernel_start = 1024 * 1024"

text \<open>The first insertion into an untouched heap.\<close>

lemma first_insertion:
  assumes ok: "heap_ok s [(HEAP_SIZE - sizeof_block_meta, True)]" and b: "E_buffer s = 0" "E_buffer_size s = 0"
  obtains t where "editor_insert_char c s = Some t" "E_buffer t = HEAP_START + 12"
    "ram t (HEAP_START + 12) = c" "ram t (HEAP_START + 13) = 0"
    "heap_live t {(HEAP_START + 12, HEAP_SIZE - sizeof_block_meta)}"
proof -
  let ?z = "HEAP_SIZE - sizeof_block_meta"
  have blocks: "alloc_blocks 2 [(?z, True)] = ([], [(?z, False)])"
    by (simp add: alloc_blocks_def fits_def HEAP_SIZE_def sizeof_block_meta_def)
  have "unat HEAP_START + span [(?z, False)] < 2 ^ 32"
    by (simp add: HEAP_START_def HEAP_SIZE_def sizeof_block_meta_def)
  from malloc_blocks [OF ok _ blocks this] obtain m where
    m: "malloc 2 s = Some (HEAP_START + 12, s\<lparr>ram := m\<rparr>)" "heap_ok (s\<lparr>ram := m\<rparr>) [(?z, False)]" by auto
  let ?m = "m(HEAP_START + 12 := c, HEAP_START + 13 := 0)"
  have used: "used HEAP_START [(?z, False)] = {(HEAP_START + 12, ?z)}" by (simp add: sizeof_block_meta_def)
  have live: "heap_ok (s\<lparr>ram := m\<rparr>\<lparr>ram := ?m\<rparr>) [(?z, False)]"
    by (rule heap_ok_put [OF m(2), of "HEAP_START + 12" ?z])
      (auto simp: used in_run_def HEAP_SIZE_def sizeof_block_meta_def)
  have ins: "heap_live t {(HEAP_START + 12, ?z)} \<and> E_buffer t = HEAP_START + 12 \<and> ram t = ?m"
    if "editor_insert_char c s = Some t" for t
  proof -
    have "ram t = ?m" "heap_start t = heap_start s" "E_buffer t = HEAP_START + 12"
      using that m(1) b by (auto simp: editor_insert_char_def Let_def HEAP_START_def split: if_splits)
    moreover from this have "heap_ok t [(?z, False)]" using live by (simp add: heap_ok_def)
    ultimately show ?thesis using heap_liveI used by metis
  qed
  have "editor_insert_char c s \<noteq> None"
    using m(1) b by (simp add: editor_insert_char_def Let_def HEAP_START_def)
  then obtain t where "editor_insert_char c s = Some t" by blast
  with ins [OF this] show ?thesis using that by (simp add: HEAP_START_def)
qed

text \<open>The gates that \<^verbatim>\<open>interrupts_init\<close> leaves in the table.\<close>

lemma interrupts_init_gates:
  "length (idt (interrupts_init s)) = 256"
  "gate_address (idt (interrupts_init s) ! 0) = addr_isr0 (linked s)"
  "gate_address (idt (interrupts_init s) ! Suc 0) = addr_isr1 (linked s)"
  "gate_address (idt (interrupts_init s) ! 32) = addr_irq0 (linked s)"
  "gate_address (idt (interrupts_init s) ! 33) = addr_irq1 (linked s)"
  "v < 256 \<Longrightarrow> v \<in> {0, Suc 0, 32, 33} \<Longrightarrow>
    sel (idt (interrupts_init s) ! v) = 8 \<and> flags (idt (interrupts_init s) ! v) = 0x8E"
  "v < 256 \<Longrightarrow> v \<notin> {0, Suc 0, 32, 33} \<Longrightarrow> flags (idt (interrupts_init s) ! v) = 0"
  by (simp_all add: interrupts_init_idt gate_address_interrupt_gate)
    (auto simp: interrupt_gate_def zero_entry_def)

subsection \<open>Properties\<close>

text \<open>
  C7. Power on: a multiboot loader that enters the loaded image (\<^verbatim>\<open>kernel_state\<close> as
  initialised, keyboard ring zeroed) at \<^verbatim>\<open>_start\<close>, with a keyboard controller that is always
  ready, gets to the main loop without a fault: the segments are flat, the heap is empty and well
  formed, the editor is empty, no key is waiting, and the screen shows exactly the banner and the
  memory line. The interrupt table has 256 entries: 0, 1, 32 and 33 are present interrupt gates of
  the code segment that lead to \<^verbatim>\<open>isr0\<close>, \<^verbatim>\<open>isr1\<close>, \<^verbatim>\<open>irq0\<close> and
  \<^verbatim>\<open>irq1\<close>, all others are absent.
\<close>

theorem power_on_ready:
  assumes "loaded l c s" and "ring_reset s" and "\<forall>es. device s es KEYBOARD_STATUS_PORT = 1"
  shows "\<exists>c' t s'. start l (c, initial_kernel_state s) = Running (c', t) \<and> kernel_boot t = Some (Inr s') \<and>
    (\<forall>r. flat (r = CS) (descriptor gdt (segm c' r))) \<and> sys_ok s' {} \<and> fresh_editor s' \<and> kb_queue s' = [] \<and>
    length (idt s') = 256 \<and> map (\<lambda>v. gate_address (idt s' ! v)) [0, 1, 32, 33]
      = [addr_isr0 (linked s), addr_isr1 (linked s), addr_irq0 (linked s), addr_irq1 (linked s)] \<and>
    (\<forall>v < 256. if v \<in> {0, 1, 32, 33} then sel (idt s' ! v) = 0x08 \<and> flags (idt s' ! v) = 0x8E
      else \<not> bit (flags (idt s' ! v)) 7) \<and>
    view s' = fold (scr_write 7) boot_text (0, 0, replicate cell_count (make_vgaentry 32 7))"
proof -
  obtain c' t s' where "start l (c, initial_kernel_state s) = Running (c', t)" "kernel_boot t = Some (Inr s')"
    "\<forall>r. flat (r = CS) (descriptor gdt (segm c' r))" "segm c' DS = 0x10"
    "sys_ok s' {}" "fresh_editor s'" "kb_queue s' = []"
    "view s' = fold (scr_write 7) boot_text (0, 0, replicate cell_count (make_vgaentry 32 7))"
    "idt s' = idt (interrupts_init s')" "linked s' = linked s" "load32 (ram s') 0x34 = 0x00200020"
    by (rule power_on_state [OF assms])
  note on = this
  from on(9,10) have gates: "length (idt s') = 256"
    "map (\<lambda>v. gate_address (idt s' ! v)) [0, 1, 32, 33]
      = [addr_isr0 (linked s), addr_isr1 (linked s), addr_irq0 (linked s), addr_irq1 (linked s)]"
    "\<forall>v < 256. if v \<in> {0, 1, 32, 33} then sel (idt s' ! v) = 0x08 \<and> flags (idt s' ! v) = 0x8E
      else \<not> bit (flags (idt s' ! v)) 7"
    by (simp_all add: interrupts_init_gates)
  show ?thesis
    by (intro exI [of _ c'] exI [of _ t] exI [of _ s'] conjI) (fact on(1-3,5-8) gates)+
qed

text \<open>The loaded kernel with the image of the boot code in memory.\<close>

definition loaded_system :: editor where
  "loaded_system = loaded_kernel\<lparr>ram := ram loaded_image\<rparr>"

lemma loaded_system_ok:
  "loaded boot_layout loader_cpu loaded_system" "ring_reset loaded_system"
  "\<forall>es. device loaded_system es KEYBOARD_STATUS_PORT = 1"
  using loaded_image_ok loaded_kernel_ok by (simp_all add: loaded_def loaded_system_def ring_reset_def)

theorem power_on_ready_witness:
  "\<exists>c' t s'. start boot_layout (loader_cpu, initial_kernel_state loaded_system) = Running (c', t) \<and>
     kernel_boot t = Some (Inr s') \<and> E_screen_rows s' = 24"
proof -
  from power_on_ready [OF loaded_system_ok] obtain c' t s' where
    "start boot_layout (loader_cpu, initial_kernel_state loaded_system) = Running (c', t)"
    "kernel_boot t = Some (Inr s')" "fresh_editor s'" by blast
  then show ?thesis by (auto simp: fresh_editor_def)
qed

text \<open>
  C4. After power on no key ever arrives. The screen output before the terminal is initialised
  leaves 0x00200020 at address 0x34, which is where the handlers look for the vector, as the
  stubs pass them the data segment instead of the frame. So whatever interrupts come while the
  upper half of \<^verbatim>\<open>eax\<close> is clear (timer, keyboard or exception, in any order between the turns
  of the main loop), each of them returns without effect: the key ring and the text stay empty,
  the clock stands still, no exception is reported, and a turn of the main loop changes nothing.
\<close>

theorem keys_never_arrive:
  fixes s :: "'a editor_scheme"
  assumes "loaded l c s" and "ring_reset s" and "\<forall>es. device s es KEYBOARD_STATUS_PORT = 1"
    and "distinct [addr_isr0 (linked s), addr_isr1 (linked s), addr_irq0 (linked s), addr_irq1 (linked s)]"
    and "start l (c, initial_kernel_state s) = Running (c', t)" and "kernel_boot t = Some (Inr s0)"
    and "(machine_step call)\<^sup>*\<^sup>* s0 s'"
  shows "kb_queue s' = [] \<and> fresh_editor s' \<and> tick s' = tick s0 \<and>
    editor_process_keypress call s' = Some (Inr (Running s')) \<and>
    (\<forall>d vec. kernel_code d \<and> vec \<in> {0, 1, 32, 33} \<longrightarrow>
      (\<exists>u. interrupt scratch ret vec (d, s') = Some (Inr (Running (returned_cpu d, u)))))"
proof -
  obtain c'' u s'' where u: "start l (c, initial_kernel_state s) = Running (c'', u)" "kernel_boot u = Some (Inr s'')"
    "sys_ok s'' {}" "fresh_editor s''" "kb_queue s'' = []" "idt s'' = idt (interrupts_init s'')"
    "linked s'' = linked s" "load32 (ram s'') 0x34 = 0x00200020"
    by (rule power_on_state [OF assms(1-3)])
  have same: "s'' = s0" using u(1,2) assms(5,6) by simp
  have s0: "gates_installed s0" "fresh_editor s0" "kb_queue s0 = []" "kb_ok s0" "load32 (ram s0) 0x34 = 0x00200020"
    using u(3-8) assms(4) unfolding same by (simp_all add: gates_installed_def sys_ok_def session_ok_def)
  have ring: "buffer_start s0 = buffer_end s0" using keyboard_getchar_empty [OF s0(4)] s0(3) by simp
  have deaf: "deaf s0" using s0 ring by (simp add: deaf_def)
  have rest: "at_rest s0 s'" by (rule machine_steps_at_rest [OF assms(7) deaf])
  have d: "deaf s'" by (rule at_rest_deaf [OF rest deaf])
  have "kb_queue s' = []" "fresh_editor s'" "tick s' = tick s0"
    using rest s0 by (auto simp: at_rest_def kb_queue_def fresh_editor_def)
  moreover have "editor_process_keypress call s' = Some (Inr (Running s'))"
    using d by (simp add: editor_process_keypress_def keyboard_getchar_def deaf_def)
  ultimately show ?thesis using lost_interrupt [OF d] by blast
qed

theorem keys_never_arrive_witness:
  "\<exists>s0 u. kb_queue s0 = [] \<and> interrupt (\<lambda>_. 0) 0x104000 33 (kernel_cpu, s0 :: editor)
    = Some (Inr (Running (returned_cpu kernel_cpu, u)))"
proof -
  obtain c' t s0 where p: "start boot_layout (loader_cpu, initial_kernel_state loaded_system) = Running (c', t)"
    "kernel_boot t = Some (Inr s0)"
    by (rule power_on_state [OF loaded_system_ok])
  have d: "distinct [addr_isr0 (linked loaded_system), addr_isr1 (linked loaded_system),
      addr_irq0 (linked loaded_system), addr_irq1 (linked loaded_system)]"
    by (simp add: loaded_system_def loaded_kernel_def blank_editor_def memory_init_def compiler.defs
        interrupts.defs blank_interrupts_def filesystem.defs)
  have "\<not> below (0x34 + of_nat i) (gpr kernel_cpu ESP) 60" if "i < 4" for i
  proof -
    from that consider "i = 0" | "i = 1" | "i = 2" | "i = 3" by linarith
    then show ?thesis by cases (simp_all add: below_def kernel_cpu_def)
  qed
  then have "kernel_code kernel_cpu" by (simp add: kernel_code_def) (simp add: kernel_cpu_def)
  with keys_never_arrive [OF loaded_system_ok d p rtranclp.rtrancl_refl, where scratch = "\<lambda>_. 0" and ret = "0x104000"]
  show ?thesis by blast
qed

text \<open>
  C26. The heap is laid over the kernel. After boot the first twelve bytes of the image, where the
  linker puts the multiboot header with its magic number, are the header of the one heap block (its
  size, no successor, free). The first character that is inserted is stored with its terminator
  right behind these, inside the multiboot header of the image, and the block that now holds the
  text is live from there up to 1 MiB behind the start of the image: it covers the code that the
  linker puts there.
\<close>

theorem heap_over_image:
  assumes "term_ok s" and "ring_reset s" and "\<forall>es. device s es KEYBOARD_STATUS_PORT = 1"
  shows "\<exists>s' t. kernel_boot s = Some (Inr s') \<and> blk_size (ram s') kernel_start = 0xFFFF4 \<and>
    blk_next (ram s') kernel_start = 0 \<and> blk_free (ram s') kernel_start \<and>
    load32 (ram s') kernel_start \<noteq> hd multiboot_header \<and>
    editor_insert_char c s' = Some t \<and> E_buffer t = kernel_start + 12 \<and>
    ram t (kernel_start + 12) = c \<and> ram t (kernel_start + 13) = 0 \<and>
    13 < 4 * length multiboot_header \<and> heap_live t {(kernel_start + 12, 0x100000 - 12)}"
proof -
  obtain s' where s': "kernel_boot s = Some (Inr s')" "fresh_editor s'"
    "heap_ok s' [(HEAP_SIZE - sizeof_block_meta, True)]"
    by (rule kernel_boot_state [OF assms])
  have k: "kernel_start = HEAP_START" by (simp add: kernel_start_def HEAP_START_def)
  have "seg (ram s') HEAP_START [(HEAP_SIZE - sizeof_block_meta, True)] 0" using s'(3) by (simp add: heap_ok_def)
  then have "header (ram s') HEAP_START (HEAP_SIZE - sizeof_block_meta) True 0" by simp
  then have h: "blk_size (ram s') HEAP_START = 0xFFFF4" "blk_next (ram s') HEAP_START = 0" "blk_free (ram s') HEAP_START"
    by (simp_all add: header_def HEAP_SIZE_def sizeof_block_meta_def)
  have "load32 (ram s') HEAP_START \<noteq> hd multiboot_header" "13 < 4 * length multiboot_header"
    using h(1) by (simp_all add: blk_size_def multiboot_header_def MAGIC_def)
  moreover have "E_buffer s' = 0" "E_buffer_size s' = 0" using s'(2) by (simp_all add: fresh_editor_def)
  from first_insertion [OF s'(3) this, of c] obtain t where
    "editor_insert_char c s' = Some t" "E_buffer t = HEAP_START + 12"
    "ram t (HEAP_START + 12) = c" "ram t (HEAP_START + 13) = 0"
    "heap_live t {(HEAP_START + 12, HEAP_SIZE - sizeof_block_meta)}" .
  moreover have "HEAP_SIZE - sizeof_block_meta = 0x100000 - 12"
    by (simp add: HEAP_SIZE_def sizeof_block_meta_def)
  ultimately show ?thesis using s'(1) h unfolding k by metis
qed

theorem heap_over_image_witness:
  "\<exists>s' t. kernel_boot loaded_kernel = Some (Inr s') \<and> editor_insert_char 65 s' = Some t \<and>
     ram t (kernel_start + 12) = 65"
  using heap_over_image [OF loaded_kernel_ok] by blast

end
