(* ===== verification/Layout.thy ===== *)
theory Layout
  imports Boot Compiler
begin

text \<open>
  How the declared structures lie in memory: the layout rules of the i386 ABI for C (scalars
  aligned to their size but at most to four, members in order, packed structures without
  padding), the structures of the kernel as the headers declare them, and the multiboot
  structures of \<^verbatim>\<open>multiboot.h\<close>. The theorems show that the offsets and sizes that the
  other theories use are the ones these rules give, and that the stack frame of an interrupt is a
  \<^verbatim>\<open>struct registers\<close>.
\<close>

subsection \<open>Types and their layout\<close>

datatype ctype = CInt nat | CArray ctype nat | CStruct bool members | CUnion members
  and members = End | Member string ctype members

primrec align_of :: "ctype \<Rightarrow> nat" and aligns :: "members \<Rightarrow> nat" where
  "align_of (CInt n) = min n 4"
| "align_of (CArray t n) = align_of t"
| "align_of (CStruct packed fs) = (if packed then 1 else aligns fs)"
| "align_of (CUnion fs) = aligns fs"
| "aligns End = 1"
| "aligns (Member _ t fs) = max (align_of t) (aligns fs)"

definition align_up :: "nat \<Rightarrow> nat \<Rightarrow> nat" where
  "align_up a n = (n + a - 1) div a * a"

fun size_of :: "ctype \<Rightarrow> nat"
  and end_of :: "members \<Rightarrow> bool \<Rightarrow> nat \<Rightarrow> nat"
  and widest :: "members \<Rightarrow> nat" where
  "size_of (CInt n) = n"
| "size_of (CArray t n) = n * size_of t"
| "size_of (CStruct packed fs) = align_up (if packed then 1 else aligns fs) (end_of fs packed 0)"
| "size_of (CUnion fs) = align_up (aligns fs) (widest fs)"
| "end_of End packed n = n"
| "end_of (Member _ t fs) packed n =
     end_of fs packed ((if packed then n else align_up (align_of t) n) + size_of t)"
| "widest End = 0"
| "widest (Member _ t fs) = max (size_of t) (widest fs)"

text \<open>The members of a structure with their offsets and types.\<close>

primrec place :: "members \<Rightarrow> bool \<Rightarrow> nat \<Rightarrow> (string \<times> nat \<times> ctype) list" where
  "place End packed n = []"
| "place (Member f t fs) packed n =
     (let a = (if packed then n else align_up (align_of t) n)
      in (f, a, t) # place fs packed (a + size_of t))"

fun members_of :: "ctype \<Rightarrow> (string \<times> nat \<times> ctype) list" where
  "members_of (CStruct packed fs) = place fs packed 0"
| "members_of _ = []"

definition offset_of :: "ctype \<Rightarrow> string \<Rightarrow> nat option" where
  "offset_of t f = map_option fst (map_of (members_of t) f)"

fun mk :: "(string \<times> ctype) list \<Rightarrow> members" where
  "mk [] = End"
| "mk ((f, t) # fs) = Member f t (mk fs)"

abbreviation struct :: "(string \<times> ctype) list \<Rightarrow> ctype" where "struct fs \<equiv> CStruct False (mk fs)"
abbreviation packed :: "(string \<times> ctype) list \<Rightarrow> ctype" where "packed fs \<equiv> CStruct True (mk fs)"
abbreviation union :: "(string \<times> ctype) list \<Rightarrow> ctype" where "union fs \<equiv> CUnion (mk fs)"

abbreviation uint8 :: ctype where "uint8 \<equiv> CInt 1"
abbreviation uint16 :: ctype where "uint16 \<equiv> CInt 2"
abbreviation uint32 :: ctype where "uint32 \<equiv> CInt 4"
abbreviation uint64 :: ctype where "uint64 \<equiv> CInt 8"
abbreviation char_t :: ctype where "char_t \<equiv> CInt 1"
abbreviation bool_t :: ctype where "bool_t \<equiv> CInt 1"
abbreviation size_t :: ctype where "size_t \<equiv> CInt 4"
abbreviation pointer :: ctype where "pointer \<equiv> CInt 4"

subsection \<open>Structures of the kernel\<close>

definition block_meta :: ctype where
  "block_meta = struct [(''size'', size_t), (''next'', pointer), (''is_free'', bool_t)]"

text \<open>Declared in \<^verbatim>\<open>memory.h\<close> and used nowhere.\<close>

definition memory_block :: ctype where
  "memory_block = struct [(''size'', size_t), (''is_free'', bool_t), (''next'', pointer), (''prev'', pointer)]"

definition KernelState :: ctype where
  "KernelState = struct [(''terminal_row'', size_t), (''terminal_column'', size_t),
     (''terminal_color'', uint8), (''terminal_buffer'', pointer), (''is_initialized'', bool_t),
     (''total_memory'', uint32), (''free_memory'', uint32)]"

definition idt_entry_t :: ctype where
  "idt_entry_t = packed [(''base_lo'', uint16), (''sel'', uint16), (''always0'', uint8),
     (''flags'', uint8), (''base_hi'', uint16)]"

definition idt_ptr_t :: ctype where
  "idt_ptr_t = packed [(''limit'', uint16), (''base'', uint32)]"

definition registers :: ctype where
  "registers = struct (map (\<lambda>f. (f, uint32))
     [''ds'', ''edi'', ''esi'', ''ebp'', ''esp'', ''ebx'', ''edx'', ''ecx'', ''eax'',
      ''int_no'', ''err_code'', ''eip'', ''cs'', ''eflags'', ''useresp'', ''ss''])"

definition File_t :: ctype where
  "File_t = struct [(''name'', CArray char_t MAX_FILENAME_LENGTH), (''data'', CArray uint8 MAX_FILE_SIZE),
     (''size'', size_t), (''used'', bool_t)]"

definition Instruction_t :: ctype where
  "Instruction_t = struct [(''opcode'', uint8), (''operands'', CArray uint8 4), (''operand_count'', uint8)]"

definition CompileResult_t :: ctype where
  "CompileResult_t = struct [(''success'', bool_t), (''error_message'', CArray char_t 256),
     (''binary'', pointer), (''binary_size'', size_t)]"

definition E_t :: ctype where
  "E_t = struct [(''buffer'', pointer), (''buffer_size'', size_t), (''cursor_x'', size_t),
     (''cursor_y'', size_t), (''filename'', pointer), (''screen_rows'', size_t),
     (''screen_cols'', size_t), (''is_modified'', bool_t)]"

text \<open>Declared in \<^verbatim>\<open>editor.h\<close> and used nowhere.\<close>

definition EditorConfig :: ctype where
  "EditorConfig = struct [(''buffer'', pointer), (''buffer_size'', size_t), (''filename'', pointer),
     (''screen_rows'', size_t), (''screen_cols'', size_t), (''cursor_x'', size_t), (''cursor_y'', size_t),
     (''row_offset'', size_t), (''col_offset'', size_t), (''status_msg'', CArray char_t 80),
     (''status_msg_time'', uint64)]"

subsection \<open>Multiboot\<close>

definition MULTIBOOT_HEADER_MAGIC :: u32 where "MULTIBOOT_HEADER_MAGIC = 0x1BADB002"
definition MULTIBOOT_BOOTLOADER_MAGIC :: u32 where "MULTIBOOT_BOOTLOADER_MAGIC = 0x2BADB002"
definition MULTIBOOT_PAGE_ALIGN :: u32 where "MULTIBOOT_PAGE_ALIGN = push_bit 0 1"
definition MULTIBOOT_MEMORY_INFO :: u32 where "MULTIBOOT_MEMORY_INFO = push_bit 1 1"
definition MULTIBOOT_VIDEO_MODE :: u32 where "MULTIBOOT_VIDEO_MODE = push_bit 2 1"
definition MULTIBOOT_HEADER_FLAGS :: u32 where
  "MULTIBOOT_HEADER_FLAGS = MULTIBOOT_PAGE_ALIGN OR MULTIBOOT_MEMORY_INFO"
definition MULTIBOOT_HEADER_CHECKSUM :: u32 where
  "MULTIBOOT_HEADER_CHECKSUM = - (MULTIBOOT_HEADER_MAGIC + MULTIBOOT_HEADER_FLAGS)"

definition multiboot_mmap_entry :: ctype where
  "multiboot_mmap_entry = packed [(''size'', uint32), (''addr'', uint64), (''len'', uint64), (''type'', uint32)]"

text \<open>The types of memory, and the bits of \<^verbatim>\<open>flags\<close> in \<^verbatim>\<open>multiboot_info\<close>, by position.\<close>

datatype memory_type = MEMORY_AVAILABLE | MEMORY_RESERVED | MEMORY_ACPI_RECLAIMABLE | MEMORY_NVS | MEMORY_BADRAM

primrec memory_type_code :: "memory_type \<Rightarrow> u32" where
  "memory_type_code MEMORY_AVAILABLE = 1"
| "memory_type_code MEMORY_RESERVED = 2"
| "memory_type_code MEMORY_ACPI_RECLAIMABLE = 3"
| "memory_type_code MEMORY_NVS = 4"
| "memory_type_code MEMORY_BADRAM = 5"

datatype info_flag = INFO_MEMORY | INFO_BOOTDEV | INFO_CMDLINE | INFO_MODS | INFO_SYMS_AOUT
  | INFO_SYMS_ELF | INFO_MMAP | INFO_DRIVES | INFO_CONFIG | INFO_BOOT_LOADER | INFO_APM | INFO_VBE
  | INFO_FRAMEBUFFER

primrec info_bit :: "info_flag \<Rightarrow> nat" where
  "info_bit INFO_MEMORY = 0"
| "info_bit INFO_BOOTDEV = 1"
| "info_bit INFO_CMDLINE = 2"
| "info_bit INFO_MODS = 3"
| "info_bit INFO_SYMS_AOUT = 4"
| "info_bit INFO_SYMS_ELF = 5"
| "info_bit INFO_MMAP = 6"
| "info_bit INFO_DRIVES = 7"
| "info_bit INFO_CONFIG = 8"
| "info_bit INFO_BOOT_LOADER = 9"
| "info_bit INFO_APM = 10"
| "info_bit INFO_VBE = 11"
| "info_bit INFO_FRAMEBUFFER = 12"

definition info_mask :: "info_flag \<Rightarrow> u32" where
  "info_mask f = push_bit (info_bit f) 1"

definition multiboot_vbe_controller_info :: ctype where
  "multiboot_vbe_controller_info = packed [(''signature'', CArray uint8 4), (''version'', uint16),
     (''oem_string'', uint32), (''capabilities'', uint32), (''video_mode_ptr'', uint32),
     (''total_memory'', uint16), (''oem_software_rev'', uint16), (''oem_vendor_name'', uint32),
     (''oem_product_name'', uint32), (''oem_product_rev'', uint32), (''reserved'', CArray uint8 222),
     (''oem_data'', CArray uint8 256)]"

definition multiboot_vbe_mode_info :: ctype where
  "multiboot_vbe_mode_info = packed [(''attributes'', uint16), (''window_a'', uint8), (''window_b'', uint8),
     (''granularity'', uint16), (''window_size'', uint16), (''segment_a'', uint16), (''segment_b'', uint16),
     (''window_func_ptr'', uint32), (''pitch'', uint16), (''width'', uint16), (''height'', uint16),
     (''char_width'', uint8), (''char_height'', uint8), (''num_planes'', uint8), (''bpp'', uint8),
     (''num_banks'', uint8), (''memory_model'', uint8), (''bank_size'', uint8), (''num_image_pages'', uint8),
     (''reserved0'', uint8), (''red_mask_size'', uint8), (''red_field_position'', uint8),
     (''green_mask_size'', uint8), (''green_field_position'', uint8), (''blue_mask_size'', uint8),
     (''blue_field_position'', uint8), (''reserved_mask_size'', uint8), (''reserved_field_position'', uint8),
     (''direct_color_mode_info'', uint8), (''phys_base'', uint32), (''reserved1'', uint32),
     (''reserved2'', uint16)]"

definition elf_sec :: ctype where
  "elf_sec = struct [(''num'', uint32), (''size'', uint32), (''addr'', uint32), (''shndx'', uint32)]"

definition aout_sym :: ctype where
  "aout_sym = struct [(''tabsize'', uint32), (''strsize'', uint32), (''addr'', uint32), (''reserved'', uint32)]"

definition vbe :: ctype where
  "vbe = struct [(''control_info'', uint32), (''mode_info'', uint32), (''mode'', uint16),
     (''interface_seg'', uint16), (''interface_off'', uint16), (''interface_len'', uint16)]"

text \<open>The anonymous union of the palette and the colour fields, two anonymous structures.\<close>

definition palette :: ctype where
  "palette = struct [(''palette_addr'', uint32), (''color_count'', uint16)]"

definition color_fields :: ctype where
  "color_fields = struct [(''red_field_position'', uint8), (''red_mask_size'', uint8),
     (''green_field_position'', uint8), (''green_mask_size'', uint8),
     (''blue_field_position'', uint8), (''blue_mask_size'', uint8)]"

definition color_info :: ctype where
  "color_info = union [([], palette), ([], color_fields)]"

definition framebuffer :: ctype where
  "framebuffer = struct [(''addr'', uint64), (''pitch'', uint32), (''width'', uint32), (''height'', uint32),
     (''bpp'', uint8), (''type'', uint8), ([], color_info)]"

definition multiboot_info :: ctype where
  "multiboot_info = struct [(''magic'', uint32), (''flags'', uint32), (''mem_lower'', uint32),
     (''mem_upper'', uint32), (''boot_device'', uint32), (''cmdline'', uint32), (''mods_count'', uint32),
     (''mods_addr'', uint32), (''syms'', union [(''elf_sec'', elf_sec), (''aout_sym'', aout_sym)]),
     (''mmap_length'', uint32), (''mmap_addr'', uint32), (''drives_length'', uint32),
     (''drives_addr'', uint32), (''config_table'', uint32), (''boot_loader_name'', uint32),
     (''apm_table'', uint32), (''vbe'', vbe), (''framebuffer'', framebuffer)]"

definition multiboot_mod_list :: ctype where
  "multiboot_mod_list = struct [(''mod_start'', uint32), (''mod_end'', uint32), (''cmdline'', uint32), (''pad'', uint32)]"

subsection \<open>The rules\<close>

lemma align_up:
  assumes "0 < a"
  shows "n \<le> align_up a n" and "a dvd align_up a n" and "align_up a n < n + a"
proof -
  have d: "align_up a n + (n + a - 1) mod a = n + a - 1" by (simp add: align_up_def)
  have "(n + a - 1) mod a < a" using assms by simp
  then show "n \<le> align_up a n" "align_up a n < n + a" using d assms by linarith+
  show "a dvd align_up a n" by (simp add: align_up_def)
qed

text \<open>Scalars of the machine only.\<close>

primrec scalar_ok :: "ctype \<Rightarrow> bool" and members_ok :: "members \<Rightarrow> bool" where
  "scalar_ok (CInt n) \<longleftrightarrow> n \<in> {1, 2, 4, 8}"
| "scalar_ok (CArray t n) \<longleftrightarrow> scalar_ok t"
| "scalar_ok (CStruct p fs) \<longleftrightarrow> members_ok fs"
| "scalar_ok (CUnion fs) \<longleftrightarrow> members_ok fs"
| "members_ok End \<longleftrightarrow> True"
| "members_ok (Member _ t fs) \<longleftrightarrow> scalar_ok t \<and> members_ok fs"

lemma align_pos: "scalar_ok t \<Longrightarrow> 0 < align_of t" "0 < aligns fs"
  by (induction t and fs) auto

lemma align_power: "scalar_ok t \<Longrightarrow> align_of t \<in> {1, 2, 4}" "members_ok fs \<Longrightarrow> aligns fs \<in> {1, 2, 4}"
  by (induction t and fs) (auto simp: max_def)

lemma end_of_bound: "members_ok fs \<Longrightarrow> n \<le> end_of fs p n"
proof (induction fs arbitrary: n rule: members.induct [where ?P1.0 = "\<lambda>_. True"])
  case (Member f t fs)
  let ?a = "if p then n else align_up (align_of t) n"
  have "n \<le> ?a" using Member.prems align_pos(1) [of t] align_up(1) [of "align_of t" n] by simp
  moreover have "?a + size_of t \<le> end_of fs p (?a + size_of t)" using Member by simp
  ultimately show ?case by simp
qed simp_all

lemma place_bounds:
  "members_ok fs \<Longrightarrow> (f, a, t) \<in> set (place fs p n) \<Longrightarrow>
   n \<le> a \<and> a + size_of t \<le> end_of fs p n \<and> (p \<or> align_of t dvd a) \<and> (p \<or> align_of t \<le> aligns fs)"
proof (induction fs arbitrary: n rule: members.induct [where ?P1.0 = "\<lambda>_. True"])
  case (Member g u fs)
  let ?b = "if p then n else align_up (align_of u) n"
  have pos: "0 < align_of u" using Member.prems(1) by (simp add: align_pos)
  have b: "n \<le> ?b" "p \<or> align_of u dvd ?b" using align_up [OF pos, of n] by simp_all
  show ?case
  proof (cases "(f, a, t) = (g, ?b, u)")
    case True
    then show ?thesis using b Member.prems(1) end_of_bound [of fs "?b + size_of u" p] by auto
  next
    case False
    then have "(f, a, t) \<in> set (place fs p (?b + size_of u))" 
      using Member.prems(2) by (cases p) (auto simp: Let_def)
    from Member.IH [OF _ this] Member.prems(1) b show ?thesis by auto
  qed
qed simp_all

lemma place_sorted:
  "members_ok fs \<Longrightarrow> sorted_wrt (\<lambda>(f, a, t) (g, b, u). a + size_of t \<le> b) (place fs p n)"
proof (induction fs arbitrary: n rule: members.induct [where ?P1.0 = "\<lambda>_. True"])
  case (Member g u fs)
  let ?b = "if p then n else align_up (align_of u) n"
  have "?b + size_of u \<le> a" if "(f, a, t) \<in> set (place fs p (?b + size_of u))" for f a t
    using place_bounds [OF _ that] Member.prems by simp
  then show ?case using Member by (auto simp: Let_def)
qed simp_all

text \<open>
  What a layout owes its users: members in order without overlap, inside the structure, and
  aligned where the structure is (so that all elements of an array of it are).
\<close>

definition well_placed :: "ctype \<Rightarrow> bool" where
  "well_placed t \<longleftrightarrow>
     sorted_wrt (\<lambda>(f, a, u) (g, b, v). a + size_of u \<le> b) (members_of t) \<and>
     list_all (\<lambda>(f, a, u). a + size_of u \<le> size_of t) (members_of t) \<and>
     (align_of t > 1 \<longrightarrow> list_all (\<lambda>(f, a, u). align_of u dvd a \<and> align_of u dvd align_of t) (members_of t)) \<and>
     align_of t dvd size_of t"

lemma struct_well_placed:
  assumes "members_ok fs"
  shows "well_placed (CStruct p fs)"
proof -
  have pos: "0 < (if p then 1 else aligns fs)" by (simp add: align_pos)
  note up = align_up [OF pos, of "end_of fs p 0"]
  have dvd: "align_of t dvd aligns fs" if "align_of t \<le> aligns fs" "scalar_ok t" for t
    using that align_power(1) [OF that(2)] align_power(2) [OF assms] by auto
  have ok: "scalar_ok t" if "(f, a, t) \<in> set (place fs p n)" for f a t n
    using that assms
    by (induction fs arbitrary: n rule: members.induct [where ?P1.0 = "\<lambda>_. True"]) (auto simp: Let_def)
  have "a + size_of t \<le> size_of (CStruct p fs)" if "(f, a, t) \<in> set (place fs p 0)" for f a t
    using place_bounds [OF assms that] up(1) by simp
  moreover have "align_of t dvd a \<and> align_of t dvd aligns fs" if "(f, a, t) \<in> set (place fs p 0)" "\<not> p" for f a t
    using place_bounds [OF assms that(1)] that(2) dvd ok [OF that(1)] by auto
  ultimately show ?thesis
    using place_sorted [OF assms, of p 0] up(2) by (auto simp: well_placed_def list_all_iff)
qed

subsection \<open>Properties\<close>

definition structures :: "ctype list" where
  "structures = [block_meta, memory_block, KernelState, idt_entry_t, idt_ptr_t, registers, File_t,
     Instruction_t, CompileResult_t, E_t, EditorConfig, multiboot_mmap_entry,
     multiboot_vbe_controller_info, multiboot_vbe_mode_info, elf_sec, aout_sym, vbe, palette, color_fields,
     framebuffer, multiboot_info, multiboot_mod_list]"

lemma structure_sizes:
  "size_of block_meta = 12"
  "size_of memory_block = 16"
  "size_of KernelState = 28"
  "size_of idt_entry_t = 8"
  "size_of idt_ptr_t = 6"
  "size_of registers = 64"
  "size_of File_t = 4136"
  "size_of Instruction_t = 6"
  "size_of CompileResult_t = 268"
  "size_of E_t = 32"
  "size_of EditorConfig = 124"
  "size_of multiboot_mmap_entry = 24"
  "size_of multiboot_vbe_controller_info = 512"
  "size_of multiboot_vbe_mode_info = 50"
  "size_of elf_sec = 16"
  "size_of aout_sym = 16"
  "size_of vbe = 16"
  "size_of palette = 8"
  "size_of color_fields = 6"
  "size_of framebuffer = 32"
  "size_of multiboot_info = 124"
  "size_of multiboot_mod_list = 16"
proof -
  show "size_of block_meta = 12" by (simp add: align_up_def block_meta_def)
  show "size_of memory_block = 16" by (simp add: align_up_def memory_block_def)
  show "size_of KernelState = 28" by (simp add: align_up_def KernelState_def)
  show "size_of idt_entry_t = 8" by (simp add: align_up_def idt_entry_t_def)
  show "size_of idt_ptr_t = 6" by (simp add: align_up_def idt_ptr_t_def)
  show "size_of registers = 64" by (simp add: align_up_def registers_def)
  show "size_of File_t = 4136" by (simp add: align_up_def File_t_def MAX_FILENAME_LENGTH_def MAX_FILE_SIZE_def)
  show "size_of Instruction_t = 6" by (simp add: align_up_def Instruction_t_def)
  show "size_of CompileResult_t = 268" by (simp add: align_up_def CompileResult_t_def)
  show "size_of E_t = 32" by (simp add: align_up_def E_t_def)
  show "size_of EditorConfig = 124" by (simp add: align_up_def EditorConfig_def)
  show "size_of multiboot_mmap_entry = 24" by (simp add: align_up_def multiboot_mmap_entry_def)
  show "size_of multiboot_vbe_controller_info = 512" by (simp add: align_up_def multiboot_vbe_controller_info_def)
  show "size_of multiboot_vbe_mode_info = 50" by (simp add: align_up_def multiboot_vbe_mode_info_def)
  show "size_of elf_sec = 16" by (simp add: align_up_def elf_sec_def)
  show "size_of aout_sym = 16" by (simp add: align_up_def aout_sym_def)
  show "size_of vbe = 16" by (simp add: align_up_def vbe_def)
  show "size_of palette = 8" by (simp add: align_up_def palette_def)
  show "size_of color_fields = 6" by (simp add: align_up_def color_fields_def)
  show "size_of framebuffer = 32" by (simp add: align_up_def framebuffer_def color_info_def palette_def color_fields_def)
  show "size_of multiboot_info = 124" by (simp add: align_up_def multiboot_info_def elf_sec_def aout_sym_def vbe_def color_info_def palette_def color_fields_def framebuffer_def)
  show "size_of multiboot_mod_list = 16" by (simp add: align_up_def multiboot_mod_list_def)
qed

lemma structures_well_placed:
  "well_placed block_meta"
  "well_placed memory_block"
  "well_placed KernelState"
  "well_placed idt_entry_t"
  "well_placed idt_ptr_t"
  "well_placed registers"
  "well_placed File_t"
  "well_placed Instruction_t"
  "well_placed CompileResult_t"
  "well_placed E_t"
  "well_placed EditorConfig"
  "well_placed multiboot_mmap_entry"
  "well_placed multiboot_vbe_controller_info"
  "well_placed multiboot_vbe_mode_info"
  "well_placed elf_sec"
  "well_placed aout_sym"
  "well_placed vbe"
  "well_placed palette"
  "well_placed color_fields"
  "well_placed framebuffer"
  "well_placed multiboot_info"
  "well_placed multiboot_mod_list"
proof -
  show "well_placed block_meta" unfolding block_meta_def by (rule struct_well_placed) (simp)
  show "well_placed memory_block" unfolding memory_block_def by (rule struct_well_placed) (simp)
  show "well_placed KernelState" unfolding KernelState_def by (rule struct_well_placed) (simp)
  show "well_placed idt_entry_t" unfolding idt_entry_t_def by (rule struct_well_placed) (simp)
  show "well_placed idt_ptr_t" unfolding idt_ptr_t_def by (rule struct_well_placed) (simp)
  show "well_placed registers" unfolding registers_def by (rule struct_well_placed) (simp)
  show "well_placed File_t" unfolding File_t_def by (rule struct_well_placed) (simp)
  show "well_placed Instruction_t" unfolding Instruction_t_def by (rule struct_well_placed) (simp)
  show "well_placed CompileResult_t" unfolding CompileResult_t_def by (rule struct_well_placed) (simp)
  show "well_placed E_t" unfolding E_t_def by (rule struct_well_placed) (simp)
  show "well_placed EditorConfig" unfolding EditorConfig_def by (rule struct_well_placed) (simp)
  show "well_placed multiboot_mmap_entry" unfolding multiboot_mmap_entry_def by (rule struct_well_placed) (simp)
  show "well_placed multiboot_vbe_controller_info" unfolding multiboot_vbe_controller_info_def by (rule struct_well_placed) (simp)
  show "well_placed multiboot_vbe_mode_info" unfolding multiboot_vbe_mode_info_def by (rule struct_well_placed) (simp)
  show "well_placed elf_sec" unfolding elf_sec_def by (rule struct_well_placed) (simp)
  show "well_placed aout_sym" unfolding aout_sym_def by (rule struct_well_placed) (simp)
  show "well_placed vbe" unfolding vbe_def by (rule struct_well_placed) (simp)
  show "well_placed palette" unfolding palette_def by (rule struct_well_placed) (simp)
  show "well_placed color_fields" unfolding color_fields_def by (rule struct_well_placed) (simp)
  show "well_placed framebuffer" unfolding framebuffer_def by (rule struct_well_placed) (simp add: color_info_def palette_def color_fields_def)
  show "well_placed multiboot_info" unfolding multiboot_info_def by (rule struct_well_placed) (simp add: elf_sec_def aout_sym_def vbe_def color_info_def palette_def color_fields_def framebuffer_def)
  show "well_placed multiboot_mod_list" unfolding multiboot_mod_list_def by (rule struct_well_placed) (simp)
qed

text \<open>
  Every structure that the sources declare has a sound layout: its members follow each other
  in order without overlap, lie inside the structure, and are aligned where it is not packed, also
  in arrays of it; and these are the sizes in bytes.
\<close>

lemma structures_placed:
  "list_all well_placed structures \<and>
   map size_of structures = [12, 16, 28, 8, 6, 64, 4136, 6, 268, 32, 124, 24, 512, 50, 16, 16, 16, 8, 6, 32, 124, 16]"
  by (simp add: structures_def structures_well_placed structure_sizes)

text \<open>The address of a member.\<close>

definition field :: "ctype \<Rightarrow> string \<Rightarrow> u32 \<Rightarrow> u32" where
  "field t f p = p + of_nat (the (offset_of t f))"

lemma registers_fields:
  "map (offset_of registers) [''ds'', ''edi'', ''esi'', ''ebp'', ''esp'', ''ebx'', ''edx'', ''ecx'', ''eax'',
     ''int_no'', ''err_code'', ''eip'', ''cs'', ''eflags''] = map (\<lambda>i. Some (4 * i)) [0..<14]"
  by code_simp

text \<open>
  The memory accesses of the model are accesses to the members as they are declared: the
  three fields of a block header at their offsets behind a header of \<^verbatim>\<open>sizeof\<close> bytes, the
  vector in \<^verbatim>\<open>struct registers\<close>, an instruction as consecutive bytes, and the sizes that
  the code computes with.
\<close>

lemma accesses_match_layout:
  "blk_size m p = load32 m (field block_meta ''size'' p) \<and>
   blk_next m p = load32 m (field block_meta ''next'' p) \<and>
   blk_free m p = (m (field block_meta ''is_free'' p) \<noteq> 0) \<and>
   sizeof_block_meta = of_nat (size_of block_meta) \<and>
   int_no p s = load32 (ram s) (field registers ''int_no'' p) \<and>
   sizeof_Instruction = of_nat (size_of Instruction_t) \<and>
   map (offset_of Instruction_t) [''opcode'', ''operands'', ''operand_count''] = [Some 0, Some 1, Some 5] \<and>
   sizeof_idt_entry = size_of idt_entry_t"
  by (simp add: field_def offset_of_def block_meta_def registers_def Instruction_t_def idt_entry_t_def
      align_up_def blk_size_def blk_next_def blk_free_def int_no_def sizeof_block_meta_def
      sizeof_Instruction_def sizeof_idt_entry_def)

text \<open>The words that a stub has pushed when it calls its handler, read as the members.\<close>

lemma pushed_members:
  fixes s :: "'a machine_scheme" and c :: cpu and ret n :: u32
  defines "frame \<equiv> gpr c ESP - 56" and "m \<equiv> push_words (saved_words n c @ [ret]) (gpr c ESP) (ram s)"
  shows "map (\<lambda>f. load32 m (field registers f frame))
      [''edi'', ''esi'', ''ebp'', ''esp'', ''ebx'', ''edx'', ''ecx'', ''eax'',
       ''int_no'', ''err_code'', ''eip'', ''cs'', ''eflags'']
    = [gpr c EDI, gpr c ESI, gpr c EBP, gpr c ESP - 20, gpr c EBX, gpr c EDX, gpr c ECX, gpr c EAX,
       n, 0, eip c, ucast (segm c CS), eflags c]"
    and "load32 m (field registers ''ds'' frame) = set_low16 (gpr c EAX) (segm c DS)"
    and "field registers ''ds'' frame = frame" and "field registers ''useresp'' frame = gpr c ESP"
proof -
  have w: "load32 m (field registers f frame) = saved_words n c ! (13 - i)"
    if "offset_of registers f = Some (4 * i)" "i < 14" for f i
  proof -
    have "of_nat (4 * i) + 4 * of_nat (Suc (13 - i)) = (of_nat (4 * i + 4 * Suc (13 - i)) :: u32)" by simp
    also have "4 * i + 4 * Suc (13 - i) = 56" using that(2) by simp
    finally have "field registers f frame = gpr c ESP - 4 * of_nat (Suc (13 - i))"
      using that(1) by (simp add: field_def frame_def algebra_simps)
    then show ?thesis
      unfolding m_def using handler_start_word [of "13 - i" ret 0 n c s] that(2)
      by (simp add: handler_start_def)
  qed
  have off: "offset_of registers ''ds'' = Some (4 * 0)" "offset_of registers ''edi'' = Some (4 * 1)"
    "offset_of registers ''esi'' = Some (4 * 2)" "offset_of registers ''ebp'' = Some (4 * 3)"
    "offset_of registers ''esp'' = Some (4 * 4)" "offset_of registers ''ebx'' = Some (4 * 5)"
    "offset_of registers ''edx'' = Some (4 * 6)" "offset_of registers ''ecx'' = Some (4 * 7)"
    "offset_of registers ''eax'' = Some (4 * 8)" "offset_of registers ''int_no'' = Some (4 * 9)"
    "offset_of registers ''err_code'' = Some (4 * 10)" "offset_of registers ''eip'' = Some (4 * 11)"
    "offset_of registers ''cs'' = Some (4 * 12)" "offset_of registers ''eflags'' = Some (4 * 13)"
    using registers_fields by (simp_all add: upt_rec)
  note words = off [THEN w]
  show "field registers ''useresp'' frame = gpr c ESP"
    by (simp add: field_def offset_of_def registers_def align_up_def frame_def)
  show "field registers ''ds'' frame = frame" using off(1) by (simp add: field_def)
  show "load32 m (field registers ''ds'' frame) = set_low16 (gpr c EAX) (segm c DS)"
    using words(1) by (simp add: saved_words_def)
  show "map (\<lambda>f. load32 m (field registers f frame))
      [''edi'', ''esi'', ''ebp'', ''esp'', ''ebx'', ''edx'', ''ecx'', ''eax'',
       ''int_no'', ''err_code'', ''eip'', ''cs'', ''eflags'']
    = [gpr c EDI, gpr c ESI, gpr c EBP, gpr c ESP - 20, gpr c EBX, gpr c EDX, gpr c ECX, gpr c EAX,
       n, 0, eip c, ucast (segm c CS), eflags c]"
    by (simp add: words saved_words_def)
qed

text \<open>
  C39. The frame that the stubs build is a \<^verbatim>\<open>struct registers\<close>, for each of the four entries: when
  the gate has been passed and the instructions of the entry and of the common stub have run up to
  the call of the handler, each member from \<^verbatim>\<open>ds\<close> to \<^verbatim>\<open>eflags\<close> at the address 56
  bytes below the interrupted stack pointer holds what its name says (\<^verbatim>\<open>esp\<close> the stack pointer
  after the vector was pushed), and the last two members are not part of the frame. But the stack
  top, which the handler takes for its argument, is the first word of the frame and not its address.
\<close>

theorem frame_is_registers:
  fixes s :: "'a machine_scheme" and c :: cpu and ret :: u32
  defines "frame \<equiv> gpr c ESP - 56"
  shows "list_all (\<lambda>(entry, n).
      let (arg, c', h) = call_enter ret (exec stub_save (exec entry (enter_gate g (c, s))));
          member = (\<lambda>f. load32 (ram h) (field registers f frame))
      in map member [''edi'', ''esi'', ''ebp'', ''esp'', ''ebx'', ''edx'', ''ecx'', ''eax'',
           ''int_no'', ''err_code'', ''eip'', ''cs'', ''eflags'']
         = [gpr c EDI, gpr c ESI, gpr c EBP, gpr c ESP - 20, gpr c EBX, gpr c EDX, gpr c ECX, gpr c EAX,
            n, 0, eip c, ucast (segm c CS), eflags c] \<and>
         ucast (member ''ds'') = segm c DS \<and> int_no frame h = n \<and>
         field registers ''useresp'' frame = gpr c ESP \<and>
         gpr c' ESP = frame - 4 \<and> load32 (ram h) (gpr c' ESP) = ret \<and> arg = member ''ds'')
    [(isr0_entry, 0), (isr1_entry, 1), (irq0_entry, 32), (irq1_entry, 33)]"
    (is "list_all (\<lambda>(entry, n). ?built entry n) _")
proof -
  have "?built [CLI, PUSHI 0, PUSHI n] n" for n
  proof -
    let ?m = "push_words (saved_words n c @ [ret]) (gpr c ESP) (ram s)"
    note members = pushed_members(1,2) [where n = n and c = c and ret = ret and s = s, folded frame_def]
      pushed_members(3,4) [where c = c, folded frame_def]
    have "load32 ?m (gpr c ESP - 4 * of_nat (Suc 14)) = ret"
      using push_words_load [of 14 "saved_words n c @ [ret]" "gpr c ESP" "ram s"]
      by (simp add: saved_words_def)
    then have "load32 ?m (gpr c ESP - 60) = ret" by simp
    moreover have "gpr (handler_cpu g c) ESP = gpr c ESP - 60" by (simp add: handler_cpu_def)
    moreover have "frame - 4 = gpr c ESP - 60" by (simp add: frame_def)
    moreover have "int_no frame (s\<lparr>ram := ?m, events := events s @ [Cli]\<rparr>) = n"
      using members(1) by (simp add: int_no_def field_def offset_of_def registers_def align_up_def)
    moreover have "load32 ?m frame = set_low16 (gpr c EAX) (segm c DS)"
      using members(2) unfolding members(3) .
    ultimately show ?thesis unfolding stub_in by (simp add: members(1,3,4) del: list.map)
  qed
  then show ?thesis
    by (simp only: list.pred_inject prod.case isr0_entry_def isr1_entry_def irq0_entry_def irq1_entry_def simp_thms)
qed

text \<open>
  The header of \<^verbatim>\<open>boot.asm\<close> is the one that \<^verbatim>\<open>multiboot.h\<close> describes, but for the flags:
  the code asks for a video mode, the constant of the header file does not.
\<close>

lemma multiboot_header_valid:
  "take 3 multiboot_header = [MULTIBOOT_HEADER_MAGIC, MULTIBOOT_HEADER_FLAGS OR MULTIBOOT_VIDEO_MODE, CHECKSUM]"
  "sum_list (take 3 multiboot_header) = 0" "length multiboot_header = 12"
  "MULTIBOOT_HEADER_MAGIC + MULTIBOOT_HEADER_FLAGS + MULTIBOOT_HEADER_CHECKSUM = 0"
  "CHECKSUM \<noteq> MULTIBOOT_HEADER_CHECKSUM" "MULTIBOOT_BOOTLOADER_MAGIC = 0x2BADB002"
  by (simp_all add: multiboot_header_def MULTIBOOT_HEADER_MAGIC_def MULTIBOOT_HEADER_FLAGS_def
      MULTIBOOT_VIDEO_MODE_def MULTIBOOT_PAGE_ALIGN_def MULTIBOOT_MEMORY_INFO_def MULTIBOOT_BOOTLOADER_MAGIC_def
      MULTIBOOT_HEADER_CHECKSUM_def MAGIC_def FLAGS_def CHECKSUM_def MBALIGN_def MEMINFO_def VIDINFO_def)

end
