(* ===== verification/OldStubs.thy ===== *)
theory OldStubs
  imports Stubs
begin

text \<open>
  \<^verbatim>\<open>kernel/interrupt_asm.asm\<close>: a second set of entry stubs, for all 32 exceptions and all 16
  interrupt lines, that the \<^verbatim>\<open>Makefile\<close> does not build. Its stubs are written with three
  macros and call one function \<^verbatim>\<open>interrupt_handler\<close>, which is nowhere in the sources and is an
  argument here. The theorems say that each of the 48 entries presents the frame of its vector to
  that function and returns to the interrupted code, and that for the vectors which the kernel
  installs this is what the stubs of \<^verbatim>\<open>isr.asm\<close> do.
\<close>

subsection \<open>The macros\<close>

definition ISR_NOERRCODE :: "u32 \<Rightarrow> insn list" where "ISR_NOERRCODE n = [CLI, PUSHI 0, PUSHI n]"
definition ISR_ERRCODE :: "u32 \<Rightarrow> insn list" where "ISR_ERRCODE n = [CLI, PUSHI n]"

text \<open>The first argument of the macro \<^verbatim>\<open>IRQ\<close> is only in the name of the entry.\<close>

definition IRQ_macro :: "u32 \<Rightarrow> insn list" where "IRQ_macro n = [CLI, PUSHI 0, PUSHI n]"

subsection \<open>The entries, as the file lists them\<close>

definition isr_entries :: "(nat \<times> insn list) list" where
  "isr_entries =
    [(0, ISR_NOERRCODE 0), (1, ISR_NOERRCODE 1), (2, ISR_NOERRCODE 2), (3, ISR_NOERRCODE 3),
     (4, ISR_NOERRCODE 4), (5, ISR_NOERRCODE 5), (6, ISR_NOERRCODE 6), (7, ISR_NOERRCODE 7),
     (8, ISR_ERRCODE 8), (9, ISR_NOERRCODE 9), (10, ISR_ERRCODE 10), (11, ISR_ERRCODE 11),
     (12, ISR_ERRCODE 12), (13, ISR_ERRCODE 13), (14, ISR_ERRCODE 14), (15, ISR_NOERRCODE 15),
     (16, ISR_NOERRCODE 16), (17, ISR_ERRCODE 17), (18, ISR_NOERRCODE 18), (19, ISR_NOERRCODE 19),
     (20, ISR_NOERRCODE 20), (21, ISR_NOERRCODE 21), (22, ISR_NOERRCODE 22), (23, ISR_NOERRCODE 23),
     (24, ISR_NOERRCODE 24), (25, ISR_NOERRCODE 25), (26, ISR_NOERRCODE 26), (27, ISR_NOERRCODE 27),
     (28, ISR_NOERRCODE 28), (29, ISR_NOERRCODE 29), (30, ISR_ERRCODE 30), (31, ISR_NOERRCODE 31)]"

definition irq_entries :: "(nat \<times> insn list) list" where
  "irq_entries =
    [(0, IRQ_macro 32), (1, IRQ_macro 33), (2, IRQ_macro 34), (3, IRQ_macro 35),
     (4, IRQ_macro 36), (5, IRQ_macro 37), (6, IRQ_macro 38), (7, IRQ_macro 39),
     (8, IRQ_macro 40), (9, IRQ_macro 41), (10, IRQ_macro 42), (11, IRQ_macro 43),
     (12, IRQ_macro 44), (13, IRQ_macro 45), (14, IRQ_macro 46), (15, IRQ_macro 47)]"

subsection \<open>The common stubs\<close>

text \<open>Both begin with the text of \<^const>\<open>stub_save\<close>; the second restores the segments through \<^verbatim>\<open>bx\<close>.\<close>

definition isr_common ::
  "(u32 \<Rightarrow> 'a machine_scheme \<Rightarrow> 'a machine_scheme) \<Rightarrow> (reg \<Rightarrow> u32) \<Rightarrow> u32 \<Rightarrow> 'a pm \<Rightarrow> 'a pm" where
  "isr_common interrupt_handler scratch ret p =
     (case call_enter ret (exec stub_save p) of (arg, c, s) \<Rightarrow>
        exec stub_restore (call_leave scratch c, interrupt_handler arg s))"

definition irq_restore :: "insn list" where
  "irq_restore = [POP EBX, MOV_SEG_BX DS, MOV_SEG_BX ES, MOV_SEG_BX FS, MOV_SEG_BX GS,
     POPA, ADDI ESP 8, STI, IRET]"

definition irq_common ::
  "(u32 \<Rightarrow> 'a machine_scheme \<Rightarrow> 'a machine_scheme) \<Rightarrow> (reg \<Rightarrow> u32) \<Rightarrow> u32 \<Rightarrow> 'a pm \<Rightarrow> 'a pm" where
  "irq_common interrupt_handler scratch ret p =
     (case call_enter ret (exec stub_save p) of (arg, c, s) \<Rightarrow>
        exec irq_restore (call_leave scratch c, interrupt_handler arg s))"

text \<open>
  The way of a vector through its gate and its entry. For some exceptions the processor pushes an
  error code on top of the return address. \<^const>\<open>None\<close>: no entry for the vector.
\<close>

definition enter_with_code :: "u32 option \<Rightarrow> idt_entry \<Rightarrow> 'a pm \<Rightarrow> 'a pm" where
  "enter_with_code code g p = (case code of None \<Rightarrow> enter_gate g p | Some e \<Rightarrow> push e (enter_gate g p))"

definition old_interrupt ::
  "(u32 \<Rightarrow> 'a machine_scheme \<Rightarrow> 'a machine_scheme) \<Rightarrow> (reg \<Rightarrow> u32) \<Rightarrow> u32 \<Rightarrow> u32 option \<Rightarrow> nat \<Rightarrow> idt_entry \<Rightarrow>
   'a pm \<Rightarrow> 'a pm option" where
  "old_interrupt interrupt_handler scratch ret code vec g p =
     (let p = enter_with_code code g p in
      if vec < 32
      then map_option (\<lambda>is. isr_common interrupt_handler scratch ret (exec is p)) (map_of isr_entries vec)
      else map_option (\<lambda>is. irq_common interrupt_handler scratch ret (exec is p)) (map_of irq_entries (vec - 32)))"

definition old_idt_load :: "'a pm \<Rightarrow> 'a pm" where
  "old_idt_load p =
     (case pop (exec [PUSH EBP, MOV EBP ESP, LOAD EAX EBP 8, LIDT EAX, POP EBP] p) of
        (a, c, s) \<Rightarrow> (c\<lparr>eip := a\<rparr>, s))"

subsection \<open>The frame\<close>

text \<open>The exceptions for which the file expects an error code.\<close>

definition with_error_code :: "nat set" where
  "with_error_code = {8, 10, 11, 12, 13, 14, 17, 30}"

lemma isr_table:
  "list_all (\<lambda>v. map_of isr_entries v =
     Some (if v \<in> with_error_code then ISR_ERRCODE (of_nat v) else ISR_NOERRCODE (of_nat v))) [0..<32]"
  by code_simp

lemma irq_table: "list_all (\<lambda>n. map_of irq_entries n = Some (IRQ_macro (of_nat (32 + n)))) [0..<16]"
  by code_simp

lemma isr_entry:
  "vec < 32 \<Longrightarrow> map_of isr_entries vec =
    Some (if vec \<in> with_error_code then ISR_ERRCODE (of_nat vec) else ISR_NOERRCODE (of_nat vec))"
  using isr_table unfolding list_all_iff set_upt by simp

lemma irq_entry: "n < 16 \<Longrightarrow> map_of irq_entries n = Some (IRQ_macro (of_nat (32 + n)))"
  using irq_table unfolding list_all_iff set_upt by simp

text \<open>The way out of the second stub: the register it borrows comes back with the others.\<close>

lemma irq_out:
  "exec irq_restore (call_leave scratch (handler_cpu g c), s)
    = exec stub_restore (call_leave scratch (handler_cpu g c), s)"
  by (simp add: irq_restore_def stub_restore_def call_leave_def handler_cpu_def pop_eq pop_reg_eq)

text \<open>
  What the stubs rely on: the function does not write to the 56 bytes that the entry has saved
  above its return address.
\<close>

definition keeps_frame :: "cpu \<Rightarrow> ('a machine_scheme \<Rightarrow> 'a machine_scheme) \<Rightarrow> bool" where
  "keeps_frame c h \<longleftrightarrow> (\<forall>s a. below a (gpr c ESP) 56 \<longrightarrow> ram (h s) a = ram s a)"

lemma frame_below:
  fixes sp :: u32
  assumes "i < 14" and "j < 4"
  shows "below (sp - 4 * of_nat (Suc i) + of_nat j) sp 56"
proof -
  define a where "a = sp - 4 * of_nat (Suc i) + of_nat j"
  have "sp - a = of_nat (4 * Suc i) - of_nat j" by (simp add: a_def)
  also have "\<dots> = of_nat (4 * Suc i - j)" using assms by (subst of_nat_diff) simp_all
  finally have "sp - a = of_nat (4 * Suc i - j)" .
  moreover have "4 * Suc i - j < 2 ^ 32" using assms(1) by simp
  ultimately have "unat (sp - a) = 4 * Suc i - j" by (simp only: unat_of_nat32)
  then have "unat (sp - a) \<noteq> 0" "unat (sp - a) \<le> 56" using assms by simp_all
  moreover have "a \<noteq> sp" using calculation(1) by auto
  ultimately show ?thesis unfolding a_def [symmetric] below_def by simp
qed

lemma frame_word_kept:
  assumes "keeps_frame c h" and "i < 14"
  shows "load32 (ram (h (code_start ret e n c s))) (gpr c ESP - 4 * of_nat (Suc i)) = frame_words e n c ! i"
proof -
  let ?s = "code_start ret e n c s"
  have "load32 (ram (h ?s)) (gpr c ESP - 4 * of_nat (Suc i)) = load32 (ram ?s) (gpr c ESP - 4 * of_nat (Suc i))"
    using assms frame_below [OF assms(2)] by (intro load32_cong bytes_at_cong) (simp add: keeps_frame_def)
  then show ?thesis using handler_start_word [OF assms(2)] by simp
qed

text \<open>The error code that the frame holds: the processor's, or the zero that the entry pushes.\<close>

definition frame_code :: "u32 option \<Rightarrow> u32" where
  "frame_code code = (case code of None \<Rightarrow> 0 | Some e \<Rightarrow> e)"

lemma common_returns:
  fixes c :: cpu and s :: "'a machine_scheme" and e n :: u32 and g :: idt_entry
  assumes "keeps_frame c (h (stub_argument c))"
  defines "p \<equiv> exec [CLI, PUSHI n] (push e (enter_gate g (c, s)))"
  shows "isr_common h scratch ret p = (returned_cpu c, resume (h (stub_argument c) (code_start ret e n c s)))"
    and "irq_common h scratch ret p = (returned_cpu c, resume (h (stub_argument c) (code_start ret e n c s)))"
proof -
  note out = stub_out [OF frame_word_kept [OF assms(1)]]
  show "isr_common h scratch ret p = (returned_cpu c, resume (h (stub_argument c) (code_start ret e n c s)))"
    unfolding isr_common_def p_def code_stub_in using out
    by (simp add: stub_argument_def [symmetric] code_start_def [symmetric] resume_def)
  show "irq_common h scratch ret p = (returned_cpu c, resume (h (stub_argument c) (code_start ret e n c s)))"
    unfolding irq_common_def p_def code_stub_in using out
    by (simp add: stub_argument_def [symmetric] code_start_def [symmetric] resume_def irq_out)
qed

text \<open>Every entry leaves the processor's words, one error code and the vector, in one of two ways.\<close>

lemma entry_pushes:
  assumes "vec < 48" and "code = None \<longleftrightarrow> vec \<notin> with_error_code"
  shows "old_interrupt h scratch ret code vec g (c, s) = Some (
    let p = exec [CLI, PUSHI (of_nat vec)] (push (frame_code code) (enter_gate g (c, s))) in
    if vec < 32 then isr_common h scratch ret p else irq_common h scratch ret p)"
proof (cases "vec < 32")
  case True
  then show ?thesis
    using assms(2) isr_entry [OF True]
    by (cases code) (simp_all add: old_interrupt_def enter_with_code_def frame_code_def Let_def
      ISR_ERRCODE_def ISR_NOERRCODE_def dummy_code del: exec_simps)
next
  case False
  then have "vec \<notin> with_error_code" by (auto simp: with_error_code_def)
  moreover have "map_of irq_entries (vec - 32) = Some (IRQ_macro (of_nat vec))"
    using irq_entry [of "vec - 32"] False assms(1) by simp
  ultimately show ?thesis
    using False assms(2)
    by (simp add: old_interrupt_def enter_with_code_def frame_code_def Let_def IRQ_macro_def dummy_code
      del: exec_simps)
qed

text \<open>
  For the timer and the keyboard the entries of this file, with \<^const>\<open>irq_handler\<close> for the missing
  function, and those of \<^verbatim>\<open>isr.asm\<close> are the same.
\<close>

lemma keeps_frame_irq_handler: "keeps_frame c (irq_handler regs)"
  by (simp add: keeps_frame_def)

lemma entries_agree:
  assumes "gates_installed s" and "vec \<in> {32, 33}"
  shows "interrupt scratch ret vec (c, s) =
    map_option (\<lambda>p. Inr (Running p)) (old_interrupt irq_handler scratch ret None vec (idt s ! vec) (c, s))"
proof -
  have v: "vec < 48" "vec \<notin> with_error_code" "\<not> vec < 32" using assms(2) by (auto simp: with_error_code_def)
  show ?thesis
    using interrupt_stub [OF assms(1), of vec] assms(2) v
    by (simp add: entry_pushes irq_stub_eq common_returns keeps_frame_irq_handler frame_code_def Let_def del: exec_simps)
qed

text \<open>
  \<^verbatim>\<open>idt_load\<close> has the same text in both files.
\<close>

lemma old_idt_load_same: "old_idt_load = idt_load_code"
  by (rule ext) (simp add: old_idt_load_def idt_load_code_def)

subsection \<open>Properties\<close>

text \<open>
  C29. The entries of \<^verbatim>\<open>interrupt_asm.asm\<close>, all 48 of them: when the processor pushes an error code
  for just the exceptions that the file lists as such, the function they call starts on the
  saved words with the error code (a zero where there is none) 16 and the vector 20 bytes below the
  interrupted stack pointer, and if it does not write into the frame, the entry returns to the
  interrupted code with the stack pointer and all registers as they were, but for the data
  segments that get the value of \<^verbatim>\<open>ds\<close>, whatever is left in the scratch registers.
\<close>

theorem old_entries_return:
  fixes s :: "'a machine_scheme" and code :: "u32 option" and ret :: u32
  assumes "vec < 48" and "code = None \<longleftrightarrow> vec \<notin> with_error_code"
    and "keeps_frame c (h (stub_argument c))"
  defines "s0 \<equiv> code_start ret (frame_code code) (of_nat vec) c s"
  shows "old_interrupt h scratch ret code vec g (c, s) =
      Some (returned_cpu c, resume (h (stub_argument c) s0)) \<and>
    load32 (ram s0) (gpr c ESP - 16) = frame_code code \<and> load32 (ram s0) (gpr c ESP - 20) = of_nat vec"
proof -
  have "load32 (ram s0) (gpr c ESP - 16) = frame_code code" "load32 (ram s0) (gpr c ESP - 20) = of_nat vec"
    using handler_start_word [of 3 ret "frame_code code" "of_nat vec" c s]
      handler_start_word [of 4 ret "frame_code code" "of_nat vec" c s]
    by (simp_all add: s0_def frame_words_def)
  then show ?thesis
    using common_returns [where h = h and c = c, OF assms(3)]
    unfolding entry_pushes [OF assms(1,2)] s0_def by (simp add: Let_def del: exec_simps)
qed

text \<open>A page fault with the error code 2, and a function that acknowledges the interrupt.\<close>

theorem old_entries_return_witness:
  "\<exists>t. old_interrupt (\<lambda>_. outb 0x20 0x20) (\<lambda>_. 9) 0x104000 (Some 2) 14 (interrupt_gate 0x105000)
      (kernel_cpu, gated (\<lambda>_. 0)) = Some (returned_cpu kernel_cpu, t)"
proof -
  have keeps: "keeps_frame kernel_cpu (outb 0x20 0x20 :: interrupts \<Rightarrow> interrupts)"
    by (simp add: keeps_frame_def outb_def)
  have code: "(Some 2 = None) = ((14::nat) \<notin> with_error_code)" by (simp add: with_error_code_def)
  from old_entries_return [where h = "\<lambda>_. outb 0x20 0x20" and c = kernel_cpu and s = "gated (\<lambda>_. 0)"
      and scratch = "\<lambda>_. 9" and ret = "0x104000" and g = "interrupt_gate 0x105000", OF _ code keeps]
  show ?thesis by simp
qed

end
