(* ===== verification/Spec2Isabelle.thy ===== *)
theory Spec2Isabelle
  imports Release System Layout Commands OldStubs
begin

text \<open>
  Verification of a small i386 kernel: the C++ sources under \<^verbatim>\<open>src/kernel\<close> and the
  older copy under \<^verbatim>\<open>src/release/kernel\<close>.

  The program. GRUB enters \<^verbatim>\<open>_start\<close> (\<^verbatim>\<open>boot.asm\<close>), which sets up segments and stack and
  calls \<^verbatim>\<open>kernel_main\<close>. \<^verbatim>\<open>kernel_main\<close> (\<^verbatim>\<open>kernel.cpp\<close>) initialises an allocator
  (\<^verbatim>\<open>memory.cpp\<close>), a VGA text terminal (\<^verbatim>\<open>kernel.cpp\<close>), a keyboard driver
  (\<^verbatim>\<open>keyboard.cpp\<close>), a file table (\<^verbatim>\<open>filesystem.cpp\<close>), the interrupt table
  (\<^verbatim>\<open>interrupts.cpp\<close>, \<^verbatim>\<open>isr.asm\<close>), a one-pass assembler (\<^verbatim>\<open>compiler.cpp\<close>) and an
  editor (\<^verbatim>\<open>editor.cpp\<close>), and then calls \<^verbatim>\<open>editor_process_keypress\<close> for ever. The
  keyboard interrupt puts characters into a ring that the editor takes them from; the editor
  keeps its text in heap blocks, draws it through the terminal with \<^verbatim>\<open>snprintf\<close>
  (\<^verbatim>\<open>stdio.cpp\<close>), and can hand it to the assembler.

  The state is one record that grows along the imports, as every component reaches memory and
  ports: \<^verbatim>\<open>machine\<close> (memory, event log, device), \<^verbatim>\<open>heap\<close>, \<^verbatim>\<open>terminal\<close>,
  \<^verbatim>\<open>keyboard\<close>, \<^verbatim>\<open>filesystem\<close>, \<^verbatim>\<open>interrupts\<close>, \<^verbatim>\<open>compiler\<close>,
  \<^verbatim>\<open>editor\<close>. Each holds the static variables of its source file under their names, and
  operations are polymorphic in what comes later, so that the types show what an operation
  cannot touch. Results: a plain state where the code always returns; \<^verbatim>\<open>option\<close> where a
  loop may not end (\<^verbatim>\<open>partial_function\<close>, \<^verbatim>\<open>None\<close> is no return); \<^verbatim>\<open>fault +\<close> where the
  C++ can have undefined behaviour in a checked array, in signed arithmetic or in a variadic
  argument.

  Theories:
  \<^item> \<^verbatim>\<open>Prelude\<close>, \<^verbatim>\<open>Machine\<close>: word and array lemmas, faults, flat little-endian memory, runs of
    bytes, \<^verbatim>\<open>io.h\<close>. What a port read answers is an arbitrary function of the event log.
  \<^item> \<^verbatim>\<open>CString\<close>, \<^verbatim>\<open>CArray\<close>: \<^verbatim>\<open>string.cpp\<close> and \<^verbatim>\<open>memcpy\<close>, once over memory and once
    over checked arrays (for static and local arrays). The copies and searches are proved equal
    to their descriptions; \<^verbatim>\<open>strncpy\<close> with no terminator in range runs away.
  \<^item> \<^verbatim>\<open>Heap\<close>: the block list in memory and its abstraction to sizes and flags, the
    \<^verbatim>\<open>allocator\<close> contract as a locale and its interpretation, the slack lemmas that bound
    several allocations, \<^verbatim>\<open>heap_keeps\<close> for clients.
  \<^item> \<^verbatim>\<open>Terminal\<close>: the 2000 cells as a list, refinement of an abstract screen, the hardware
    cursor, what output leaves unchanged.
  \<^item> \<^verbatim>\<open>Keyboard\<close>: the controller handshake, the handler as an abstract key press, the ring as a
    queue (locale \<^verbatim>\<open>bounded_queue\<close>), the interleaving of handler and reader as a step
    relation.
  \<^item> \<^verbatim>\<open>Format\<close>: \<^verbatim>\<open>vsnprintf\<close>, \<^verbatim>\<open>sprintf\<close>, \<^verbatim>\<open>itoa\<close> and \<^verbatim>\<open>int_to_string\<close> against
    a reference rendering and decimal numerals.
  \<^item> \<^verbatim>\<open>Filesystem\<close>: the table as a finite map from names to contents (locale
    \<^verbatim>\<open>named_store\<close>), every outcome of creation, the listing.
  \<^item> \<^verbatim>\<open>Interrupts\<close>: descriptor table, controllers, handlers, panic.
  \<^item> \<^verbatim>\<open>Cpu\<close>, \<^verbatim>\<open>Stubs\<close>: the registers and the instructions that the assembly files use;
    \<^verbatim>\<open>isr.asm\<close> as lists of them, from the gate to \<^verbatim>\<open>iret\<close>. An interrupt returns to
    the interrupted code with all registers but the data segments; the handlers get the saved
    \<^verbatim>\<open>ds\<close> as their pointer and read the vector from low memory.
  \<^item> \<^verbatim>\<open>OldStubs\<close>: \<^verbatim>\<open>interrupt_asm.asm\<close>, the 48 entries that the \<^verbatim>\<open>Makefile\<close> does not build, for
    any function in the place of the missing \<^verbatim>\<open>interrupt_handler\<close>; that they agree with \<^verbatim>\<open>isr.asm\<close>.
  \<^item> \<^verbatim>\<open>Boot\<close>: \<^verbatim>\<open>boot.asm\<close>, from the multiboot header to the call of \<^verbatim>\<open>kernel_main\<close>, and
    the stop when the boot loader is another one.
  \<^item> \<^verbatim>\<open>Compiler\<close>: tokenizer against a grammar of lines, the loop over the characters against
    assembling the list of lines, the whole compilation with its heap effects, and
    \<^verbatim>\<open>execute_binary\<close>. The instruction array is memory from the allocator; the loop knows its size,
    and a store behind it is a fault, which happens only when six times the length wraps around.
  \<^item> \<^verbatim>\<open>Layout\<close>: the layout rules of C for the i386, the structures of all headers under them
    (those of \<^verbatim>\<open>multiboot.h\<close> as well), and that the offsets which the other theories use, and
    the frame of the stubs, agree with them.
  \<^item> \<^verbatim>\<open>Editor\<close>, \<^verbatim>\<open>Session\<close>: the editor and its abstraction to text and cursor; insertion and
    deletion, the refresh, a key press, the main loop over a queue of keys, and what an interrupt
    between two turns leaves alone.
  \<^item> \<^verbatim>\<open>Preemption\<close>: interrupts inside a turn, between the statements of \<^verbatim>\<open>keyboard_getchar\<close>, of the
    editing and of the refresh. States that differ only in what the handler writes go on alike
    (\<^verbatim>\<open>agree\<close>, one lemma per operation), so a turn with interrupts has the outcome of one without; the
    system steps (interrupt, or turn with interrupts in it) and their invariant.
  \<^item> \<^verbatim>\<open>Commands\<close>: the control keys. Compile and run through heap, screen and the called code;
    that the refresh wipes every answer off the screen; that saving stores nothing.
  \<^item> \<^verbatim>\<open>Kernel\<close>: boot, and the composition of boot with the system steps.
  \<^item> \<^verbatim>\<open>System\<close>: from power on through \<^verbatim>\<open>_start\<close> to the main loop, with interrupts entering
    through the stubs: the machine reaches the loop, and no key ever does, as
    \<^verbatim>\<open>kernel_main\<close> printed through the null terminal pointer onto the word that the
    handlers take for the vector. And the heap that boot lays over the image of the kernel.
  \<^item> \<^verbatim>\<open>Release\<close>: the functions in which the older copy differs, and how they relate; it boots, and
    has undefined behaviour at the first key.

  Bounds. \<^verbatim>\<open>heap_slack\<close> counts the bytes between the end of the block list and the end of
  the address space (the allocator has no other limit); a key press needs at most 14 bytes more
  than the text is long, so 60000 steps after boot fit the 0xE0000000 bytes that are free then.
  \<^verbatim>\<open>main_loop\<close> cuts the endless loop after a number of turns; the theorems hold for every
  number that the heap allows.

  Not modelled: the code that \<^verbatim>\<open>execute_binary\<close> jumps to (an argument of the definitions that
  use it); the addresses the linker chooses (fields of the state); what becomes of the
  kernel's own code and variables under the heap, which starts where the image is loaded (\<^verbatim>\<open>System\<close>
  shows the overlap; static variables are record fields, apart from the memory); timing and
  the delay loops; the protected-mode
  checks of the processor, of which only selectors, gates and the stack are followed; the parts of the
  headers that only declare; the files of the older copy whose text is that of \<^verbatim>\<open>src/kernel\<close>;
  the host program, which is empty, and its placeholder test; build scripts.
  \<^verbatim>\<open>system_stays_well\<close> and the theorems of \<^verbatim>\<open>Session\<close> and \<^verbatim>\<open>Preemption\<close> are about
  handlers that get a pointer to their frame, as their C source expects; \<^verbatim>\<open>System\<close> is about the
  pointer that the stubs really pass. In \<^verbatim>\<open>Preemption\<close> the routines on memory alone (allocator,
  string routines, the formatted status), a call of the terminal and the three command keys are one
  step; \<^verbatim>\<open>System\<close> takes its interrupts between two turns.
\<close>

end
